(* ===== verification/Prelude.thy ===== *)
theory Prelude
  imports Main "HOL-Library.Word"
begin

unbundle bit_operations_syntax

text \<open>
  Shared vocabulary of the development: the machine integers and byte strings of the Go
  program, the big-endian accessors of encoding/binary, the cursor operations of
  bytes.Reader, and the interface of a byte codec with the laws a parser relies on.

  A Go string is a sequence of bytes; it is modelled by \<open>string\<close> (a HOL \<open>char\<close> has
  exactly 8 bits), a Go byte slice by a list of 8-bit words.
\<close>

section \<open>Machine integers and byte strings\<close>

type_synonym u8 = "8 word"
type_synonym u16 = "16 word"
type_synonym u32 = "32 word"
type_synonym bytes = "u8 list"

named_theorems codec_simps \<open>a decoder applied to what the matching encoder wrote\<close>
named_theorems byte_simps \<open>conversions between bytes, characters and integers\<close>
named_theorems frame_simps \<open>fields an operation does not change\<close>

definition char_of_byte :: "u8 \<Rightarrow> char" where
  "char_of_byte b = char_of (unat b)"

definition byte_of_char :: "char \<Rightarrow> u8" where
  "byte_of_char c = of_nat (of_char c)"

definition string_of_bytes :: "bytes \<Rightarrow> string" where
  "string_of_bytes bs = map char_of_byte bs"

definition bytes_of_string :: "string \<Rightarrow> bytes" where
  "bytes_of_string s = map byte_of_char s"

section \<open>encoding/binary, big endian\<close>

definition get16 :: "u8 \<Rightarrow> u8 \<Rightarrow> u16" where
  "get16 a b = push_bit 8 (ucast a) OR ucast b"

definition put16 :: "u16 \<Rightarrow> bytes" where
  "put16 v = [ucast (drop_bit 8 v), ucast v]"

definition get32 :: "u8 \<Rightarrow> u8 \<Rightarrow> u8 \<Rightarrow> u8 \<Rightarrow> u32" where
  "get32 a b c d = push_bit 24 (ucast a) OR push_bit 16 (ucast b) OR push_bit 8 (ucast c) OR ucast d"

definition put32 :: "u32 \<Rightarrow> bytes" where
  "put32 v = [ucast (drop_bit 24 v), ucast (drop_bit 16 v), ucast (drop_bit 8 v), ucast v]"

section \<open>Cursor operations of bytes.Reader\<close>

text \<open>
  A reader is the list of its unread bytes. \<open>binary.Read\<close> into a fixed-size integer goes
  through \<open>io.ReadFull\<close>: when too few bytes are left it consumes them all, reports an error
  and leaves the destination as it was; the program ignores the error, so the destination's
  old value is an argument here.
\<close>

fun read_u8 :: "u8 \<Rightarrow> bytes \<Rightarrow> u8 \<times> bytes" where
  "read_u8 old (a # r) = (a, r)"
| "read_u8 old [] = (old, [])"

fun read_u16 :: "u16 \<Rightarrow> bytes \<Rightarrow> u16 \<times> bytes" where
  "read_u16 old (a # b # r) = (get16 a b, r)"
| "read_u16 old _ = (old, [])"

fun read_u32 :: "u32 \<Rightarrow> bytes \<Rightarrow> u32 \<times> bytes" where
  "read_u32 old (a # b # c # d # r) = (get32 a b c d, r)"
| "read_u32 old _ = (old, [])"

text \<open>
  \<open>buf := make([]byte, n); r.Read(buf)\<close>: a short read leaves the rest of the buffer zero.
\<close>

definition read_buf :: "nat \<Rightarrow> bytes \<Rightarrow> bytes \<times> bytes" where
  "read_buf n r = (take n r @ replicate (n - length r) 0, drop n r)"

section \<open>Decimal and hexadecimal formatting\<close>

definition digit_char :: "nat \<Rightarrow> char" where
  "digit_char n = char_of (48 + n)"

fun dec_nat :: "nat \<Rightarrow> string" where
  "dec_nat n = (if n < 10 then [digit_char n] else dec_nat (n div 10) @ [digit_char (n mod 10)])"

declare dec_nat.simps [simp del]

text \<open>\<open>%d\<close> of a signed integer.\<close>

definition dec_int :: "int \<Rightarrow> string" where
  "dec_int i = (if i < 0 then ''-'' @ dec_nat (nat (- i)) else dec_nat (nat i))"

definition hex_digit :: "nat \<Rightarrow> char" where
  "hex_digit n = (if n < 10 then char_of (48 + n) else char_of (55 + n))"

text \<open>\<open>%02X\<close> of a byte; \<open>%X\<close> of a byte slice is the same for every byte.\<close>

definition hex_byte :: "u8 \<Rightarrow> string" where
  "hex_byte b = [hex_digit (unat b div 16), hex_digit (unat b mod 16)]"

section \<open>Lemmas\<close>

lemma char_of_byte_inverse [byte_simps, simp]: "byte_of_char (char_of_byte b) = b"
  using unsigned_less [of b, where 'a = nat]
  by (simp add: byte_of_char_def char_of_byte_def)

lemma byte_of_char_inverse [byte_simps, simp]: "char_of_byte (byte_of_char c) = c"
  by (simp add: byte_of_char_def char_of_byte_def unat_of_nat)

lemma string_of_bytes_inverse [byte_simps, simp]: "bytes_of_string (string_of_bytes bs) = bs"
  by (simp add: bytes_of_string_def string_of_bytes_def comp_def)

lemma bytes_of_string_inverse [byte_simps, simp]: "string_of_bytes (bytes_of_string s) = s"
  by (simp add: bytes_of_string_def string_of_bytes_def comp_def)

lemma length_bytes_of_string [byte_simps, simp]: "length (bytes_of_string s) = length s"
  by (simp add: bytes_of_string_def)

lemma length_string_of_bytes [byte_simps, simp]: "length (string_of_bytes s) = length s"
  by (simp add: string_of_bytes_def)

lemma string_of_bytes_eq_iff [byte_simps]: "string_of_bytes a = string_of_bytes b \<longleftrightarrow> a = b"
  by (metis string_of_bytes_inverse)

lemma length_put16 [byte_simps, simp]: "length (put16 v) = 2"
  by (simp add: put16_def)

lemma length_put32 [byte_simps, simp]: "length (put32 v) = 4"
  by (simp add: put32_def)

lemma get16_put16 [codec_simps]: "get16 (ucast (drop_bit 8 v)) (ucast v) = v"
  unfolding get16_def
  by (rule bit_word_eqI) (auto simp: bit_simps)

lemma get32_put32 [codec_simps]:
  "get32 (ucast (drop_bit 24 v)) (ucast (drop_bit 16 v)) (ucast (drop_bit 8 v)) (ucast v) = v"
  unfolding get32_def
proof (rule bit_word_eqI)
  fix n assume "n < LENGTH(32)"
  then consider "n < 8" | "8 \<le> n \<and> n < 16" | "16 \<le> n \<and> n < 24" | "24 \<le> n \<and> n < 32" by force
  then show "bit (push_bit 24 (ucast (ucast (drop_bit 24 v) :: u8)) OR
      push_bit 16 (ucast (ucast (drop_bit 16 v) :: u8)) OR
      push_bit 8 (ucast (ucast (drop_bit 8 v) :: u8)) OR ucast (ucast v :: u8) :: u32) n = bit v n"
    by cases (auto simp: bit_simps)
qed

lemma bit_u8_high [simp]: "8 \<le> n \<Longrightarrow> \<not> bit (b :: u8) n"
  using bit_imp_le_length [of b n] by auto

lemma put16_get16 [codec_simps]: "put16 (get16 a b) = [a, b]"
  unfolding put16_def get16_def
  by (auto intro!: bit_word_eqI simp: bit_simps)

lemma put32_get32 [codec_simps]: "put32 (get32 a b c d) = [a, b, c, d]"
  unfolding put32_def get32_def
  by (auto intro!: bit_word_eqI simp: bit_simps)

lemma read_buf_exact [codec_simps]: "length xs = n \<Longrightarrow> read_buf n (xs @ r) = (xs, r)"
  by (simp add: read_buf_def)

lemma read_buf_all [codec_simps]: "read_buf (length xs) xs = (xs, [])"
  by (simp add: read_buf_def)

lemma digit_char_inj: "m < 10 \<Longrightarrow> n < 10 \<Longrightarrow> digit_char m = digit_char n \<Longrightarrow> m = n"
proof -
  assume mn: "m < 10" "n < 10" "digit_char m = digit_char n"
  then have "(of_char (char_of (48 + m)) :: nat) = of_char (char_of (48 + n))"
    by (simp add: digit_char_def)
  with mn(1,2) show "m = n" by simp
qed

lemma dec_nat_not_Nil [simp]: "dec_nat n \<noteq> []" "[] \<noteq> dec_nat n"
  by (subst dec_nat.simps, simp)+

lemma dec_nat_inj: "dec_nat m = dec_nat n \<Longrightarrow> m = n"
proof (induction m arbitrary: n rule: dec_nat.induct)
  case (1 m)
  show ?case
  proof (cases "m < 10"; cases "n < 10")
    assume "m < 10" "n < 10"
    with 1 show ?thesis by (simp add: dec_nat.simps digit_char_inj)
  next
    assume "m < 10" "\<not> n < 10"
    with 1 show ?thesis by (simp add: dec_nat.simps [of m] dec_nat.simps [of n])
  next
    assume "\<not> m < 10" "n < 10"
    with 1 show ?thesis by (simp add: dec_nat.simps [of m] dec_nat.simps [of n])
  next
    assume mn: "\<not> m < 10" "\<not> n < 10"
    with 1(2) have "dec_nat (m div 10) = dec_nat (n div 10)"
      "digit_char (m mod 10) = digit_char (n mod 10)"
      by (simp_all add: dec_nat.simps [of m] dec_nat.simps [of n])
    with mn 1(1) have "m div 10 = n div 10" "m mod 10 = n mod 10"
      by (auto intro: digit_char_inj)
    then show ?thesis by (metis div_mult_mod_eq)
  qed
qed

section \<open>The interface of a fixed-width integer codec\<close>

text \<open>
  What the parsers of the program rely on: reading back what was written gives the value and
  the untouched rest, the encoding has a fixed width, and a full-width prefix is the encoding
  of the value read from it.
\<close>

locale fixed_codec =
  fixes enc :: "'a \<Rightarrow> bytes"
    and dec :: "'a \<Rightarrow> bytes \<Rightarrow> 'a \<times> bytes"
    and width :: nat
  assumes dec_enc: "dec old (enc v @ r) = (v, r)"
    and width_enc: "length (enc v) = width"
    and short_dec: "length r < width \<Longrightarrow> dec old r = (old, [])"
    and dec_complete: "width \<le> length r \<Longrightarrow> enc (fst (dec old r)) @ snd (dec old r) = r"
begin

lemma dec_enc_self: "dec old (enc v) = (v, [])"
  using dec_enc [of old v "[]"] by simp

lemma enc_inj: "enc v = enc w \<Longrightarrow> v = w"
  using dec_enc_self by (metis fst_conv)

lemma dec_rest_drop: "snd (dec old r) = drop width r"
proof (cases "width \<le> length r")
  case True
  then have "drop width (enc (fst (dec old r)) @ snd (dec old r)) = drop width r"
    by (simp only: dec_complete)
  then show ?thesis by (simp add: width_enc)
qed (simp add: short_dec)

lemma dec_old_irrelevant: "width \<le> length r \<Longrightarrow> dec old r = dec old' r"
  by (metis dec_complete dec_enc)

lemma dec_append: "width \<le> length r \<Longrightarrow> dec old (r @ s) = (fst (dec old r), snd (dec old r) @ s)"
  by (metis append_assoc dec_complete dec_enc)

end

interpretation u16c: fixed_codec put16 read_u16 2
proof unfold_locales
  fix old v r
  show "read_u16 old (put16 v @ r) = (v, r)"
    by (simp add: put16_def get16_put16)
next
  fix r :: bytes and old
  assume "length r < 2"
  then show "read_u16 old r = (old, [])"
    by (cases "(old, r)" rule: read_u16.cases) auto
next
  fix r :: bytes and old
  assume "2 \<le> length r"
  then show "put16 (fst (read_u16 old r)) @ snd (read_u16 old r) = r"
    by (cases "(old, r)" rule: read_u16.cases) (auto simp: put16_get16)
qed simp

interpretation u32c: fixed_codec put32 read_u32 4
proof unfold_locales
  fix old v r
  show "read_u32 old (put32 v @ r) = (v, r)"
    by (simp add: put32_def get32_put32)
next
  fix r :: bytes and old
  assume "length r < 4"
  then show "read_u32 old r = (old, [])"
    by (cases "(old, r)" rule: read_u32.cases) auto
next
  fix r :: bytes and old
  assume "4 \<le> length r"
  then show "put32 (fst (read_u32 old r)) @ snd (read_u32 old r) = r"
    by (cases "(old, r)" rule: read_u32.cases) (auto simp: put32_get32)
qed simp

interpretation u8c: fixed_codec "\<lambda>v. [v]" read_u8 1
proof unfold_locales
  fix r :: bytes and old
  assume "length r < 1"
  then show "read_u8 old r = (old, [])" by simp
next
  fix r :: bytes and old
  assume "1 \<le> length r"
  then show "[fst (read_u8 old r)] @ snd (read_u8 old r) = r"
    by (cases r) auto
qed simp_all

lemmas codec_roundtrips [codec_simps] =
  u8c.dec_enc u16c.dec_enc u32c.dec_enc u8c.dec_enc_self u16c.dec_enc_self u32c.dec_enc_self

end
