(* ===== verification/Frame.thy ===== *)
theory Frame
  imports Prelude
begin

text \<open>
  The JT/T 808 wire framing of \<open>pkg/protocol/frame.go\<close>: the byte-wise reader
  (\<open>ReadFrame\<close>), the writer (\<open>WriteFrame\<close>), the two response bodies the server builds,
  the XOR checksum and the BCD phone number, with the laws that relate reading and writing.
\<close>

section \<open>Go strings as runes\<close>

text \<open>
  \<open>for i, ch := range s\<close> walks a string by runes: \<open>i\<close> is a byte offset, \<open>ch\<close> the decoded
  code point; an invalid UTF-8 sequence yields U+FFFD and advances one byte.
\<close>

definition cont_byte :: "u8 \<Rightarrow> bool" where
  "cont_byte b \<longleftrightarrow> 0x80 \<le> b \<and> b \<le> 0xBF"

definition rune2 :: "u8 \<Rightarrow> u8 \<Rightarrow> u32" where
  "rune2 a b = push_bit 6 (ucast (a AND 0x1F)) OR ucast (b AND 0x3F)"

definition rune3 :: "u8 \<Rightarrow> u8 \<Rightarrow> u8 \<Rightarrow> u32" where
  "rune3 a b c = push_bit 12 (ucast (a AND 0x0F)) OR push_bit 6 (ucast (b AND 0x3F)) OR
     ucast (c AND 0x3F)"

definition rune4 :: "u8 \<Rightarrow> u8 \<Rightarrow> u8 \<Rightarrow> u8 \<Rightarrow> u32" where
  "rune4 a b c d = push_bit 18 (ucast (a AND 0x07)) OR push_bit 12 (ucast (b AND 0x3F)) OR
     push_bit 6 (ucast (c AND 0x3F)) OR ucast (d AND 0x3F)"

definition second3 :: "u8 \<Rightarrow> u8 \<Rightarrow> bool" where
  "second3 a b \<longleftrightarrow> (if a = 0xE0 then 0xA0 \<le> b \<and> b \<le> 0xBF
     else if a = 0xED then 0x80 \<le> b \<and> b \<le> 0x9F else cont_byte b)"

definition second4 :: "u8 \<Rightarrow> u8 \<Rightarrow> bool" where
  "second4 a b \<longleftrightarrow> (if a = 0xF0 then 0x90 \<le> b \<and> b \<le> 0xBF
     else if a = 0xF4 then 0x80 \<le> b \<and> b \<le> 0x8F else cont_byte b)"

definition rune_error :: u32 where
  "rune_error = 0xFFFD"

fun decode_rune :: "bytes \<Rightarrow> u32 \<times> nat" where
  "decode_rune [] = (rune_error, 0)"
| "decode_rune (a # r) =
     (if a < 0x80 then (ucast a, 1)
      else if 0xC2 \<le> a \<and> a \<le> 0xDF then
        (case r of b # _ \<Rightarrow> if cont_byte b then (rune2 a b, 2) else (rune_error, 1)
         | _ \<Rightarrow> (rune_error, 1))
      else if 0xE0 \<le> a \<and> a \<le> 0xEF then
        (case r of b # c # _ \<Rightarrow>
           if second3 a b \<and> cont_byte c then (rune3 a b c, 3) else (rune_error, 1)
         | _ \<Rightarrow> (rune_error, 1))
      else if 0xF0 \<le> a \<and> a \<le> 0xF4 then
        (case r of b # c # d # _ \<Rightarrow>
           if second4 a b \<and> cont_byte c \<and> cont_byte d then (rune4 a b c d, 4)
           else (rune_error, 1)
         | _ \<Rightarrow> (rune_error, 1))
      else (rune_error, 1))"

lemma decode_rune_width: "xs \<noteq> [] \<Longrightarrow> 0 < snd (decode_rune xs)"
  by (cases xs) (auto split: list.splits)

function range_string :: "nat \<Rightarrow> bytes \<Rightarrow> (nat \<times> u32) list" where
  "range_string i s =
     (if s = [] then []
      else (let (ch, w) = decode_rune s in (i, ch) # range_string (i + w) (drop w s)))"
  by pat_completeness auto
termination
proof (relation "measure (\<lambda>(i, s). length s)", goal_cases)
  case (2 i s x ch w)
  then have "w = snd (decode_rune s)" by (metis snd_conv)
  with 2 show ?case
    using decode_rune_width [of s] by simp
qed simp

declare range_string.simps [simp del]

section \<open>Frames and errors\<close>

definition flag_byte :: u8 where "flag_byte = 0x7e"

definition escape_byte :: u8 where "escape_byte = 0x7d"

record frame =
  msg_id :: u16
  phone :: string
  seq_num :: u16
  body :: bytes
  is_subpackage :: bool
  total_pkg :: u16
  pkg_seq :: u16

text \<open>What a read from the connection can fail with: end of stream, an expired deadline
  (a \<open>net.Error\<close> whose \<open>Timeout()\<close> is true), or any other error of the connection.\<close>

datatype io_error = EOF | Timeout | OtherIO

datatype read_error =
    SkipError io_error
  | MidFrame io_error
  | EscapeRead io_error
  | InvalidEscape u8
  | TooShort nat
  | ChecksumMismatch u8 u8

section \<open>BCD phone numbers\<close>

definition nibble_char :: "u8 \<Rightarrow> char" where
  "nibble_char n = char_of_byte (0x30 + n)"

fun decode_bcd :: "bytes \<Rightarrow> string" where
  "decode_bcd [] = []"
| "decode_bcd (v # b) =
     (let hi = drop_bit 4 v AND 0x0f; lo = v AND 0x0f
      in (if hi \<noteq> 0x0f then [nibble_char hi] else []) @
         (if lo \<noteq> 0x0f then [nibble_char lo] else []) @ decode_bcd b)"

definition bcd_put :: "nat \<Rightarrow> u8 \<Rightarrow> bytes \<Rightarrow> bytes" where
  "bcd_put i nibble b =
     (if even i then b[i div 2 := push_bit 4 nibble OR 0x0f]
      else b[i div 2 := (b ! (i div 2) AND 0xf0) OR nibble])"

fun encode_bcd_loop :: "(nat \<times> u32) list \<Rightarrow> bytes \<Rightarrow> bytes" where
  "encode_bcd_loop [] b = b"
| "encode_bcd_loop ((i, ch) # xs) b =
     (if 12 \<le> i then b else encode_bcd_loop xs (bcd_put i (ucast (ch - 0x30)) b))"

definition encode_bcd :: "string \<Rightarrow> bytes" where
  "encode_bcd p = encode_bcd_loop (range_string 0 (bytes_of_string p)) (replicate 6 0xff)"

section \<open>Checksum and byte stuffing\<close>

definition xor_checksum :: "bytes \<Rightarrow> u8" where
  "xor_checksum data = fold (\<lambda>b cs. cs XOR b) data 0"

fun escape :: "bytes \<Rightarrow> bytes" where
  "escape [] = []"
| "escape (b # raw) =
     (if b = 0x7e then [escape_byte, 0x02]
      else if b = 0x7d then [escape_byte, 0x01]
      else [b]) @ escape raw"

section \<open>Reading\<close>

text \<open>
  The connection is the list of bytes still to come and the error that follows them. The first
  loop of \<open>ReadFrame\<close> skips to the opening flag; \<open>None\<close> when the bytes run out.
\<close>

fun skip_to_flag :: "bytes \<Rightarrow> bytes option" where
  "skip_to_flag [] = None"
| "skip_to_flag (b # r) = (if b = flag_byte then Some r else skip_to_flag r)"

text \<open>The second loop collects and unescapes up to the closing flag.\<close>

fun collect :: "io_error \<Rightarrow> bytes \<Rightarrow> bytes \<Rightarrow> (read_error + bytes) \<times> bytes" where
  "collect e raw [] = (Inl (MidFrame e), [])"
| "collect e raw (b # r) =
     (if b = flag_byte then (Inr raw, r)
      else if b = escape_byte then
        (case r of
           [] \<Rightarrow> (Inl (EscapeRead e), [])
         | c # r' \<Rightarrow>
             if c = 0x01 then collect e (raw @ [0x7d]) r'
             else if c = 0x02 then collect e (raw @ [0x7e]) r'
             else (Inl (InvalidEscape c), r'))
      else collect e (raw @ [b]) r)"

text \<open>Header and body of an unescaped, checksummed payload.\<close>

definition parse_payload :: "bytes \<Rightarrow> frame" where
  "parse_payload payload =
     (let (msgID, rd) = read_u16 0 payload;
          (attrs, rd) = read_u16 0 rd;
          (phoneBCD, rd) = read_buf 6 rd;
          (seqNum, rd) = read_u16 0 rd;
          sub = attrs AND 0x2000 \<noteq> 0;
          (total, rd) = (if sub then read_u16 0 rd else (0, rd));
          (pseq, rd) = (if sub then read_u16 0 rd else (0, rd))
      in \<lparr>msg_id = msgID, phone = decode_bcd phoneBCD, seq_num = seqNum, body = rd,
          is_subpackage = sub, total_pkg = total, pkg_seq = pseq\<rparr>)"

definition check_raw :: "bytes \<Rightarrow> read_error + frame" where
  "check_raw raw =
     (if length raw < 13 then Inl (TooShort (length raw))
      else
        (let payload = take (length raw - 1) raw;
             want = raw ! (length raw - 1);
             got = xor_checksum payload
         in if got \<noteq> want then Inl (ChecksumMismatch got want) else Inr (parse_payload payload)))"

definition read_frame :: "io_error \<Rightarrow> bytes \<Rightarrow> (read_error + frame) \<times> bytes" where
  "read_frame e r =
     (case skip_to_flag r of
        None \<Rightarrow> (Inl (SkipError e), [])
      | Some r1 \<Rightarrow>
          (case collect e [] r1 of
             (Inl err, r2) \<Rightarrow> (Inl err, r2)
           | (Inr raw, r2) \<Rightarrow> (check_raw raw, r2)))"

section \<open>Writing\<close>

definition frame_header :: "u16 \<Rightarrow> string \<Rightarrow> u16 \<Rightarrow> nat \<Rightarrow> bytes" where
  "frame_header msgID ph seqNum len =
     put16 msgID @ put16 (of_nat len AND 0x03FF) @ encode_bcd ph @ put16 seqNum"

definition encode_frame :: "u16 \<Rightarrow> string \<Rightarrow> u16 \<Rightarrow> bytes \<Rightarrow> bytes" where
  "encode_frame msgID ph seqNum bdy =
     (let raw = frame_header msgID ph seqNum (length bdy) @ bdy;
          raw = raw @ [xor_checksum raw]
      in [flag_byte] @ escape raw @ [flag_byte])"

text \<open>The writer is a parameter: given the bytes of the one call to \<open>Write\<close>, the error it
  returns, if any.\<close>

definition write_frame ::
    "(bytes \<Rightarrow> 'err option) \<Rightarrow> u16 \<Rightarrow> string \<Rightarrow> u16 \<Rightarrow> bytes \<Rightarrow> 'err option" where
  "write_frame w msgID ph seqNum bdy = w (encode_frame msgID ph seqNum bdy)"

definition build_platform_ack :: "u16 \<Rightarrow> u16 \<Rightarrow> u8 \<Rightarrow> bytes" where
  "build_platform_ack replySeq replyMsgID result = put16 replySeq @ put16 replyMsgID @ [result]"

definition build_registration_ack :: "u16 \<Rightarrow> u8 \<Rightarrow> string \<Rightarrow> bytes" where
  "build_registration_ack replySeq result token =
     put16 replySeq @ [result] @ bytes_of_string token"

section \<open>Lemmas: byte stuffing\<close>

text \<open>
  The reference definition of unescaping, on a segment between two flags: the inverse of
  \<open>escape\<close>, \<open>None\<close> on an escape byte that is not followed by 0x01 or 0x02.
\<close>

fun unescape :: "bytes \<Rightarrow> bytes option" where
  "unescape [] = Some []"
| "unescape (b # r) =
     (if b = 0x7d then
        (case r of
           [] \<Rightarrow> None
         | c # r' \<Rightarrow>
             if c = 0x01 then map_option ((#) 0x7d) (unescape r')
             else if c = 0x02 then map_option ((#) 0x7e) (unescape r')
             else None)
      else map_option ((#) b) (unescape r))"

text \<open>
  The interface of byte stuffing: stuffing never produces the flag, unstuffing inverts it, and
  on flag-free input unstuffing succeeds only on what stuffing produces.
\<close>

locale byte_stuffing =
  fixes stuff :: "bytes \<Rightarrow> bytes"
    and unstuff :: "bytes \<Rightarrow> bytes option"
    and flag :: u8
  assumes unstuff_stuff: "unstuff (stuff xs) = Some xs"
    and flag_free: "flag \<notin> set (stuff xs)"
    and stuff_unstuff: "flag \<notin> set ys \<Longrightarrow> unstuff ys = Some xs \<Longrightarrow> stuff xs = ys"
begin

lemma stuff_inj: "stuff xs = stuff ys \<Longrightarrow> xs = ys"
  by (metis option.inject unstuff_stuff)

lemma unstuff_iff: "flag \<notin> set ys \<Longrightarrow> unstuff ys = Some xs \<longleftrightarrow> ys = stuff xs"
  using stuff_unstuff unstuff_stuff by blast

text \<open>The first flag after a stuffed segment ends it: a stream of segments splits in one way.\<close>

lemma delimited_unique:
  assumes "stuff xs @ flag # r = stuff ys @ flag # s"
  shows "xs = ys \<and> r = s"
proof -
  have "takeWhile (\<lambda>b. b \<noteq> flag) (stuff zs @ flag # t) = stuff zs" for zs t
    using flag_free [of zs] by (subst takeWhile_append2) auto
  with arg_cong [OF assms, of "takeWhile (\<lambda>b. b \<noteq> flag)"] have "stuff xs = stuff ys" by simp
  with assms stuff_inj show ?thesis by simp
qed

end

interpretation stuffing: byte_stuffing escape unescape flag_byte
proof unfold_locales
  fix xs
  show "unescape (escape xs) = Some xs"
    by (induction xs) (auto simp: escape_byte_def)
  show "flag_byte \<notin> set (escape xs)"
    by (induction xs) (auto simp: escape_byte_def flag_byte_def)
next
  fix xs ys
  assume "flag_byte \<notin> set ys" "unescape ys = Some xs"
  then show "escape xs = ys"
    by (induction ys arbitrary: xs rule: unescape.induct)
       (auto simp: escape_byte_def flag_byte_def split: if_splits list.splits)
qed

lemma length_escape_ge: "length xs \<le> length (escape xs)"
  by (induction xs) auto

section \<open>Lemmas: the reader's two loops\<close>

lemma skip_to_flag_garbage: "flag_byte \<notin> set pre \<Longrightarrow> skip_to_flag (pre @ flag_byte # r) = Some r"
  by (induction pre) auto

lemma skip_to_flag_None: "skip_to_flag r = None \<longleftrightarrow> flag_byte \<notin> set r"
  by (induction r) auto

lemma skip_to_flag_Some:
  "skip_to_flag r = Some s \<longleftrightarrow> (\<exists>pre. r = pre @ flag_byte # s \<and> flag_byte \<notin> set pre)"
proof (induction r)
  case Nil
  then show ?case by simp
next
  case (Cons b r)
  show ?case
  proof (cases "b = flag_byte")
    case True
    then show ?thesis by (auto simp: Cons_eq_append_conv)
  next
    case False
    with Cons show ?thesis by (auto simp: Cons_eq_append_conv)
  qed
qed

text \<open>
  The steps of the collecting loop, one equation per branch, and the induction that follows
  them: an escape byte takes the next byte with it.
\<close>

lemma collect_flag: "collect e raw (flag_byte # r) = (Inr raw, r)"
  by simp

lemma collect_escape_end: "collect e raw [escape_byte] = (Inl (EscapeRead e), [])"
  by (simp add: flag_byte_def escape_byte_def)

lemma collect_escape:
  "collect e raw (escape_byte # c # r) =
     (if c = 0x01 then collect e (raw @ [0x7d]) r
      else if c = 0x02 then collect e (raw @ [0x7e]) r
      else (Inl (InvalidEscape c), r))"
  by (simp add: flag_byte_def escape_byte_def)

lemma collect_literal:
  "b \<noteq> flag_byte \<Longrightarrow> b \<noteq> escape_byte \<Longrightarrow> collect e raw (b # r) = collect e (raw @ [b]) r"
  by simp

lemmas collect_steps = collect.simps(1) collect_flag collect_escape_end collect_escape collect_literal

lemma unescape_escape_end: "unescape [escape_byte] = None"
  by (simp add: escape_byte_def)

lemma unescape_escape:
  "unescape (escape_byte # c # r) =
     (if c = 0x01 then map_option ((#) 0x7d) (unescape r)
      else if c = 0x02 then map_option ((#) 0x7e) (unescape r) else None)"
  by (simp add: escape_byte_def)

lemma unescape_literal:
  "b \<noteq> escape_byte \<Longrightarrow> unescape (b # r) = map_option ((#) b) (unescape r)"
  by (simp add: escape_byte_def)

lemmas unescape_steps = unescape.simps(1) unescape_escape_end unescape_escape unescape_literal

declare collect.simps(2) [simp del] unescape.simps(2) [simp del]
declare collect_steps [simp] unescape_steps [simp]

lemma flag_distinct [simp]: "flag_byte \<noteq> escape_byte" "escape_byte \<noteq> flag_byte"
    "flag_byte \<noteq> 1" "flag_byte \<noteq> 2"
  by (simp_all add: flag_byte_def escape_byte_def)

lemma stream_induct [case_names Nil Flag EscapeEnd Escape Literal]:
  assumes "P []"
    and "\<And>r. P r \<Longrightarrow> P (flag_byte # r)"
    and "P [escape_byte]"
    and "\<And>c r. P r \<Longrightarrow> P (escape_byte # c # r)"
    and "\<And>b r. b \<noteq> flag_byte \<Longrightarrow> b \<noteq> escape_byte \<Longrightarrow> P r \<Longrightarrow> P (b # r)"
  shows "P r"
proof (induction r rule: length_induct)
  case (1 r)
  show ?case
  proof (cases r)
    case (Cons b r')
    with 1 have IH: "P r'" "\<And>c s. r' = c # s \<Longrightarrow> P s" by auto
    show ?thesis
    proof (cases "b = escape_byte")
      case True
      with Cons IH assms(3,4) show ?thesis by (cases r') auto
    next
      case False
      with Cons IH assms(2,5) show ?thesis by (cases "b = flag_byte") auto
    qed
  qed (use assms(1) in simp)
qed

lemma collect_ok:
  assumes "flag_byte \<notin> set mid" and "unescape mid = Some xs"
  shows "collect e raw (mid @ flag_byte # rest) = (Inr (raw @ xs), rest)"
  using assms
proof (induction mid arbitrary: raw xs rule: stream_induct)
  case (Escape c r)
  then show ?case by (auto split: if_splits)
qed auto

lemma collect_bad:
  assumes "flag_byte \<notin> set mid" and "unescape mid = None"
  shows "\<exists>c r. collect e raw (mid @ flag_byte # rest) = (Inl (InvalidEscape c), r) \<and>
           c \<noteq> 0x01 \<and> c \<noteq> 0x02"
  using assms
proof (induction mid arbitrary: raw rule: stream_induct)
  case EscapeEnd
  then show ?case by (simp add: flag_byte_def)
qed auto

lemma collect_shorter: "length (snd (collect e raw r)) \<le> length r"
proof (induction r arbitrary: raw rule: stream_induct)
  case (Escape c r)
  then show ?case by (auto simp: le_SucI)
qed (auto simp: le_SucI)

lemma collect_Inr:
  assumes "collect e raw r = (Inr xs, rest)"
  shows "\<exists>mid ys. r = mid @ flag_byte # rest \<and> flag_byte \<notin> set mid \<and>
           unescape mid = Some ys \<and> xs = raw @ ys"
  using assms
proof (induction r arbitrary: raw rule: stream_induct)
  case (Flag r)
  then have "r = rest" "xs = raw" by (simp_all add: collect_flag)
  then show ?case by (intro exI [of _ "[]"]) simp
next
  case (Escape c r)
  then have c: "c = 0x01 \<or> c = 0x02"
    by (auto simp: collect_escape split: if_splits)
  then have "collect e (raw @ [if c = 0x01 then 0x7d else 0x7e]) r = (Inr xs, rest)"
    using Escape.prems by auto
  from Escape.IH [OF this] obtain mid ys where "r = mid @ flag_byte # rest"
    "flag_byte \<notin> set mid" "unescape mid = Some ys"
    "xs = (raw @ [if c = 0x01 then 0x7d else 0x7e]) @ ys"
    by auto
  with c show ?case
    by (intro exI [of _ "escape_byte # c # mid"]
          exI [of _ "(if c = 0x01 then 0x7d else 0x7e) # ys"]) auto
next
  case (Literal b r)
  then have "collect e (raw @ [b]) r = (Inr xs, rest)" by simp
  from Literal.IH [OF this] obtain mid ys where "r = mid @ flag_byte # rest"
    "flag_byte \<notin> set mid" "unescape mid = Some ys" "xs = (raw @ [b]) @ ys"
    by auto
  with Literal.hyps show ?case
    by (intro exI [of _ "b # mid"] exI [of _ "b # ys"]) simp
qed auto

text \<open>What a delimited segment of the stream means, without the loops.\<close>

lemma read_frame_segment:
  assumes "flag_byte \<notin> set pre" and "flag_byte \<notin> set mid" and "unescape mid = Some raw"
  shows "read_frame e (pre @ flag_byte # mid @ flag_byte # rest) = (check_raw raw, rest)"
  using assms by (simp add: read_frame_def skip_to_flag_garbage collect_ok)

lemma read_frame_Inr_iff:
  "read_frame e r = (Inr f, rest) \<longleftrightarrow>
     (\<exists>pre raw. r = pre @ flag_byte # escape raw @ flag_byte # rest \<and> flag_byte \<notin> set pre \<and>
        check_raw raw = Inr f)"
proof
  assume l: "read_frame e r = (Inr f, rest)"
  then obtain r1 raw where 1: "skip_to_flag r = Some r1" "collect e [] r1 = (Inr raw, rest)"
    "check_raw raw = Inr f"
    by (auto simp: read_frame_def split: option.splits prod.splits sum.splits)
  from 1(1) obtain pre where 2: "r = pre @ flag_byte # r1" "flag_byte \<notin> set pre"
    by (auto simp: skip_to_flag_Some)
  from collect_Inr [OF 1(2)] obtain mid where 3: "r1 = mid @ flag_byte # rest"
    "flag_byte \<notin> set mid" "unescape mid = Some raw" by auto
  from 3(2,3) have "mid = escape raw" by (simp add: stuffing.unstuff_iff)
  with 1 2 3 show "\<exists>pre raw. r = pre @ flag_byte # escape raw @ flag_byte # rest \<and>
      flag_byte \<notin> set pre \<and> check_raw raw = Inr f"
    by blast
next
  assume "\<exists>pre raw. r = pre @ flag_byte # escape raw @ flag_byte # rest \<and>
      flag_byte \<notin> set pre \<and> check_raw raw = Inr f"
  then show "read_frame e r = (Inr f, rest)"
    using read_frame_segment stuffing.flag_free stuffing.unstuff_stuff by auto
qed

lemma read_frame_progress: "read_frame e r = (Inr f, rest) \<Longrightarrow> length rest + 15 \<le> length r"
proof -
  assume "read_frame e r = (Inr f, rest)"
  then obtain pre raw where "r = pre @ flag_byte # escape raw @ flag_byte # rest"
    "check_raw raw = Inr f" by (auto simp: read_frame_Inr_iff)
  moreover from this have "13 \<le> length raw" by (auto simp: check_raw_def split: if_splits)
  ultimately show ?thesis using length_escape_ge [of raw] by simp
qed

section \<open>Lemmas: prefixes of the stream\<close>

text \<open>A result that is not an I/O error of the stream's end does not depend on what follows.\<close>

fun decided_error :: "read_error \<Rightarrow> bool" where
  "decided_error (SkipError _) = False"
| "decided_error (MidFrame _) = False"
| "decided_error (EscapeRead _) = False"
| "decided_error _ = True"

definition decided :: "read_error + 'a \<Rightarrow> bool" where
  "decided res = (case res of Inl err \<Rightarrow> decided_error err | Inr _ \<Rightarrow> True)"

lemma decided_simps [simp]: "decided (Inr x)" "decided (Inl err) = decided_error err"
  by (simp_all add: decided_def)

lemma collect_append:
  "collect e raw r = (res, rest) \<Longrightarrow> decided res \<Longrightarrow> collect e' raw (r @ s) = (res, rest @ s)"
proof (induction r arbitrary: raw rule: stream_induct)
  case (Escape c r)
  then show ?case by (auto split: if_splits)
qed auto

lemma skip_to_flag_append: "skip_to_flag r = Some r' \<Longrightarrow> skip_to_flag (r @ s) = Some (r' @ s)"
  by (induction r) (auto split: if_splits)

lemma check_raw_decided [simp]: "decided (check_raw raw)"
  by (simp add: check_raw_def Let_def)

lemma read_frame_append:
  assumes "read_frame e r = (res, rest)" and "decided res"
  shows "read_frame e' (r @ s) = (res, rest @ s)"
proof -
  from assms obtain r1 where 1: "skip_to_flag r = Some r1"
    by (auto simp: read_frame_def split: option.splits)
  with assms obtain cres r2 where 2: "collect e [] r1 = (cres, r2)" "decided cres"
    and 3: "(res, rest) = (case cres of Inl err \<Rightarrow> (Inl err, r2) | Inr raw \<Rightarrow> (check_raw raw, r2))"
    by (cases "collect e [] r1") (auto simp: read_frame_def split: sum.splits)
  from 3 have "res = (case cres of Inl err \<Rightarrow> Inl err | Inr raw \<Rightarrow> check_raw raw)" "rest = r2"
    by (auto split: sum.splits)
  with 1 2 show ?thesis
    by (simp add: read_frame_def skip_to_flag_append collect_append split: sum.splits)
qed

lemma collect_flag_free:
  assumes "flag_byte \<notin> set r"
  shows "\<exists>err. fst (collect e raw r) = Inl err \<and>
           err \<in> {MidFrame e, EscapeRead e} \<union> range InvalidEscape"
  using assms by (induction r arbitrary: raw rule: stream_induct) auto

text \<open>A stuffed segment cut anywhere before its closing flag is an interrupted frame.\<close>

lemma collect_truncated:
  assumes "escape raw = mid @ tl_part"
  shows "fst (collect e acc mid) \<in> {Inl (MidFrame e), Inl (EscapeRead e)}"
proof -
  have mid: "flag_byte \<notin> set mid" using stuffing.flag_free [of raw] assms by simp
  have full: "collect e acc (escape raw @ [flag_byte]) = (Inr (acc @ raw), [])"
    using collect_ok [OF stuffing.flag_free stuffing.unstuff_stuff] by simp
  obtain err where err: "fst (collect e acc mid) = Inl err"
    "err \<in> {MidFrame e, EscapeRead e} \<union> range InvalidEscape"
    using collect_flag_free [OF mid] by blast
  have "err \<notin> range InvalidEscape"
  proof
    assume "err \<in> range InvalidEscape"
    with err obtain c rest where "collect e acc mid = (Inl (InvalidEscape c), rest)"
      by (cases "collect e acc mid") auto
    from collect_append [OF this, of e "tl_part @ [flag_byte]"] full assms show False by simp
  qed
  with err show ?thesis by auto
qed

section \<open>Lemmas: checksum\<close>

lemma fold_xor: "fold (\<lambda>b cs. cs XOR b) data (a :: u8) = a XOR fold (\<lambda>b cs. cs XOR b) data 0"
proof (induction data arbitrary: a)
  case (Cons b data)
  show ?case
    using Cons [of "a XOR b"] Cons [of "0 XOR b"] by (simp add: xor.assoc)
qed simp

lemma xor_checksum_Nil [simp]: "xor_checksum [] = 0"
  by (simp add: xor_checksum_def)

lemma xor_checksum_Cons [simp]: "xor_checksum (b # bs) = b XOR xor_checksum bs"
proof -
  have "xor_checksum (b # bs) = fold (\<lambda>b cs. cs XOR b) bs b"
    by (simp only: xor_checksum_def fold_simps xor.left_neutral)
  also have "\<dots> = b XOR fold (\<lambda>b cs. cs XOR b) bs 0" by (rule fold_xor)
  finally show ?thesis by (simp only: xor_checksum_def)
qed

lemma xor_checksum_append [simp]: "xor_checksum (xs @ ys) = xor_checksum xs XOR xor_checksum ys"
  by (induction xs) (simp_all add: xor.assoc)

lemma xor_cancel_right: "(a XOR b) XOR b = (a :: u8)"
  by (simp only: xor.assoc xor_self_eq xor.right_neutral)

lemma xor_eq_0_iff: "a XOR b = 0 \<longleftrightarrow> a = (b :: u8)"
proof
  assume "a XOR b = 0"
  then have "(a XOR b) XOR b = b" by (simp only: xor.left_neutral)
  then show "a = b" by (simp only: xor_cancel_right)
qed (simp only: xor_self_eq)

lemma xor_left_self [simp]: "a XOR (a XOR b) = (b :: u8)"
  by (simp only: xor.assoc [symmetric] xor_self_eq xor.left_neutral)

lemma xor_checksum_update:
  "i < length xs \<Longrightarrow> xor_checksum (xs[i := b]) = xor_checksum xs XOR (xs ! i XOR b)"
proof (induction xs arbitrary: i)
  case (Cons x xs)
  show ?case
  proof (cases i)
    case 0
    then show ?thesis by (simp add: ac_simps)
  next
    case (Suc j)
    with Cons show ?thesis by (simp add: xor.assoc)
  qed
qed simp

text \<open>A frame of sufficient length is accepted iff all its bytes, checksum included, XOR to 0.\<close>

lemma check_raw_alt:
  assumes "13 \<le> length raw"
  shows "check_raw raw =
    (if xor_checksum raw = 0 then Inr (parse_payload (butlast raw))
     else Inl (ChecksumMismatch (xor_checksum (butlast raw)) (last raw)))"
proof -
  have "raw \<noteq> []" using assms by auto
  then have "raw = butlast raw @ [last raw]" by simp
  then have "xor_checksum raw = xor_checksum (butlast raw) XOR last raw"
    by (metis xor_checksum_append xor_checksum_Cons xor_checksum_Nil xor.right_neutral)
  moreover have "take (length raw - 1) raw = butlast raw" "raw ! (length raw - 1) = last raw"
    using \<open>raw \<noteq> []\<close> by (simp_all add: butlast_conv_take last_conv_nth)
  ultimately show ?thesis
    using assms by (simp add: check_raw_def Let_def xor_eq_0_iff)
qed

lemma check_raw_Inr:
  "check_raw raw = Inr f \<longleftrightarrow> 13 \<le> length raw \<and> xor_checksum raw = 0 \<and> f = parse_payload (butlast raw)"
  by (cases "13 \<le> length raw") (auto simp: check_raw_alt, simp add: check_raw_def)

end
