(* ===== verification/Float64.thy ===== *)
theory Float64
  imports Complex_Main "HOL-Library.Log_Nat"
begin

text \<open>
  The binary64 numbers of Go's \<open>float64\<close> as far as the program computes with them: a finite
  number is a sign and a rational magnitude, and an operation rounds the exact rational result
  to the nearest representable magnitude, ties to even, with gradual underflow and overflow to
  infinity (IEEE 754, which the language specification refers to).
\<close>

section \<open>Definitions\<close>

datatype f64 = NaN | Inf bool | Fin bool rat

definition pow2 :: "int \<Rightarrow> rat" where
  "pow2 e = (if 0 \<le> e then 2 ^ nat e else 1 / 2 ^ nat (- e))"

text \<open>The exponent of the leading bit of a positive rational.\<close>

definition ilog2 :: "rat \<Rightarrow> int" where
  "ilog2 q = (let (n, d) = quotient_of q; k = bitlen n - bitlen d
     in if pow2 k \<le> q then k else k - 1)"

definition round_even :: "rat \<Rightarrow> int" where
  "round_even x = (let f = \<lfloor>x\<rfloor>; r = x - of_int f
     in if r < 1 / 2 then f else if 1 / 2 < r then f + 1 else if even f then f else f + 1)"

definition ulp_exp :: "rat \<Rightarrow> int" where
  "ulp_exp q = max (ilog2 q - 52) (- 1074)"

definition round_mag :: "rat \<Rightarrow> rat" where
  "round_mag q = (if q \<le> 0 then 0
     else of_int (round_even (q / pow2 (ulp_exp q))) * pow2 (ulp_exp q))"

definition f64_round :: "bool \<Rightarrow> rat \<Rightarrow> f64" where
  "f64_round neg q = (let m = round_mag q in if 2 ^ 1024 \<le> m then Inf neg else Fin neg m)"

definition f64_of_nat :: "nat \<Rightarrow> f64" where
  "f64_of_nat n = f64_round False (of_nat n)"

definition f64_of_int :: "int \<Rightarrow> f64" where
  "f64_of_int i = f64_round (i < 0) (of_int \<bar>i\<bar>)"

fun f64_neg :: "f64 \<Rightarrow> f64" where
  "f64_neg NaN = NaN"
| "f64_neg (Inf s) = Inf (\<not> s)"
| "f64_neg (Fin s m) = Fin (\<not> s) m"

fun f64_div :: "f64 \<Rightarrow> f64 \<Rightarrow> f64" where
  "f64_div (Fin s p) (Fin t q) =
     (if q = 0 then (if p = 0 then NaN else Inf (s \<noteq> t)) else f64_round (s \<noteq> t) (p / q))"
| "f64_div (Inf s) (Fin t q) = Inf (s \<noteq> t)"
| "f64_div (Fin s p) (Inf t) = Fin (s \<noteq> t) 0"
| "f64_div _ _ = NaN"

text \<open>The exact value of a finite number.\<close>

fun f64_val :: "f64 \<Rightarrow> rat" where
  "f64_val (Fin s m) = (if s then - m else m)"
| "f64_val _ = 0"

fun f64_finite :: "f64 \<Rightarrow> bool" where
  "f64_finite (Fin s m) = True"
| "f64_finite _ = False"

section \<open>Powers of two and the leading bit\<close>

lemma pow2_pos [simp]: "0 < pow2 e"
  by (simp add: pow2_def)

lemma pow2_nonzero [simp]: "pow2 e \<noteq> 0"
  using pow2_pos [of e] by linarith

lemma pow2_powi: "pow2 e = 2 powi e"
  by (auto simp: pow2_def power_int_def field_simps)

lemma pow2_add: "pow2 (a + b) = pow2 a * pow2 b"
  by (simp add: pow2_powi power_int_add)

lemma pow2_diff: "pow2 (a - b) = pow2 a / pow2 b"
  by (simp add: pow2_powi power_int_diff)

lemma pow2_mono: "a \<le> b \<Longrightarrow> pow2 a \<le> pow2 b"
  by (simp add: pow2_powi power_int_increasing)

lemma pow2_bitlen:
  assumes "0 < n"
  shows "pow2 (bitlen n - 1) \<le> of_int n" and "of_int n < pow2 (bitlen n)"
proof -
  have b: "0 < bitlen n"
    using assms bitlen_nonneg [of n] bitlen_eq_zero_iff [of n] by linarith
  have "2 ^ nat (bitlen n - 1) \<le> n" "n < 2 ^ nat (bitlen n)"
    using bitlen_bounds [OF assms] by auto
  then have "of_int (2 ^ nat (bitlen n - 1)) \<le> (of_int n :: rat)"
    "of_int n < (of_int (2 ^ nat (bitlen n)) :: rat)"
    by (simp_all only: of_int_le_iff of_int_less_iff)
  with b show "pow2 (bitlen n - 1) \<le> of_int n" and "of_int n < pow2 (bitlen n)"
    by (simp_all add: pow2_def)
qed

lemma ilog2_bounds:
  assumes "0 < q"
  shows "pow2 (ilog2 q) \<le> q" and "q < pow2 (ilog2 q + 1)"
proof -
  obtain n d where nd: "quotient_of q = (n, d)" by (cases "quotient_of q")
  have q: "q = of_int n / of_int d" and d: "0 < d"
    using quotient_of_div [OF nd] quotient_of_denom_pos [OF nd] by auto
  with assms have n: "0 < n" by (simp add: zero_less_divide_iff)
  define k where "k = bitlen n - bitlen d"
  have il: "ilog2 q = (if pow2 k \<le> q then k else k - 1)"
    by (simp add: ilog2_def nd k_def Let_def)
  have dpos: "(0 :: rat) < of_int d" using d by simp
  have "pow2 (k - 1) * of_int d \<le> pow2 (k - 1) * pow2 (bitlen d)"
    using pow2_bitlen [OF d] by (intro mult_left_mono) (auto intro: less_imp_le)
  also have "\<dots> = pow2 (bitlen n - 1)" by (simp add: k_def pow2_add [symmetric])
  also have "\<dots> \<le> of_int n" using pow2_bitlen [OF n] by simp
  finally have lo: "pow2 (k - 1) \<le> q" using dpos by (simp add: q pos_le_divide_eq)
  have "of_int n < pow2 (bitlen n)" using pow2_bitlen [OF n] by simp
  also have "\<dots> = pow2 (k + 1) * pow2 (bitlen d - 1)" by (simp add: k_def pow2_add [symmetric])
  also have "\<dots> \<le> pow2 (k + 1) * of_int d"
    using pow2_bitlen [OF d] by (intro mult_left_mono) (auto intro: less_imp_le)
  finally have hi: "q < pow2 (k + 1)" using dpos by (simp add: q pos_divide_less_eq)
  from lo hi il show "pow2 (ilog2 q) \<le> q" and "q < pow2 (ilog2 q + 1)" by auto
qed

section \<open>Rounding\<close>

lemma round_even_error: "\<bar>of_int (round_even x) - x\<bar> \<le> 1 / 2"
proof -
  have "of_int \<lfloor>x\<rfloor> \<le> x" "x < of_int \<lfloor>x\<rfloor> + 1" by linarith+
  then show ?thesis by (auto simp: round_even_def Let_def abs_le_iff)
qed

lemma round_even_int [simp]: "round_even (of_int n) = n"
  by (simp add: round_even_def Let_def)

lemma round_mag_0 [simp]: "round_mag 0 = 0"
  by (simp add: round_mag_def)

lemma round_mag_error:
  assumes "0 < q"
  shows "\<bar>round_mag q - q\<bar> \<le> pow2 (ulp_exp q) / 2"
proof -
  let ?u = "pow2 (ulp_exp q)"
  have "\<bar>of_int (round_even (q / ?u)) - q / ?u\<bar> * ?u \<le> 1 / 2 * ?u"
    by (intro mult_right_mono round_even_error) (simp add: less_imp_le)
  moreover have "\<bar>round_mag q - q\<bar> = \<bar>(of_int (round_even (q / ?u)) - q / ?u) * ?u\<bar>"
    using assms pow2_pos [of "ulp_exp q"] by (simp add: round_mag_def left_diff_distrib)
  then have "\<bar>round_mag q - q\<bar> = \<bar>of_int (round_even (q / ?u)) - q / ?u\<bar> * ?u"
    using pow2_pos [of "ulp_exp q"] by (simp add: abs_mult)
  ultimately show ?thesis by simp
qed

text \<open>The relative error of a result in the normal range is at most half a unit in 2^53.\<close>

lemma round_mag_relative_error:
  assumes "pow2 (- 1022) \<le> q"
  shows "\<bar>round_mag q - q\<bar> \<le> q / 2 ^ 53"
proof -
  have q: "0 < q" using assms by (rule order_less_le_trans [OF pow2_pos])
  have "pow2 (- 1022) < pow2 (ilog2 q + 1)"
    using assms ilog2_bounds(2) [OF q] by (rule order_le_less_trans)
  then have "- 1022 < ilog2 q + 1" using pow2_mono [of "ilog2 q + 1" "- 1022"] by linarith
  then have "ulp_exp q = ilog2 q - 52" by (simp add: ulp_exp_def)
  then have "pow2 (ulp_exp q) / 2 = pow2 (ilog2 q) / 2 ^ 53"
    by (simp add: pow2_diff) (simp add: pow2_def)
  also have "\<dots> \<le> q / 2 ^ 53" using ilog2_bounds(1) [OF q] by (simp add: divide_right_mono)
  finally show ?thesis using round_mag_error [OF q] by linarith
qed

lemma round_mag_nonneg: "0 \<le> round_mag q"
proof (cases "0 < q")
  case True
  have "0 \<le> \<lfloor>q / pow2 (ulp_exp q)\<rfloor>" using True by (simp add: less_imp_le)
  then have "0 \<le> round_even (q / pow2 (ulp_exp q))" by (simp add: round_even_def Let_def)
  with True show ?thesis by (simp add: round_mag_def less_imp_le)
qed (simp add: round_mag_def)

text \<open>Integers up to 2^53 are represented exactly.\<close>

lemma round_mag_small_nat:
  assumes "n < 2 ^ 53"
  shows "round_mag (of_nat n) = of_nat n"
proof (cases "n = 0")
  case False
  then have q: "(0 :: rat) < of_nat n" by simp
  have "pow2 (ilog2 (of_nat n)) \<le> of_nat n" using ilog2_bounds(1) [OF q] .
  also have "(of_nat n :: rat) < of_nat (2 ^ 53)" using assms by (simp only: of_nat_less_iff)
  also have "\<dots> = pow2 53" by (simp add: pow2_def)
  finally have "ilog2 (of_nat n) < 53" using pow2_mono [of 53 "ilog2 (of_nat n)"] by linarith
  then have u: "ulp_exp (of_nat n) \<le> 0" by (simp add: ulp_exp_def)
  define k where "k = nat (- ulp_exp (of_nat n))"
  have "pow2 (ulp_exp (of_nat n)) = 1 / 2 ^ k" using u by (auto simp: pow2_def k_def)
  moreover have "(of_nat n :: rat) * 2 ^ k = of_int (int n * 2 ^ k)" by simp
  ultimately show ?thesis
    using False round_even_int [of "int n * 2 ^ k"] by (simp add: round_mag_def)
qed simp

lemma f64_of_nat_exact: "n < 2 ^ 53 \<Longrightarrow> f64_of_nat n = Fin False (of_nat n)"
proof -
  assume n: "n < 2 ^ 53"
  have "(2 :: nat) ^ 53 < 2 ^ 1024" by (rule power_strict_increasing) simp_all
  with n have "(of_nat n :: rat) < of_nat (2 ^ 1024)" by (simp only: of_nat_less_iff)
  with n show ?thesis by (simp add: f64_of_nat_def f64_round_def round_mag_small_nat)
qed

lemma f64_val_neg [simp]: "f64_val (f64_neg x) = - f64_val x"
  by (cases x) auto

end
