(* ===== verification/Types.thy ===== *)
theory Types
  imports Prelude Float64
begin

text \<open>
  The message vocabulary of \<open>pkg/protocol/types.go\<close>: message ids, result codes, flag bits and
  the decoded location and registration bodies.
\<close>

section \<open>Message ids\<close>

definition msg_terminal_resp :: u16 where "msg_terminal_resp = 0x0001"

definition msg_heartbeat :: u16 where "msg_heartbeat = 0x0002"

definition msg_registration :: u16 where "msg_registration = 0x0100"

definition msg_authentication :: u16 where "msg_authentication = 0x0102"

definition msg_terminal_props :: u16 where "msg_terminal_props = 0x0120"

definition msg_upgrade_result :: u16 where "msg_upgrade_result = 0x0121"

definition msg_acc_status_report :: u16 where "msg_acc_status_report = 0x0304"

definition msg_location_report :: u16 where "msg_location_report = 0x0200"

definition msg_batch_location :: u16 where "msg_batch_location = 0x0704"

definition msg_platform_resp :: u16 where "msg_platform_resp = 0x8001"

definition msg_registration_resp :: u16 where "msg_registration_resp = 0x8100"

lemmas msg_ids = msg_terminal_resp_def msg_heartbeat_def msg_registration_def
  msg_authentication_def msg_terminal_props_def msg_upgrade_result_def
  msg_acc_status_report_def msg_location_report_def msg_batch_location_def
  msg_platform_resp_def msg_registration_resp_def

section \<open>Result codes\<close>

definition reg_success :: u8 where "reg_success = 0x00"

definition reg_terminal_not_in_db :: u8 where "reg_terminal_not_in_db = 0x04"

definition result_ok :: u8 where "result_ok = 0x00"

definition result_fail :: u8 where "result_fail = 0x01"

definition result_msg_error :: u8 where "result_msg_error = 0x02"

definition result_unsupported :: u8 where "result_unsupported = 0x03"

lemmas result_codes = reg_success_def reg_terminal_not_in_db_def result_ok_def result_fail_def
  result_msg_error_def result_unsupported_def

section \<open>Flag bits\<close>

definition alarm_sos :: u32 where "alarm_sos = push_bit 0 1"

definition alarm_overspeed :: u32 where "alarm_overspeed = push_bit 1 1"

definition alarm_low_battery :: u32 where "alarm_low_battery = push_bit 7 1"

definition alarm_power_off :: u32 where "alarm_power_off = push_bit 12 1"

definition alarm_vibration :: u32 where "alarm_vibration = push_bit 16 1"

definition status_acc_on :: u32 where "status_acc_on = push_bit 0 1"

definition status_located :: u32 where "status_located = push_bit 1 1"

definition status_lat_south :: u32 where "status_lat_south = push_bit 2 1"

definition status_lon_west :: u32 where "status_lon_west = push_bit 3 1"

lemmas flag_bits = alarm_sos_def alarm_overspeed_def alarm_low_battery_def alarm_power_off_def
  alarm_vibration_def status_acc_on_def status_located_def status_lat_south_def
  status_lon_west_def

section \<open>Decoded bodies\<close>

text \<open>
  \<open>Extras\<close> is a Go map; it is kept as an association list with distinct keys, in the order of
  first insertion, because the forwarder both counts it and walks over it.
\<close>

type_synonym extras = "(u8 \<times> bytes) list"

record location_report =
  alarm_flags :: u32
  status_flags :: u32
  latitude :: f64
  longitude :: f64
  altitude :: u16
  speed :: f64
  direction :: u16
  timestamp :: string
  gps_fixed :: bool
  acc_on :: bool
  extras :: extras

definition has_alarm :: "location_report \<Rightarrow> u32 \<Rightarrow> bool" where
  "has_alarm l msk \<longleftrightarrow> alarm_flags l AND msk \<noteq> 0"

record registration_info =
  province_id :: u16
  city_id :: u16
  manuf_id :: string
  device_model :: string
  device_id :: string
  plate_color :: u8
  plate_number :: string

lemma and_single_bit: "w AND push_bit k (1 :: 'a::len word) \<noteq> 0 \<longleftrightarrow> bit w k"
  by (simp add: bit_iff_and_push_bit_not_eq_0)

lemma status_bits [simp]:
  "w AND status_acc_on \<noteq> 0 \<longleftrightarrow> bit w 0" "w AND status_located \<noteq> 0 \<longleftrightarrow> bit w 1"
  "w AND status_lat_south \<noteq> 0 \<longleftrightarrow> bit w 2" "w AND status_lon_west \<noteq> 0 \<longleftrightarrow> bit w 3"
  unfolding status_acc_on_def status_located_def status_lat_south_def status_lon_west_def
  by (rule and_single_bit)+

lemma alarm_bits [simp]:
  "w AND alarm_sos \<noteq> 0 \<longleftrightarrow> bit w 0" "w AND alarm_overspeed \<noteq> 0 \<longleftrightarrow> bit w 1"
  "w AND alarm_low_battery \<noteq> 0 \<longleftrightarrow> bit w 7" "w AND alarm_power_off \<noteq> 0 \<longleftrightarrow> bit w 12"
  "w AND alarm_vibration \<noteq> 0 \<longleftrightarrow> bit w 16"
  unfolding alarm_sos_def alarm_overspeed_def alarm_low_battery_def alarm_power_off_def
    alarm_vibration_def
  by (rule and_single_bit)+

end
