(* ===== verification/Session.thy ===== *)
theory Session
  imports Frame Types
begin

text \<open>
  One TCP connection's session, \<open>server/internal/session/session.go\<close>: its life-cycle state,
  its identity fields, the outgoing sequence counter, and the operations on it. The connection
  itself is reduced to whether it is open; what a write returns is a parameter.
\<close>

section \<open>Life-cycle states\<close>

datatype sess_state = Connected | Registered | Authenticated | Closing

text \<open>The \<open>iota\<close> values, whose order the authentication gate compares.\<close>

fun state_code :: "sess_state \<Rightarrow> nat" where
  "state_code Connected = 0"
| "state_code Registered = 1"
| "state_code Authenticated = 2"
| "state_code Closing = 3"

lemma state_code_inj: "state_code a = state_code b \<Longrightarrow> a = b"
  by (cases a; cases b) simp_all

instantiation sess_state :: linorder
begin

definition less_eq_sess_state :: "sess_state \<Rightarrow> sess_state \<Rightarrow> bool" where
  "less_eq_sess_state a b \<longleftrightarrow> state_code a \<le> state_code b"

definition less_sess_state :: "sess_state \<Rightarrow> sess_state \<Rightarrow> bool" where
  "less_sess_state a b \<longleftrightarrow> state_code a < state_code b"

instance
  by standard (auto simp: less_eq_sess_state_def less_sess_state_def state_code_inj)

end

section \<open>Sessions\<close>

record session =
  conn_open :: bool
  remote_addr :: string
  s_phone :: string
  s_imei :: string
  s_token :: string
  s_state :: sess_state
  out_seq :: u32
  connected_at :: int
  last_heartbeat :: int
  last_location :: int

definition new_session :: "string \<Rightarrow> int \<Rightarrow> session" where
  "new_session addr now =
     \<lparr>conn_open = True, remote_addr = addr, s_phone = [], s_imei = [], s_token = [],
      s_state = Connected, out_seq = 0, connected_at = now, last_heartbeat = now,
      last_location = 0\<rparr>"

definition set_state :: "sess_state \<Rightarrow> session \<Rightarrow> session" where
  "set_state st s = s\<lparr>s_state := st\<rparr>"

text \<open>
  \<open>Send\<close> takes the next sequence number, the low 16 bits of the incremented counter, and writes
  one frame under the session's phone. The bytes written are returned with the new session.
\<close>

definition next_seq :: "session \<Rightarrow> u16" where
  "next_seq s = ucast ((out_seq s + 1) AND 0xffff)"

definition send :: "u16 \<Rightarrow> bytes \<Rightarrow> session \<Rightarrow> session \<times> bytes" where
  "send msgID bdy s =
     (s\<lparr>out_seq := out_seq s + 1\<rparr>, encode_frame msgID (s_phone s) (next_seq s) bdy)"

definition ack :: "frame \<Rightarrow> u8 \<Rightarrow> session \<Rightarrow> session \<times> bytes" where
  "ack f result s = send msg_platform_resp (build_platform_ack (seq_num f) (msg_id f) result) s"

definition touch :: "int \<Rightarrow> session \<Rightarrow> session" where
  "touch now s = s\<lparr>last_heartbeat := now\<rparr>"

definition touch_location :: "int \<Rightarrow> session \<Rightarrow> session" where
  "touch_location now s = s\<lparr>last_location := now\<rparr>"

definition is_stale :: "int \<Rightarrow> int \<Rightarrow> session \<Rightarrow> bool" where
  "is_stale now ttl s \<longleftrightarrow> ttl < now - last_heartbeat s"

definition close_sess :: "session \<Rightarrow> session" where
  "close_sess s = s\<lparr>s_state := Closing, conn_open := False\<rparr>"

section \<open>Lemmas\<close>

lemma state_less_simps [simp]:
  "Connected < Authenticated" "Registered < Authenticated" "\<not> Authenticated < Authenticated"
  "\<not> Closing < Authenticated"
  by (simp_all add: less_sess_state_def)

lemma state_below_authenticated:
  "st < Authenticated \<longleftrightarrow> st = Connected \<or> st = Registered"
  by (cases st) simp_all

lemma next_seq_nat: "unat (next_seq s) = (unat (out_seq s) + 1) mod 65536"
proof -
  have "(out_seq s + 1) AND 0xffff = take_bit 16 (out_seq s + 1)"
    by (simp add: take_bit_eq_mask mask_eq_exp_minus_1)
  then have "unat (next_seq s) = take_bit 16 (take_bit 16 (unat (out_seq s + 1)))"
    by (simp add: next_seq_def unsigned_ucast_eq unsigned_take_bit_eq)
  then have "unat (next_seq s) = unat (out_seq s + 1) mod 2 ^ 16"
    by (simp add: take_bit_eq_mod)
  also have "\<dots> = (unat (out_seq s) + 1) mod 2 ^ 32 mod 2 ^ 16"
    by (simp add: unat_word_ariths)
  also have "\<dots> = (unat (out_seq s) + 1) mod 2 ^ 16"
    by (simp add: mod_mod_cancel)
  finally show ?thesis by simp
qed

lemma send_fields [simp]:
  "s_phone (fst (send i b s)) = s_phone s" "s_state (fst (send i b s)) = s_state s"
  "s_imei (fst (send i b s)) = s_imei s" "conn_open (fst (send i b s)) = conn_open s"
  "s_token (fst (send i b s)) = s_token s" "out_seq (fst (send i b s)) = out_seq s + 1"
  "last_heartbeat (fst (send i b s)) = last_heartbeat s"
  "last_location (fst (send i b s)) = last_location s"
  by (simp_all add: send_def)

end
