(* ===== verification/Config.thy ===== *)
theory Config
  imports Prelude
begin

text \<open>The runtime configuration, \<open>server/internal/config/config.go\<close>. Durations are in
  nanoseconds, as \<open>time.Duration\<close> is.\<close>

record config =
  tcp_addr :: string
  redis_addr :: string
  redis_password :: string
  redis_db :: int
  redis_pool_size :: int
  stream_key :: string
  stream_max_len :: int
  session_prefix :: string
  auth_token_prefix :: string
  online_z_key :: string
  cmd_channel :: string
  auth_timeout :: int
  heartbeat_timeout :: int
  write_timeout :: int
  db_enabled :: bool
  db_host :: string
  db_port :: string
  db_user :: string
  db_password :: string
  db_name :: string
  db_device_type_id :: int
  db_devices_table :: string
  db_imei_column :: string
  db_broadcast_column :: string
  db_status_column :: string
  db_type_id_column :: string
  db_name_column :: string
  db_notes_column :: string
  db_created_at_column :: string
  db_updated_at_column :: string
  http_addr :: string
  debug :: bool
  server_id :: string

end
