(* ===== verification/World.thy ===== *)
theory World
  imports Session Config "HOL-Library.AList"
begin

text \<open>
  The shared state of one server process: the sessions, the registry's map of phones to
  sessions, the Prometheus counters (\<open>server/internal/metrics/metrics.go\<close>), the goroutines and
  timers that have been started and not yet run, and the log of what the process did to the
  outside world (socket writes and closes, Redis commands, SQL statements). What the outside
  world answers is the parameter \<open>env\<close> of every operation that asks it something.
\<close>

section \<open>Metrics\<close>

text \<open>A counter is the number of its \<open>Inc\<close> calls, the gauge its \<open>Inc\<close> minus its \<open>Dec\<close> calls.\<close>

record metrics =
  connections_active :: int
  connections_total :: nat
  frames_received :: "string \<Rightarrow> nat"
  auth_successes :: nat
  auth_violations :: nat
  heartbeats :: nat
  location_reports :: nat
  sos_alarms :: nat
  decode_errors :: nat
  unknown_messages :: nat

definition new_metrics :: metrics where
  "new_metrics = \<lparr>connections_active = 0, connections_total = 0, frames_received = (\<lambda>_. 0),
     auth_successes = 0, auth_violations = 0, heartbeats = 0, location_reports = 0,
     sos_alarms = 0, decode_errors = 0, unknown_messages = 0\<rparr>"

definition count_frame :: "string \<Rightarrow> metrics \<Rightarrow> metrics" where
  "count_frame label m = m\<lparr>frames_received := (frames_received m)(label := Suc (frames_received m label))\<rparr>"

definition count_auth_success :: "metrics \<Rightarrow> metrics" where
  "count_auth_success m = m\<lparr>auth_successes := Suc (auth_successes m)\<rparr>"

definition count_auth_violation :: "metrics \<Rightarrow> metrics" where
  "count_auth_violation m = m\<lparr>auth_violations := Suc (auth_violations m)\<rparr>"

definition count_heartbeat :: "metrics \<Rightarrow> metrics" where
  "count_heartbeat m = m\<lparr>heartbeats := Suc (heartbeats m)\<rparr>"

definition count_location :: "metrics \<Rightarrow> metrics" where
  "count_location m = m\<lparr>location_reports := Suc (location_reports m)\<rparr>"

definition count_sos :: "metrics \<Rightarrow> metrics" where
  "count_sos m = m\<lparr>sos_alarms := Suc (sos_alarms m)\<rparr>"

definition count_decode_error :: "metrics \<Rightarrow> metrics" where
  "count_decode_error m = m\<lparr>decode_errors := Suc (decode_errors m)\<rparr>"

definition count_unknown :: "metrics \<Rightarrow> metrics" where
  "count_unknown m = m\<lparr>unknown_messages := Suc (unknown_messages m)\<rparr>"

definition conn_opened :: "metrics \<Rightarrow> metrics" where
  "conn_opened m = m\<lparr>connections_total := Suc (connections_total m),
     connections_active := connections_active m + 1\<rparr>"

definition conn_ended :: "metrics \<Rightarrow> metrics" where
  "conn_ended m = m\<lparr>connections_active := connections_active m - 1\<rparr>"

section \<open>Commands to Redis and MySQL\<close>

datatype rvalue = RStr string | RInt int | RFloat f64

datatype redis_cmd =
    HSet string "(string \<times> rvalue) list"
  | Expire string int
  | ZAdd string f64 string
  | Del string
  | ZRem string string
  | SetEx string string int
  | GetKey string
  | ZRemRangeByScore string f64
  | XAdd string int "(string \<times> rvalue) list"

datatype sql_arg = SqlStr string | SqlInt int

text \<open>Replies: of Redis \<open>GET\<close>, and of the one-row \<open>SELECT\<close>.\<close>

datatype redis_reply = RedisNil | RedisErr | RedisVal string

datatype select_reply = Row string | NoRows | DbErr

section \<open>Goroutines, events, world\<close>

text \<open>
  What \<open>go\<close> and \<open>time.AfterFunc\<close> start. A goroutine of the registry holds the session and reads
  its phone when it runs; the arguments of \<open>PublishEvent\<close> and \<open>PublishLocation\<close> are evaluated
  when it is started.
\<close>

datatype payload_value = PStr string | PNum nat

datatype task =
    RunConn string
  | RegisterPipe nat
  | UnregisterPipe nat
  | HeartbeatPipe nat
  | PublishEvent string string "(string \<times> payload_value) list"
  | PublishLocation string location_report
  | CloseAfter int nat
  | AuthTimer nat

datatype event =
    ConnWrite nat bytes int bool
  | ConnClose nat
  | Redis "redis_cmd list"
  | SqlQuery string "sql_arg list"
  | SqlExec string "sql_arg list"

record world =
  sessions :: "nat \<Rightarrow> session"
  next_sid :: nat
  running :: "nat list"
  rx :: "nat \<Rightarrow> bytes"
  registry :: "(string \<times> nat) list"
  metrics :: metrics
  tasks :: "task list"
  events :: "event list"

text \<open>
  The answers of the outside world during one step: the clock (Unix nanoseconds, and the two
  texts the code formats it into), whether a write of these bytes fails, and the replies of Redis
  and of the database.
\<close>

record env =
  now_nano :: int
  now_rfc3339 :: string
  now_sql :: string
  write_fails :: "bytes \<Rightarrow> bool"
  redis_get :: "string \<Rightarrow> redis_reply"
  redis_set_fails :: "string \<Rightarrow> string \<Rightarrow> bool"
  db_select :: "string \<Rightarrow> string \<Rightarrow> select_reply"
  db_exec_fails :: "string \<Rightarrow> sql_arg list \<Rightarrow> bool"

definition now_unix :: "env \<Rightarrow> int" where
  "now_unix e = now_nano e div 1000000000"

definition second :: int where
  "second = 1000000000"

definition millisecond :: int where
  "millisecond = 1000000"

definition empty_world :: world where
  "empty_world = \<lparr>sessions = (\<lambda>_. new_session [] 0), next_sid = 0, running = [], rx = (\<lambda>_. []),
     registry = [], metrics = new_metrics, tasks = [], events = []\<rparr>"

section \<open>Elementary steps\<close>

definition upd_session :: "nat \<Rightarrow> (session \<Rightarrow> session) \<Rightarrow> world \<Rightarrow> world" where
  "upd_session sid g w = w\<lparr>sessions := (sessions w)(sid := g (sessions w sid))\<rparr>"

definition emit :: "event \<Rightarrow> world \<Rightarrow> world" where
  "emit ev w = w\<lparr>events := events w @ [ev]\<rparr>"

definition spawn :: "task \<Rightarrow> world \<Rightarrow> world" where
  "spawn t w = w\<lparr>tasks := tasks w @ [t]\<rparr>"

definition count :: "(metrics \<Rightarrow> metrics) \<Rightarrow> world \<Rightarrow> world" where
  "count g w = w\<lparr>metrics := g (metrics w)\<rparr>"

text \<open>\<open>Session.Send\<close>, \<open>Session.ACK\<close> and \<open>Session.Close\<close> on the session in the world; the flag
  returned is whether the write failed.\<close>

text \<open>
  Whether a write fails is left to the outside also after \<open>Close\<close>, where in Go it always fails: the
  model has those behaviours and more.
\<close>

definition do_send :: "env \<Rightarrow> nat \<Rightarrow> u16 \<Rightarrow> bytes \<Rightarrow> int \<Rightarrow> world \<Rightarrow> world \<times> bool" where
  "do_send e sid msgID bdy deadline w =
     (let (s', out) = send msgID bdy (sessions w sid);
          err = write_fails e out
      in (emit (ConnWrite sid out deadline err) (upd_session sid (\<lambda>_. s') w), err))"

definition do_ack :: "env \<Rightarrow> nat \<Rightarrow> frame \<Rightarrow> u8 \<Rightarrow> int \<Rightarrow> world \<Rightarrow> world \<times> bool" where
  "do_ack e sid f result deadline w =
     (let (s', out) = ack f result (sessions w sid);
          err = write_fails e out
      in (emit (ConnWrite sid out deadline err) (upd_session sid (\<lambda>_. s') w), err))"

definition do_close :: "nat \<Rightarrow> world \<Rightarrow> world" where
  "do_close sid w = emit (ConnClose sid) (upd_session sid close_sess w)"

section \<open>Lemmas: what each elementary step leaves alone\<close>

lemma do_ack_send:
  "do_ack e sid f result d w = do_send e sid msg_platform_resp
     (build_platform_ack (seq_num f) (msg_id f) result) d w"
  by (simp add: do_ack_def do_send_def ack_def)

lemma upd_session_fields [simp]:
  "sessions (upd_session sid g w) = (sessions w)(sid := g (sessions w sid))"
  "next_sid (upd_session sid g w) = next_sid w" "running (upd_session sid g w) = running w"
  "rx (upd_session sid g w) = rx w" "registry (upd_session sid g w) = registry w"
  "metrics (upd_session sid g w) = metrics w" "tasks (upd_session sid g w) = tasks w"
  "events (upd_session sid g w) = events w"
  by (simp_all add: upd_session_def)

lemma emit_fields [simp]:
  "sessions (emit ev w) = sessions w" "next_sid (emit ev w) = next_sid w"
  "running (emit ev w) = running w" "rx (emit ev w) = rx w" "registry (emit ev w) = registry w"
  "metrics (emit ev w) = metrics w" "tasks (emit ev w) = tasks w"
  "events (emit ev w) = events w @ [ev]"
  by (simp_all add: emit_def)

lemma spawn_fields [simp]:
  "sessions (spawn t w) = sessions w" "next_sid (spawn t w) = next_sid w"
  "running (spawn t w) = running w" "rx (spawn t w) = rx w" "registry (spawn t w) = registry w"
  "metrics (spawn t w) = metrics w" "tasks (spawn t w) = tasks w @ [t]"
  "events (spawn t w) = events w"
  by (simp_all add: spawn_def)

lemma count_fields [simp]:
  "sessions (count g w) = sessions w" "next_sid (count g w) = next_sid w"
  "running (count g w) = running w" "rx (count g w) = rx w" "registry (count g w) = registry w"
  "metrics (count g w) = g (metrics w)" "tasks (count g w) = tasks w"
  "events (count g w) = events w"
  by (simp_all add: count_def)

text \<open>The frame a send writes.\<close>

definition sent_bytes :: "nat \<Rightarrow> u16 \<Rightarrow> bytes \<Rightarrow> world \<Rightarrow> bytes" where
  "sent_bytes sid msgID bdy w =
     encode_frame msgID (s_phone (sessions w sid)) (next_seq (sessions w sid)) bdy"

lemma do_send_fields [simp]:
  "sessions (fst (do_send e sid i b d w)) =
     (sessions w)(sid := (sessions w sid)\<lparr>out_seq := out_seq (sessions w sid) + 1\<rparr>)"
  "next_sid (fst (do_send e sid i b d w)) = next_sid w"
  "running (fst (do_send e sid i b d w)) = running w"
  "rx (fst (do_send e sid i b d w)) = rx w"
  "registry (fst (do_send e sid i b d w)) = registry w"
  "metrics (fst (do_send e sid i b d w)) = metrics w"
  "tasks (fst (do_send e sid i b d w)) = tasks w"
  "events (fst (do_send e sid i b d w)) =
     events w @ [ConnWrite sid (sent_bytes sid i b w) d (write_fails e (sent_bytes sid i b w))]"
  "snd (do_send e sid i b d w) = write_fails e (sent_bytes sid i b w)"
  by (simp_all add: do_send_def send_def sent_bytes_def Let_def)

lemma do_close_fields [simp]:
  "sessions (do_close sid w) = (sessions w)(sid := close_sess (sessions w sid))"
  "next_sid (do_close sid w) = next_sid w" "running (do_close sid w) = running w"
  "rx (do_close sid w) = rx w" "registry (do_close sid w) = registry w"
  "metrics (do_close sid w) = metrics w" "tasks (do_close sid w) = tasks w"
  "events (do_close sid w) = events w @ [ConnClose sid]"
  by (simp_all add: do_close_def)

lemma close_sess_fields [simp]:
  "s_state (close_sess s) = Closing" "s_phone (close_sess s) = s_phone s"
  "s_imei (close_sess s) = s_imei s" "s_token (close_sess s) = s_token s"
  "\<not> conn_open (close_sess s)" "out_seq (close_sess s) = out_seq s"
  by (simp_all add: close_sess_def)

lemma set_state_fields [simp]:
  "s_state (set_state st s) = st" "s_phone (set_state st s) = s_phone s"
  "s_imei (set_state st s) = s_imei s" "s_token (set_state st s) = s_token s"
  "conn_open (set_state st s) = conn_open s" "out_seq (set_state st s) = out_seq s"
  by (simp_all add: set_state_def)

lemma touch_fields [simp]:
  "s_state (touch n s) = s_state s" "s_phone (touch n s) = s_phone s"
  "s_imei (touch n s) = s_imei s" "out_seq (touch n s) = out_seq s"
  "conn_open (touch n s) = conn_open s"
  "s_state (touch_location n s) = s_state s" "s_phone (touch_location n s) = s_phone s"
  "s_imei (touch_location n s) = s_imei s" "out_seq (touch_location n s) = out_seq s"
  "conn_open (touch_location n s) = conn_open s"
  by (simp_all add: touch_def touch_location_def)

end
