(* ===== verification/Registry.thy ===== *)
theory Registry
  imports World
begin

text \<open>
  The session registry, \<open>server/internal/session/registry.go\<close>: the map from phone to session
  under its mutex, each method's critical section as one step, and the Redis pipelines its
  goroutines send.
\<close>

section \<open>The local map\<close>

text \<open>\<open>map[string]*Session\<close> as an association list with distinct keys.\<close>

definition table_get :: "string \<Rightarrow> (string \<times> nat) list \<Rightarrow> nat option" where
  "table_get p t = map_of t p"

definition table_put :: "string \<Rightarrow> nat \<Rightarrow> (string \<times> nat) list \<Rightarrow> (string \<times> nat) list" where
  "table_put p sid t = AList.update p sid t"

definition table_del :: "string \<Rightarrow> (string \<times> nat) list \<Rightarrow> (string \<times> nat) list" where
  "table_del p t = AList.delete p t"

section \<open>Registry methods\<close>

definition reg_get :: "string \<Rightarrow> world \<Rightarrow> nat option" where
  "reg_get p w = table_get p (registry w)"

definition reg_count :: "world \<Rightarrow> nat" where
  "reg_count w = length (registry w)"

definition reg_register :: "nat \<Rightarrow> world \<Rightarrow> world" where
  "reg_register sid w =
     (let p = s_phone (sessions w sid);
          w = (case table_get p (registry w) of
                 Some old \<Rightarrow> if old \<noteq> sid
                   then (let w = do_close old w in w\<lparr>registry := table_del p (registry w)\<rparr>)
                   else w
               | None \<Rightarrow> w);
          w = w\<lparr>registry := table_put p sid (registry w)\<rparr>
      in spawn (RegisterPipe sid) w)"

definition reg_unregister :: "nat \<Rightarrow> world \<Rightarrow> world" where
  "reg_unregister sid w =
     (let p = s_phone (sessions w sid)
      in if p = [] then w
         else (let w = (if table_get p (registry w) = Some sid
                  then w\<lparr>registry := table_del p (registry w)\<rparr> else w)
               in spawn (UnregisterPipe sid) w))"

definition reg_heartbeat :: "env \<Rightarrow> nat \<Rightarrow> world \<Rightarrow> world" where
  "reg_heartbeat e sid w = spawn (HeartbeatPipe sid) (upd_session sid (touch (now_nano e)) w)"

definition auth_key :: "config \<Rightarrow> string \<Rightarrow> string" where
  "auth_key cfg p = auth_token_prefix cfg @ p"

text \<open>Returns whether storing failed.\<close>

definition store_auth_token :: "env \<Rightarrow> config \<Rightarrow> string \<Rightarrow> string \<Rightarrow> world \<Rightarrow> world \<times> bool" where
  "store_auth_token e cfg p token w =
     (emit (Redis [SetEx (auth_key cfg p) token (24 * 3600 * second)]) w,
      redis_set_fails e (auth_key cfg p) token)"

text \<open>\<open>None\<close> is the error return; \<open>redis.Nil\<close> is an invalid token, not an error.\<close>

definition validate_auth_token :: "env \<Rightarrow> config \<Rightarrow> string \<Rightarrow> string \<Rightarrow> world \<Rightarrow> world \<times> bool option" where
  "validate_auth_token e cfg p token w =
     (emit (Redis [GetKey (auth_key cfg p)]) w,
      (case redis_get e (auth_key cfg p) of
         RedisNil \<Rightarrow> Some False
       | RedisErr \<Rightarrow> None
       | RedisVal stored \<Rightarrow> Some (stored = token)))"

text \<open>\<open>ForEachLocal\<close> calls its argument on a snapshot of the map's sessions.\<close>

definition for_each_local :: "(nat \<Rightarrow> world \<Rightarrow> world) \<Rightarrow> world \<Rightarrow> world" where
  "for_each_local g w = fold g (map snd (registry w)) w"

section \<open>The pipelines of the goroutines\<close>

definition register_pipe :: "env \<Rightarrow> config \<Rightarrow> session \<Rightarrow> redis_cmd list" where
  "register_pipe e cfg s =
     (let key = session_prefix cfg @ s_phone s
      in [HSet key [(''phone'', RStr (s_phone s)), (''imei'', RStr (s_imei s)),
            (''connected_at'', RInt (now_unix e)), (''last_heartbeat'', RInt (now_unix e))],
          Expire key (24 * 3600 * second),
          ZAdd (online_z_key cfg) (f64_of_int (now_nano e)) (s_phone s)])"

definition unregister_pipe :: "config \<Rightarrow> session \<Rightarrow> redis_cmd list" where
  "unregister_pipe cfg s =
     [Del (session_prefix cfg @ s_phone s), ZRem (online_z_key cfg) (s_phone s)]"

definition heartbeat_pipe :: "env \<Rightarrow> config \<Rightarrow> session \<Rightarrow> redis_cmd list" where
  "heartbeat_pipe e cfg s =
     (let key = session_prefix cfg @ s_phone s
      in [HSet key [(''last_heartbeat'', RInt (now_unix e))],
          Expire key (24 * 3600 * second),
          ZAdd (online_z_key cfg) (f64_of_int (now_nano e)) (s_phone s)])"

definition prune_stale :: "env \<Rightarrow> config \<Rightarrow> int \<Rightarrow> world \<Rightarrow> world" where
  "prune_stale e cfg ttl w =
     emit (Redis [ZRemRangeByScore (online_z_key cfg) (f64_of_int (now_nano e - ttl))]) w"

section \<open>The interface of the map\<close>

text \<open>What the registry's methods rely on, over an abstract table.\<close>

locale phone_table =
  fixes get :: "string \<Rightarrow> 't \<Rightarrow> nat option"
    and put :: "string \<Rightarrow> nat \<Rightarrow> 't \<Rightarrow> 't"
    and del :: "string \<Rightarrow> 't \<Rightarrow> 't"
    and size_of :: "'t \<Rightarrow> nat"
    and ok :: "'t \<Rightarrow> bool"
  assumes get_put: "get p (put q sid t) = (if p = q then Some sid else get p t)"
    and get_del: "get p (del q t) = (if p = q then None else get p t)"
    and ok_put: "ok t \<Longrightarrow> ok (put q sid t)"
    and ok_del: "ok t \<Longrightarrow> ok (del q t)"
    and size_card: "ok t \<Longrightarrow> size_of t = card {p. get p t \<noteq> None}"
    and get_finite: "finite {p. get p t \<noteq> None}"
begin

lemma get_put_same: "get p (put p sid t) = Some sid"
  by (simp add: get_put)

lemma put_del_put: "get q (put p sid (del p t)) = get q (put p sid t)"
  by (simp add: get_put get_del)

lemma size_put:
  assumes "ok t"
  shows "size_of (put p sid t) = (if get p t = None then Suc (size_of t) else size_of t)"
proof -
  have "{q. get q (put p sid t) \<noteq> None} = insert p {q. get q t \<noteq> None}"
    by (auto simp: get_put)
  then have "size_of (put p sid t) = card (insert p {q. get q t \<noteq> None})"
    using size_card [OF ok_put [OF assms]] by simp
  with get_finite [of t] size_card [OF assms] show ?thesis by (auto simp: card_insert_if)
qed

lemma size_del:
  assumes "ok t" and "get p t \<noteq> None"
  shows "Suc (size_of (del p t)) = size_of t"
proof -
  have "{q. get q (del p t) \<noteq> None} = {q. get q t \<noteq> None} - {p}"
    by (auto simp: get_del)
  then have "size_of (del p t) = card ({q. get q t \<noteq> None} - {p})"
    using size_card [OF ok_del [OF assms(1)]] by simp
  moreover have "p \<in> {q. get q t \<noteq> None}" using assms(2) by simp
  ultimately show ?thesis
    using card_Suc_Diff1 [OF get_finite [of t]] size_card [OF assms(1)] by simp
qed

end

interpretation table: phone_table table_get table_put table_del length "\<lambda>t. distinct (map fst t)"
proof unfold_locales
  fix p q sid and t :: "(string \<times> nat) list"
  show "table_get p (table_put q sid t) = (if p = q then Some sid else table_get p t)"
    by (simp add: table_get_def table_put_def update_conv')
  show "table_get p (table_del q t) = (if p = q then None else table_get p t)"
    by (simp add: table_get_def table_del_def delete_conv')
  show "finite {p. table_get p t \<noteq> None}"
    using finite_dom_map_of [of t] by (simp add: table_get_def dom_def)
next
  fix q sid and t :: "(string \<times> nat) list"
  assume ok: "distinct (map fst t)"
  then show "distinct (map fst (table_put q sid t))"
    by (simp add: table_put_def distinct_update)
  from ok show "distinct (map fst (table_del q t))"
    by (simp add: table_del_def distinct_delete)
  have "{p. table_get p t \<noteq> None} = fst ` set t"
    using dom_map_of_conv_image_fst [of t] by (simp add: table_get_def dom_def)
  with ok show "length t = card {p. table_get p t \<noteq> None}"
    by (metis distinct_card length_map list.set_map)
qed

section \<open>Lemmas: the methods\<close>

lemmas registry_defs = reg_get_def reg_register_def reg_unregister_def reg_heartbeat_def
  store_auth_token_def validate_auth_token_def

lemma reg_register_get:
  "reg_get p (reg_register sid w) = (if p = s_phone (sessions w sid) then Some sid else reg_get p w)"
  by (simp add: registry_defs Let_def table.get_put table.get_del split: option.split)

lemma reg_register_sessions:
  "sessions (reg_register sid w) =
     (case reg_get (s_phone (sessions w sid)) w of
        Some old \<Rightarrow> if old \<noteq> sid then (sessions w)(old := close_sess (sessions w old)) else sessions w
      | None \<Rightarrow> sessions w)"
  by (simp add: registry_defs Let_def split: option.split)

lemma reg_register_fields [simp]:
  "tasks (reg_register sid w) = tasks w @ [RegisterPipe sid]"
  "metrics (reg_register sid w) = metrics w" "running (reg_register sid w) = running w"
  "rx (reg_register sid w) = rx w" "next_sid (reg_register sid w) = next_sid w"
  by (simp_all add: registry_defs Let_def split: option.split)

lemma reg_register_distinct:
  "distinct (map fst (registry w)) \<Longrightarrow> distinct (map fst (registry (reg_register sid w)))"
  by (simp add: registry_defs Let_def table.ok_put table.ok_del split: option.split)

lemma reg_register_events:
  "events (reg_register sid w) =
     (case reg_get (s_phone (sessions w sid)) w of
        Some old \<Rightarrow> if old \<noteq> sid then events w @ [ConnClose old] else events w
      | None \<Rightarrow> events w)"
  by (simp add: registry_defs Let_def split: option.split)

lemma reg_unregister_get:
  "reg_get p (reg_unregister sid w) =
     (if p = s_phone (sessions w sid) \<and> p \<noteq> [] \<and> reg_get p w = Some sid then None else reg_get p w)"
  by (auto simp: registry_defs Let_def table.get_del)

lemma reg_unregister_fields [simp]:
  "sessions (reg_unregister sid w) = sessions w" "events (reg_unregister sid w) = events w"
  "metrics (reg_unregister sid w) = metrics w" "running (reg_unregister sid w) = running w"
  "rx (reg_unregister sid w) = rx w" "next_sid (reg_unregister sid w) = next_sid w"
  "tasks (reg_unregister sid w) =
     tasks w @ (if s_phone (sessions w sid) = [] then [] else [UnregisterPipe sid])"
  by (simp_all add: registry_defs Let_def)

lemma reg_unregister_distinct:
  "distinct (map fst (registry w)) \<Longrightarrow> distinct (map fst (registry (reg_unregister sid w)))"
  by (simp add: registry_defs Let_def table.ok_del)

lemma reg_heartbeat_fields [simp]:
  "sessions (reg_heartbeat e sid w) = (sessions w)(sid := touch (now_nano e) (sessions w sid))"
  "events (reg_heartbeat e sid w) = events w" "metrics (reg_heartbeat e sid w) = metrics w"
  "running (reg_heartbeat e sid w) = running w" "rx (reg_heartbeat e sid w) = rx w"
  "next_sid (reg_heartbeat e sid w) = next_sid w" "registry (reg_heartbeat e sid w) = registry w"
  "tasks (reg_heartbeat e sid w) = tasks w @ [HeartbeatPipe sid]"
  by (simp_all add: registry_defs)

end
