(* ===== verification/Store.thy ===== *)
theory Store
  imports World
begin

text \<open>
  The device approval store, \<open>server/internal/store/device.go\<close>. The store is \<open>None\<close> when the
  database is disabled (the nil receiver); otherwise it carries the configuration whose table and
  column names it writes into its statements. The database's answers come from \<open>env\<close>.
\<close>

section \<open>Definitions\<close>

datatype check_result = CheckApproved | CheckBlocked | CheckAutoCreated

datatype store_error = LookupFailed string | CreateFailed string

type_synonym device_store = "config option"

definition nl :: string where "nl = [CHR 0x0A]"

definition tab2 :: string where "tab2 = [CHR 0x09, CHR 0x09]"

definition tab3 :: string where "tab3 = [CHR 0x09, CHR 0x09, CHR 0x09]"

definition quoted :: "string \<Rightarrow> string" where
  "quoted s = [CHR 0x27] @ s @ [CHR 0x27]"

definition select_status_sql :: "config \<Rightarrow> string" where
  "select_status_sql cfg = ''SELECT '' @ db_status_column cfg @ '' FROM '' @ db_devices_table cfg @
     '' WHERE '' @ db_broadcast_column cfg @ '' = ? LIMIT 1''"

definition insert_device_sql :: "config \<Rightarrow> string" where
  "insert_device_sql cfg =
     nl @ tab2 @ ''INSERT INTO '' @ db_devices_table cfg @ nl @
     tab3 @ ''('' @ db_type_id_column cfg @ '', '' @ db_broadcast_column cfg @ '', '' @
       db_name_column cfg @ '', '' @ db_status_column cfg @ '', '' @ db_notes_column cfg @ '', '' @
       db_created_at_column cfg @ '', '' @ db_updated_at_column cfg @ '')'' @ nl @
     tab2 @ ''VALUES'' @ nl @
     tab3 @ ''(?, ?, ?, '' @ quoted ''pending'' @ '', ?, ?, ?)'' @ nl @ [CHR 0x09]"

definition heartbeat_sql :: "config \<Rightarrow> string" where
  "heartbeat_sql cfg =
     nl @ tab2 @ ''UPDATE '' @ db_devices_table cfg @ nl @
     tab2 @ ''SET heartbeat_interval_s = CASE WHEN last_heartbeat_at IS NULL THEN heartbeat_interval_s'' @ nl @
     tab2 @ replicate 32 CHR 0x20 @
       ''ELSE TIMESTAMPDIFF(SECOND, last_heartbeat_at, UTC_TIMESTAMP()) END,'' @ nl @
     tab2 @ ''    last_heartbeat_at = UTC_TIMESTAMP()'' @ nl @
     tab2 @ ''WHERE '' @ db_broadcast_column cfg @ '' = ?'' @ nl @ [CHR 0x09]"

definition device_notes :: "string \<Rightarrow> string \<Rightarrow> string" where
  "device_notes model devID =
     ''Auto-registered via JT808. Model: '' @ model @ ''  DeviceID: '' @ devID"

definition check_or_create ::
    "env \<Rightarrow> device_store \<Rightarrow> string \<Rightarrow> string \<Rightarrow> string \<Rightarrow> world \<Rightarrow>
       (check_result \<times> store_error option) \<times> world" where
  "check_or_create e st bid model devID w =
     (case st of
        None \<Rightarrow> ((CheckApproved, None), w)
      | Some cfg \<Rightarrow>
          (let w = emit (SqlQuery (select_status_sql cfg) [SqlStr bid]) w
           in case db_select e (select_status_sql cfg) bid of
                Row status \<Rightarrow>
                  ((if status = ''blocked'' then CheckBlocked else CheckApproved, None), w)
              | DbErr \<Rightarrow> ((CheckBlocked, Some (LookupFailed bid)), w)
              | NoRows \<Rightarrow>
                  (let name = (if devID = [] then bid else devID);
                       args = [SqlInt (db_device_type_id cfg), SqlStr bid, SqlStr name,
                         SqlStr (device_notes model devID), SqlStr (now_sql e), SqlStr (now_sql e)];
                       w = emit (SqlExec (insert_device_sql cfg) args) w
                   in if db_exec_fails e (insert_device_sql cfg) args
                      then ((CheckBlocked, Some (CreateFailed bid)), w)
                      else ((CheckAutoCreated, None), w))))"

text \<open>A failed update is only logged.\<close>

definition record_heartbeat :: "device_store \<Rightarrow> string \<Rightarrow> world \<Rightarrow> world" where
  "record_heartbeat st bid w =
     (case st of
        None \<Rightarrow> w
      | Some cfg \<Rightarrow> emit (SqlExec (heartbeat_sql cfg) [SqlStr bid]) w)"

section \<open>The interface the registration handler relies on\<close>

text \<open>
  An approval check answers with a verdict and possibly an error, touches nothing of the world
  but the log, and never pairs an error with a permission.
\<close>

locale approval =
  fixes check :: "env \<Rightarrow> string \<Rightarrow> string \<Rightarrow> string \<Rightarrow> world \<Rightarrow> (check_result \<times> store_error option) \<times> world"
  assumes error_blocks: "check e bid m d w = ((res, Some err), w') \<Longrightarrow> res = CheckBlocked"
    and only_logs: "check e bid m d w = (r, w') \<Longrightarrow> \<exists>evs. w' = w\<lparr>events := events w @ evs\<rparr>"
begin

lemma fields_kept:
  assumes "check e bid m d w = (r, w')"
  shows "sessions w' = sessions w" "next_sid w' = next_sid w" "running w' = running w"
    "rx w' = rx w" "registry w' = registry w" "metrics w' = metrics w" "tasks w' = tasks w"
  using only_logs [OF assms] by auto

lemma allowed_no_error:
  "check e bid m d w = ((res, err), w') \<Longrightarrow> res \<noteq> CheckBlocked \<Longrightarrow> err = None"
  using error_blocks by (cases err) auto

end

lemma check_or_create_blocks:
  "check_or_create e st bid m d w = ((res, Some err), w') \<Longrightarrow> res = CheckBlocked"
  by (auto simp: check_or_create_def Let_def split: option.splits select_reply.splits if_splits)

lemma check_or_create_logs:
  "check_or_create e st bid m d w = (res, w') \<Longrightarrow> \<exists>evs. w' = w\<lparr>events := events w @ evs\<rparr>"
  by (auto simp: check_or_create_def emit_def Let_def intro: exI [of _ "[]"]
      split: option.splits select_reply.splits if_splits)

interpretation store: approval "\<lambda>e. check_or_create e st" for st
  by unfold_locales (blast intro: check_or_create_blocks check_or_create_logs)+

text \<open>Emitting an event is appending to the log; used to read off what a check logged.\<close>

lemma record_heartbeat_fields [simp]:
  "sessions (record_heartbeat st bid w) = sessions w" "tasks (record_heartbeat st bid w) = tasks w"
  "metrics (record_heartbeat st bid w) = metrics w" "registry (record_heartbeat st bid w) = registry w"
  "running (record_heartbeat st bid w) = running w" "rx (record_heartbeat st bid w) = rx w"
  "next_sid (record_heartbeat st bid w) = next_sid w"
  "events (record_heartbeat st bid w) = events w @
     (case st of None \<Rightarrow> [] | Some cfg \<Rightarrow> [SqlExec (heartbeat_sql cfg) [SqlStr bid]])"
  by (simp_all add: record_heartbeat_def split: option.split)

end
