(* ===== verification/Forwarder.thy ===== *)
theory Forwarder
  imports World "HOL-Library.List_Lexorder" "HOL-Library.Char_ord"
begin

text \<open>
  The Redis stream publisher, \<open>server/internal/forwarder/stream.go\<close>: the fields of a location
  entry, the battery and signal readings taken from the TLV extras, the alarm names, and the JSON
  texts. \<open>encoding/json\<close> is modelled for what is marshalled here: strings, string arrays and
  flat objects of strings and 16-bit numbers.
\<close>

section \<open>JSON\<close>

definition hex_lower :: "nat \<Rightarrow> char" where
  "hex_lower n = (if n < 10 then char_of (48 + n) else char_of (87 + n))"

definition dquote :: char where "dquote = CHR 0x22"

definition backslash :: char where "backslash = CHR 0x5C"

text \<open>
  One ASCII byte as the encoder writes it inside a string (HTML-escaping on): quote and backslash
  escaped, the named control characters, and \<open>\u00xx\<close> for the others and for \<open><\<close>, \<open>>\<close>, \<open>&\<close>.
\<close>

definition json_ascii :: "u8 \<Rightarrow> string" where
  "json_ascii b =
     (if b = 0x22 then [backslash, dquote]
      else if b = 0x5C then [backslash, backslash]
      else if b = 0x08 then [backslash, CHR ''b'']
      else if b = 0x0C then [backslash, CHR ''f'']
      else if b = 0x0A then [backslash, CHR ''n'']
      else if b = 0x0D then [backslash, CHR ''r'']
      else if b = 0x09 then [backslash, CHR ''t'']
      else if b < 0x20 \<or> b = 0x3C \<or> b = 0x3E \<or> b = 0x26 then
        [backslash] @ ''u00'' @ [hex_lower (unat b div 16), hex_lower (unat b mod 16)]
      else [char_of_byte b])"

text \<open>
  Beyond ASCII: invalid UTF-8 becomes \<open>\ufffd\<close>, U+2028 and U+2029 are escaped, every other rune
  is copied.
\<close>

function json_chars :: "bytes \<Rightarrow> string" where
  "json_chars s =
     (case s of
        [] \<Rightarrow> []
      | b # r \<Rightarrow>
          if b < 0x80 then json_ascii b @ json_chars r
          else (let (ch, n) = decode_rune s in
            (if ch = rune_error \<and> n = 1 then [backslash] @ ''ufffd''
             else if ch = 0x2028 then [backslash] @ ''u2028''
             else if ch = 0x2029 then [backslash] @ ''u2029''
             else string_of_bytes (take n s)) @ json_chars (drop n s)))"
  by pat_completeness auto
termination
proof (relation "measure length", goal_cases)
  case (3 s b r x ch n)
  then have "n = snd (decode_rune s)" by (metis snd_conv)
  with 3 show ?case using decode_rune_width [of s] by (simp del: decode_rune.simps)
qed simp_all

declare json_chars.simps [simp del]

definition json_string :: "string \<Rightarrow> string" where
  "json_string s = [dquote] @ json_chars (bytes_of_string s) @ [dquote]"

fun join :: "string \<Rightarrow> string list \<Rightarrow> string" where
  "join sep [] = []"
| "join sep [x] = x"
| "join sep (x # y # xs) = x @ sep @ join sep (y # xs)"

definition json_string_array :: "string list \<Rightarrow> string" where
  "json_string_array xs = ''['' @ join '','' (map json_string xs) @ '']''"

fun json_value :: "payload_value \<Rightarrow> string" where
  "json_value (PStr s) = json_string s"
| "json_value (PNum n) = dec_nat n"

text \<open>A map is marshalled with its keys sorted.\<close>

definition json_object :: "(string \<times> payload_value) list \<Rightarrow> string" where
  "json_object kvs = ''{'' @ join '','' (map (\<lambda>(k, v). json_string k @ '':'' @ json_value v)
     (sort_key fst kvs)) @ ''}''"

section \<open>Readings\<close>

definition bool_int :: "bool \<Rightarrow> int" where
  "bool_int b = (if b then 1 else 0)"

text \<open>Go's \<open>/\<close> on \<open>int\<close> truncates towards zero.\<close>

definition go_div :: "int \<Rightarrow> int \<Rightarrow> int" where
  "go_div a b = sgn a * sgn b * (\<bar>a\<bar> div \<bar>b\<bar>)"

fun battery_percent_tlv :: "u8 list \<Rightarrow> extras \<Rightarrow> int option" where
  "battery_percent_tlv [] ex = None"
| "battery_percent_tlv (i # ids) ex =
     (case map_of ex i of
        Some (b # _) \<Rightarrow> if unat b \<le> 100 then Some (int (unat b)) else battery_percent_tlv ids ex
      | _ \<Rightarrow> battery_percent_tlv ids ex)"

definition extract_battery :: "extras \<Rightarrow> int" where
  "extract_battery ex =
     (case battery_percent_tlv [0xEB, 0x63, 0x64] ex of
        Some pct \<Rightarrow> pct
      | None \<Rightarrow>
          (case map_of ex 0x25 of
             Some (hi # lo # _) \<Rightarrow>
               (let mV = int (unat hi) * 256 + int (unat lo);
                    pct = go_div ((mV - 3400) * 100) 800
                in if pct < 0 then 0 else if 100 < pct then 100 else pct)
           | _ \<Rightarrow> - 1))"

definition extract_signal :: "extras \<Rightarrow> int" where
  "extract_signal ex =
     (case map_of ex 0x30 of
        Some (b # _) \<Rightarrow>
          (let csq = int (unat b); csq = (if 31 < csq then 31 else csq) in go_div (csq * 100) 31)
      | _ \<Rightarrow> - 1)"

definition alarm_names :: "(u32 \<times> string) list" where
  "alarm_names = [(alarm_sos, ''sos''), (alarm_overspeed, ''overspeed''),
     (alarm_low_battery, ''low_battery''), (alarm_power_off, ''power_failure''),
     (alarm_vibration, ''vibration'')]"

definition active_alarm_names :: "u32 \<Rightarrow> string list" where
  "active_alarm_names flags = map snd (filter (\<lambda>m. flags AND fst m \<noteq> 0) alarm_names)"

text \<open>Go walks over the map in an unspecified order; here it is the stored one.\<close>

definition extra_entry :: "u8 \<times> bytes \<Rightarrow> string" where
  "extra_entry x = [dquote] @ ''0x'' @ hex_byte (fst x) @ [dquote] @ '':'' @
     [dquote] @ concat (map hex_byte (snd x)) @ [dquote]"

definition extras_to_json :: "extras \<Rightarrow> string" where
  "extras_to_json ex = ''{'' @ join '','' (map extra_entry ex) @ ''}''"

section \<open>Publishing\<close>

definition location_values :: "int \<Rightarrow> string \<Rightarrow> location_report \<Rightarrow> (string \<times> rvalue) list" where
  "location_values now_milli ph loc =
     (let battery = extract_battery (extras loc);
          battCode = drop_bit 16 (status_flags loc) AND 0x0F;
          signal = extract_signal (extras loc);
          alarms = active_alarm_names (alarm_flags loc)
      in [(''event'', RStr ''location''), (''phone'', RStr ph),
          (''timestamp'', RStr (timestamp loc)), (''altitude'', RInt (int (unat (altitude loc)))),
          (''speed'', RFloat (speed loc)), (''direction'', RInt (int (unat (direction loc)))),
          (''gps_fixed'', RInt (bool_int (gps_fixed loc))), (''acc_on'', RInt (bool_int (acc_on loc))),
          (''alarm_flags'', RInt (int (unat (alarm_flags loc)))),
          (''status_flags'', RInt (int (unat (status_flags loc)))),
          (''published_at'', RInt now_milli)] @
         (if gps_fixed loc then [(''latitude'', RFloat (latitude loc)),
            (''longitude'', RFloat (longitude loc))] else []) @
         (if 0 \<le> battery then [(''battery_level'', RInt battery)]
          else if 0 < battCode then [(''battery_from_flags'', RInt (int (unat (battCode * 25))))]
          else []) @
         (if 0 \<le> signal then [(''signal_strength'', RInt signal)] else []) @
         [(''active_alarms'', RStr (if alarms \<noteq> [] then json_string_array alarms else ''[]''))] @
         (if extras loc \<noteq> [] then [(''extras'', RStr (extras_to_json (extras loc)))] else []))"

definition publish_location :: "env \<Rightarrow> config \<Rightarrow> string \<Rightarrow> location_report \<Rightarrow> world \<Rightarrow> world" where
  "publish_location e cfg ph loc w =
     emit (Redis [XAdd (stream_key cfg) (stream_max_len cfg)
       (location_values (now_nano e div 1000000) ph loc)]) w"

definition publish_event ::
    "env \<Rightarrow> config \<Rightarrow> string \<Rightarrow> string \<Rightarrow> (string \<times> payload_value) list \<Rightarrow> world \<Rightarrow> world" where
  "publish_event e cfg ev ph payload w =
     emit (Redis [XAdd (stream_key cfg) (stream_max_len cfg)
       [(''event'', RStr ev), (''phone'', RStr ph), (''payload'', RStr (json_object payload)),
        (''published_at'', RInt (now_nano e div 1000000))]]) w"

end
