(* ===== verification/Decoder.thy ===== *)
theory Decoder
  imports Types "HOL-Library.AList"
begin

text \<open>
  The body decoders of \<open>pkg/protocol/decoder.go\<close>: location reports with their TLV trailer,
  the two registration layouts, BCD timestamps and the registration token.
\<close>

section \<open>Definitions\<close>

datatype decode_error = LocationTooShort nat | RegistrationTooShort nat

text \<open>The timestamp's twelve nibbles as characters, and the ISO-8601 text around them.\<close>

definition nibble_digits :: "bytes \<Rightarrow> string" where
  "nibble_digits b = concat (map (\<lambda>v. [char_of_byte (0x30 + (drop_bit 4 v AND 0x0f)),
     char_of_byte (0x30 + (v AND 0x0f))]) b)"

definition slice :: "nat \<Rightarrow> nat \<Rightarrow> 'a list \<Rightarrow> 'a list" where
  "slice i j xs = take (j - i) (drop i xs)"

definition parse_bcd_timestamp :: "bytes \<Rightarrow> string" where
  "parse_bcd_timestamp b =
     (let d = nibble_digits b
      in ''20'' @ slice 0 2 d @ ''-'' @ slice 2 4 d @ ''-'' @ slice 4 6 d @ ''T'' @
         slice 6 8 d @ '':'' @ slice 8 10 d @ '':'' @ slice 10 12 d @ ''Z'')"

text \<open>
  The TLV loop: id, length, value, while at least two bytes are left; a length beyond the end
  stops it. A repeated id overwrites the earlier value, as the map assignment does.
\<close>

fun parse_tlv :: "bytes \<Rightarrow> extras \<Rightarrow> extras" where
  "parse_tlv (ident # len # r) ex =
     (if length r < unat len then ex
      else parse_tlv (drop (unat len) r) (AList.update ident (take (unat len) r) ex))"
| "parse_tlv _ ex = ex"

definition micro_degrees :: "u32 \<Rightarrow> f64" where
  "micro_degrees raw = f64_div (f64_of_nat (unat raw)) (f64_of_nat 1000000)"

definition decode_location :: "bytes \<Rightarrow> decode_error + location_report" where
  "decode_location bdy =
     (if length bdy < 28 then Inl (LocationTooShort (length bdy))
      else
        (let (alarm, r) = read_u32 0 bdy;
             (status, r) = read_u32 0 r;
             (rawLat, r) = read_u32 0 r;
             (rawLon, r) = read_u32 0 r;
             lat = micro_degrees rawLat;
             lon = micro_degrees rawLon;
             lat = (if status AND status_lat_south \<noteq> 0 then f64_neg lat else lat);
             lon = (if status AND status_lon_west \<noteq> 0 then f64_neg lon else lon);
             (altRaw, r) = read_u16 0 r;
             (speedRaw, r) = read_u16 0 r;
             (dirRaw, r) = read_u16 0 r;
             (tsBCD, r) = read_buf 6 r
         in Inr \<lparr>alarm_flags = alarm, status_flags = status, latitude = lat, longitude = lon,
              altitude = altRaw,
              speed = f64_div (f64_of_nat (unat speedRaw)) (f64_of_nat 10),
              direction = dirRaw,
              timestamp = parse_bcd_timestamp tsBCD,
              gps_fixed = (status AND status_located \<noteq> 0),
              acc_on = (status AND status_acc_on \<noteq> 0),
              extras = parse_tlv r []\<rparr>))"

text \<open>\<open>bytes.TrimRight(b, "\x00 ")\<close>.\<close>

definition null_trimmed :: "bytes \<Rightarrow> string" where
  "null_trimmed b = string_of_bytes (rev (dropWhile (\<lambda>c. c = 0x00 \<or> c = 0x20) (rev b)))"

definition decode_registration :: "bytes \<Rightarrow> decode_error + registration_info" where
  "decode_registration bdy =
     (if length bdy < 17 then Inl (RegistrationTooShort (length bdy))
      else
        (let (prov, r) = read_u16 0 bdy;
             (city, r) = read_u16 0 r;
             (manufBytes, r) = read_buf 5 r;
             modelLen = (if 28 \<le> length r then 20 else 8);
             (model, r) = (if modelLen \<le> length r
               then (let (modelBytes, r) = read_buf modelLen r in (null_trimmed modelBytes, r))
               else ([], r));
             (devID, r) = (if 7 \<le> length r
               then (let (devIDBytes, r) = read_buf 7 r in (null_trimmed devIDBytes, r))
               else ([], r));
             (color, r) = (if 1 \<le> length r then read_u8 0 r else (0, r));
             plate = (if 0 < length r then null_trimmed (fst (read_buf (length r) r)) else [])
         in Inr \<lparr>province_id = prov, city_id = city, manuf_id = null_trimmed manufBytes,
              device_model = model, device_id = devID, plate_color = color,
              plate_number = plate\<rparr>))"

text \<open>The Unix time in seconds is an argument.\<close>

definition generate_auth_token :: "int \<Rightarrow> string \<Rightarrow> string" where
  "generate_auth_token ts ph = ph @ ''_'' @ dec_int ts"

section \<open>Lemmas: TLV items\<close>

text \<open>The encoding the loop inverts.\<close>

definition tlv_item :: "u8 \<times> bytes \<Rightarrow> bytes" where
  "tlv_item it = fst it # of_nat (length (snd it)) # snd it"

definition tlv_items :: "(u8 \<times> bytes) list \<Rightarrow> bytes" where
  "tlv_items its = concat (map tlv_item its)"

definition add_items :: "(u8 \<times> bytes) list \<Rightarrow> extras \<Rightarrow> extras" where
  "add_items its ex = fold (\<lambda>it. AList.update (fst it) (snd it)) its ex"

lemma tlv_items_simps [simp]:
  "tlv_items [] = []" "tlv_items (it # its) = tlv_item it @ tlv_items its"
  by (simp_all add: tlv_items_def)

lemma add_items_simps [simp]:
  "add_items [] ex = ex" "add_items (it # its) ex = add_items its (AList.update (fst it) (snd it) ex)"
  by (simp_all add: add_items_def)

lemma unat_of_nat_u8: "n < 256 \<Longrightarrow> unat (of_nat n :: u8) = n"
  by (simp add: unat_of_nat)

lemma parse_tlv_item:
  "length (snd it) < 256 \<Longrightarrow>
     parse_tlv (tlv_item it @ r) ex = parse_tlv r (AList.update (fst it) (snd it) ex)"
  by (simp add: tlv_item_def unat_of_nat_u8)

lemma parse_tlv_items:
  "\<forall>it\<in>set its. length (snd it) < 256 \<Longrightarrow> parse_tlv (tlv_items its @ r) ex = parse_tlv r (add_items its ex)"
  by (induction its arbitrary: ex) (auto simp: parse_tlv_item)

lemma parse_tlv_short: "length r < 2 \<Longrightarrow> parse_tlv r ex = ex"
  by (cases "(r, ex)" rule: parse_tlv.cases) auto

lemma parse_tlv_overlong: "length r < unat len \<Longrightarrow> parse_tlv (i # len # r) ex = ex"
  by simp

lemma map_of_add_items: "map_of (add_items its ex) = map_of ex ++ map_of (rev its)"
  by (induction its arbitrary: ex) (auto simp: update_conv')

lemma distinct_parse_tlv: "distinct (map fst ex) \<Longrightarrow> distinct (map fst (parse_tlv r ex))"
  by (induction r ex rule: parse_tlv.induct) (auto simp: distinct_update)

section \<open>Lemmas: coordinates\<close>

lemma round_mag_scaled:
  assumes "0 < c" and "c \<le> 2 ^ 40"
  shows "\<bar>round_mag (of_nat n / of_nat c) - of_nat n / of_nat c\<bar> \<le> of_nat n / of_nat c / 2 ^ 53"
proof (cases "0 < n")
  case True
  have c: "(0 :: rat) < of_nat c" "(of_nat c :: rat) \<le> of_nat (2 ^ 40)"
    using assms by (simp, simp only: of_nat_le_iff)
  have "1 / of_nat (2 ^ 40) \<le> 1 / (of_nat c :: rat)" using c by (intro divide_left_mono) simp_all
  also have "\<dots> \<le> of_nat n / of_nat c" using True c by (intro divide_right_mono) simp_all
  finally have "1 / of_nat (2 ^ 40) \<le> (of_nat n / of_nat c :: rat)" .
  moreover have "pow2 (- 1022) \<le> 1 / of_nat (2 ^ 40)" by (simp add: pow2_def)
  ultimately show ?thesis by (intro round_mag_relative_error) linarith
qed simp

lemma f64_div_nats:
  assumes "0 < c" and "c \<le> 2 ^ 40" and "n < 2 ^ 53"
  shows "f64_div (f64_of_nat n) (f64_of_nat c) = Fin False (round_mag (of_nat n / of_nat c))"
proof -
  define q where "q = (of_nat n / of_nat c :: rat)"
  have c: "(1 :: rat) \<le> of_nat c" using assms(1) by (simp add: Suc_le_eq)
  have "q \<le> of_nat n / 1" unfolding q_def using c by (intro divide_left_mono) simp_all
  also have "\<dots> < of_nat (2 ^ 53)" using assms(3) by (simp only: of_nat_less_iff div_by_1)
  finally have q: "q < 2 ^ 53" by simp
  have "\<bar>round_mag q - q\<bar> \<le> q / 2 ^ 53"
    unfolding q_def by (rule round_mag_scaled) (use assms in auto)
  moreover have "q / 2 ^ 53 < 1" using q by simp
  ultimately have "round_mag q < 2 ^ 53 + 1" using q by linarith
  then have "round_mag q < 2 ^ 1024" by (rule order_less_trans) simp
  moreover have "c < 2 ^ 53" using assms(2) by simp
  ultimately show ?thesis
    using assms by (simp add: f64_of_nat_exact f64_round_def q_def)
qed

lemma unat_u32_less: "unat (v :: u32) < 2 ^ 32"
  using unsigned_less [of v, where 'a = nat] by simp

lemma micro_degrees_Fin:
  "micro_degrees raw = Fin False (round_mag (of_nat (unat raw) / of_nat 1000000))"
  unfolding micro_degrees_def
  using unat_u32_less [of raw] by (intro f64_div_nats) simp_all

lemma micro_degrees_error:
  "\<bar>f64_val (micro_degrees raw) - of_nat (unat raw) / of_nat 1000000\<bar> \<le>
     of_nat (unat raw) / of_nat 1000000 / 2 ^ 53"
  using round_mag_scaled [of 1000000 "unat raw"]
  by (simp only: micro_degrees_Fin f64_val.simps if_False) simp

end
