(* ===== verification/Handler.thy ===== *)
theory Handler
  imports Registry Store Forwarder Decoder
begin

text \<open>
  The message dispatcher, \<open>server/internal/handler/handler.go\<close>: one definition per handler, each
  the whole handler on the world, composed by \<open>dispatch\<close> as the code composes them. A goroutine or
  timer the handler starts is a task of the world; its effect happens when the task is run.
\<close>

section \<open>Message names\<close>

definition msg_name :: "u16 \<Rightarrow> string" where
  "msg_name i =
     (if i = msg_heartbeat then ''heartbeat''
      else if i = msg_registration then ''registration''
      else if i = msg_authentication then ''authentication''
      else if i = msg_location_report then ''location''
      else if i = msg_batch_location then ''batch_location''
      else if i = msg_terminal_resp then ''terminal_resp''
      else if i = msg_terminal_props then ''terminal_props''
      else if i = msg_upgrade_result then ''upgrade_result''
      else if i = msg_acc_status_report then ''acc_status''
      else ''unknown'')"

text \<open>The messages \<open>Dispatch\<close> lets through before authentication.\<close>

definition allowed_before_auth :: "u16 \<Rightarrow> bool" where
  "allowed_before_auth i \<longleftrightarrow> i = msg_registration \<or> i = msg_authentication \<or>
     i = msg_terminal_resp \<or> i = msg_location_report \<or> i = msg_batch_location"

section \<open>Handlers\<close>

definition handle_heartbeat :: "env \<Rightarrow> config \<Rightarrow> device_store \<Rightarrow> nat \<Rightarrow> frame \<Rightarrow> world \<Rightarrow> world" where
  "handle_heartbeat e cfg st sid f w =
     (let w = reg_heartbeat e sid w;
          (w, _) = do_ack e sid f result_ok (write_timeout cfg) w;
          w = count count_heartbeat w;
          w = record_heartbeat st (s_phone (sessions w sid)) w
      in spawn (PublishEvent ''heartbeat'' (s_phone (sessions w sid)) []) w)"

text \<open>The refusal shared by the two rejecting branches of the registration handler.\<close>

definition reject_registration :: "env \<Rightarrow> config \<Rightarrow> nat \<Rightarrow> frame \<Rightarrow> world \<Rightarrow> world" where
  "reject_registration e cfg sid f w =
     (let bdy = build_registration_ack (seq_num f) reg_terminal_not_in_db [];
          (w, _) = do_send e sid msg_registration_resp bdy (write_timeout cfg) w
      in spawn (CloseAfter (200 * millisecond) sid) w)"

definition accept_registration ::
    "env \<Rightarrow> config \<Rightarrow> nat \<Rightarrow> frame \<Rightarrow> registration_info \<Rightarrow> world \<Rightarrow> world" where
  "accept_registration e cfg sid f info w =
     (let w = upd_session sid (\<lambda>s. s\<lparr>s_phone := phone f, s_imei := device_id info\<rparr>) w;
          token = generate_auth_token (now_unix e) (phone f);
          (w, _) = store_auth_token e cfg (phone f) token w;
          w = upd_session sid (\<lambda>s. s\<lparr>s_token := token\<rparr>) w;
          w = upd_session sid (set_state Registered) w;
          bdy = build_registration_ack (seq_num f) reg_success token;
          (w, _) = do_send e sid msg_registration_resp bdy (write_timeout cfg) w
      in spawn (PublishEvent ''device.registered'' (phone f)
           [(''phone'', PStr (phone f)), (''device_id'', PStr (device_id info)),
            (''device_model'', PStr (device_model info)),
            (''province_id'', PNum (unat (province_id info))),
            (''city_id'', PNum (unat (city_id info)))]) w)"

definition handle_registration :: "env \<Rightarrow> config \<Rightarrow> device_store \<Rightarrow> nat \<Rightarrow> frame \<Rightarrow> world \<Rightarrow> world" where
  "handle_registration e cfg st sid f w =
     (case decode_registration (body f) of
        Inl _ \<Rightarrow> fst (do_ack e sid f result_msg_error (write_timeout cfg) w)
      | Inr info \<Rightarrow>
          (case check_or_create e st (phone f) (device_model info) (device_id info) w of
             ((_, Some _), w) \<Rightarrow> reject_registration e cfg sid f w
           | ((CheckBlocked, None), w) \<Rightarrow> reject_registration e cfg sid f w
           | ((CheckAutoCreated, None), w) \<Rightarrow> accept_registration e cfg sid f info w
           | ((CheckApproved, None), w) \<Rightarrow> accept_registration e cfg sid f info w))"

definition handle_authentication :: "env \<Rightarrow> config \<Rightarrow> nat \<Rightarrow> frame \<Rightarrow> world \<Rightarrow> world" where
  "handle_authentication e cfg sid f w =
     (let ph = phone f;
          token = string_of_bytes (body f);
          w = (if s_phone (sessions w sid) = []
               then upd_session sid (\<lambda>s. s\<lparr>s_phone := ph\<rparr>) w else w);
          (w, res) = validate_auth_token e cfg ph token w;
          valid = (case res of None \<Rightarrow> True | Some v \<Rightarrow> v)
      in if \<not> valid then
           (let (w, _) = do_ack e sid f result_fail (write_timeout cfg) w;
                w = count count_auth_violation w
            in spawn (CloseAfter (500 * millisecond) sid) w)
         else
           (let w = upd_session sid (set_state Authenticated) w;
                w = reg_register sid w;
                (w, _) = do_ack e sid f result_ok (write_timeout cfg) w;
                w = count count_auth_success w
            in spawn (PublishEvent ''device.authenticated'' ph
                 [(''phone'', PStr ph), (''imei'', PStr (s_imei (sessions w sid))),
                  (''addr'', PStr (remote_addr (sessions w sid))),
                  (''login_at'', PStr (now_rfc3339 e))]) w))"

definition handle_location :: "env \<Rightarrow> config \<Rightarrow> nat \<Rightarrow> frame \<Rightarrow> world \<Rightarrow> world" where
  "handle_location e cfg sid f w =
     (let (w, err) = do_ack e sid f result_ok (write_timeout cfg) w
      in if err then w
         else
           (let ph = s_phone (sessions w sid);
                ph = (if ph = [] then phone f else ph)
            in if ph = [] then w
               else (case decode_location (body f) of
                       Inl _ \<Rightarrow> count count_decode_error w
                     | Inr loc \<Rightarrow>
                         (let w = upd_session sid (touch_location (now_nano e)) w;
                              w = count count_location w;
                              w = (if has_alarm loc alarm_sos then count count_sos w else w)
                          in spawn (PublishLocation ph loc) w))))"

text \<open>
  The item loop of a batch: \<open>n\<close> is how many of the declared items are still to come, \<open>offset\<close>
  the place in the body; a length that runs past the end stops it, an undecodable item is counted
  and skipped.
\<close>

definition be16_at :: "bytes \<Rightarrow> nat \<Rightarrow> nat" where
  "be16_at b i = unat (b ! i) * 256 + unat (b ! (i + 1))"

fun batch_loop :: "nat \<Rightarrow> bytes \<Rightarrow> nat \<Rightarrow> nat \<Rightarrow> world \<Rightarrow> world" where
  "batch_loop sid bdy offset 0 w = w"
| "batch_loop sid bdy offset (Suc n) w =
     (if offset + 2 \<le> length bdy then
        (let itemLen = be16_at bdy offset; offset = offset + 2
         in if length bdy < offset + itemLen then w
            else
              (let item = slice offset (offset + itemLen) bdy;
                   offset = offset + itemLen
               in case decode_location item of
                    Inl _ \<Rightarrow> batch_loop sid bdy offset n (count count_decode_error w)
                  | Inr loc \<Rightarrow> batch_loop sid bdy offset n
                      (spawn (PublishLocation (s_phone (sessions w sid)) loc) (count count_location w))))
      else w)"

definition handle_batch_location :: "env \<Rightarrow> config \<Rightarrow> nat \<Rightarrow> frame \<Rightarrow> world \<Rightarrow> world" where
  "handle_batch_location e cfg sid f w =
     (let (w, err) = do_ack e sid f result_ok (write_timeout cfg) w
      in if err then w
         else if length (body f) < 3 then w
         else batch_loop sid (body f) 3 (be16_at (body f) 0) w)"

section \<open>Dispatch\<close>

definition dispatch :: "env \<Rightarrow> config \<Rightarrow> device_store \<Rightarrow> nat \<Rightarrow> frame \<Rightarrow> world \<Rightarrow> world" where
  "dispatch e cfg st sid f w =
     (let w = count (count_frame (msg_name (msg_id f))) w
      in if s_state (sessions w sid) < Authenticated \<and> \<not> allowed_before_auth (msg_id f)
         then fst (do_ack e sid f result_ok (write_timeout cfg) w)
         else if msg_id f = msg_heartbeat then handle_heartbeat e cfg st sid f w
         else if msg_id f = msg_registration then handle_registration e cfg st sid f w
         else if msg_id f = msg_authentication then handle_authentication e cfg sid f w
         else if msg_id f = msg_location_report then handle_location e cfg sid f w
         else if msg_id f = msg_batch_location then handle_batch_location e cfg sid f w
         else if msg_id f = msg_terminal_resp then w
         else if msg_id f = msg_terminal_props then fst (do_ack e sid f result_ok (write_timeout cfg) w)
         else if msg_id f = msg_upgrade_result then fst (do_ack e sid f result_ok (write_timeout cfg) w)
         else if msg_id f = msg_acc_status_report then fst (do_ack e sid f result_ok (write_timeout cfg) w)
         else fst (do_ack e sid f result_ok (write_timeout cfg) (count count_unknown w)))"

end
