(* ===== verification/Server.thy ===== *)
theory Server
  imports Handler
begin

text \<open>
  The TCP server, \<open>server/internal/server/tcp.go\<close>: accepting a connection, the per-connection
  loop with its deferred clean-up, the authentication timer, the prune loop, and the transition
  system in which connections, goroutines and timers interleave.
\<close>

section \<open>Errors\<close>

text \<open>\<open>errors.As\<close> looks through the wrapping of the read errors for a \<open>net.Error\<close>.\<close>

fun is_timeout :: "read_error \<Rightarrow> bool" where
  "is_timeout (SkipError e) = (e = Timeout)"
| "is_timeout (MidFrame e) = (e = Timeout)"
| "is_timeout (EscapeRead e) = (e = Timeout)"
| "is_timeout _ = False"

section \<open>Connections\<close>

text \<open>The accept loop: both counters, then \<open>go handleConn\<close>.\<close>

definition accept_conn :: "string \<Rightarrow> world \<Rightarrow> world" where
  "accept_conn addr w = spawn (RunConn addr) (count conn_opened w)"

text \<open>The start of \<open>handleConn\<close>: a new session and its authentication timer.\<close>

definition start_conn :: "env \<Rightarrow> string \<Rightarrow> world \<Rightarrow> world" where
  "start_conn e addr w =
     (let sid = next_sid w;
          w = w\<lparr>sessions := (sessions w)(sid := new_session addr (now_nano e)),
                next_sid := Suc sid, running := running w @ [sid], rx := (rx w)(sid := [])\<rparr>
      in spawn (AuthTimer sid) w)"

text \<open>
  The deferred calls, last first: stop the timer, unregister, close the connection and decrement
  the gauge. \<open>conn.Close\<close> does not touch the session's state.
\<close>

definition close_conn :: "session \<Rightarrow> session" where
  "close_conn s = s\<lparr>conn_open := False\<rparr>"

definition end_conn :: "nat \<Rightarrow> world \<Rightarrow> world" where
  "end_conn sid w =
     (let w = w\<lparr>tasks := filter (\<lambda>t. t \<noteq> AuthTimer sid) (tasks w)\<rparr>;
          w = reg_unregister sid w;
          w = emit (ConnClose sid) (upd_session sid close_conn w);
          w = count conn_ended w
      in w\<lparr>running := filter (\<lambda>k. k \<noteq> sid) (running w)\<rparr>)"

text \<open>One round of the loop: read a frame from what has been received, dispatch it or leave.\<close>

definition conn_round ::
    "env \<Rightarrow> config \<Rightarrow> device_store \<Rightarrow> io_error \<Rightarrow> nat \<Rightarrow> world \<Rightarrow> world" where
  "conn_round e cfg st io sid w =
     (let (res, rest) = read_frame io (rx w sid);
          w = w\<lparr>rx := (rx w)(sid := rest)\<rparr>
      in case res of
           Inl _ \<Rightarrow> end_conn sid w
         | Inr f \<Rightarrow> dispatch e cfg st sid f w)"

text \<open>Bytes arriving on an open connection.\<close>

definition deliver :: "nat \<Rightarrow> bytes \<Rightarrow> world \<Rightarrow> world" where
  "deliver sid bs w = w\<lparr>rx := (rx w)(sid := rx w sid @ bs)\<rparr>"

text \<open>
  The whole loop on a connection that no other step interferes with: the received bytes, the
  error that ends them, and the environment of each round.
\<close>

function conn_loop ::
    "(nat \<Rightarrow> env) \<Rightarrow> nat \<Rightarrow> config \<Rightarrow> device_store \<Rightarrow> io_error \<Rightarrow> nat \<Rightarrow> bytes \<Rightarrow> world \<Rightarrow> world" where
  "conn_loop es n cfg st io sid r w =
     (case read_frame io r of
        (Inl _, rest) \<Rightarrow> end_conn sid w
      | (Inr f, rest) \<Rightarrow> conn_loop es (Suc n) cfg st io sid rest (dispatch (es n) cfg st sid f w))"
  by pat_completeness auto
termination
proof (relation "measure (\<lambda>(es, n, cfg, st, io, sid, r, w). length r)", goal_cases)
  case (2 es n cfg st io sid r w res rest f)
  then show ?case using read_frame_progress [of io r f rest] by simp
qed simp

declare conn_loop.simps [simp del]

section \<open>Goroutines and timers\<close>

definition auth_timer_fires :: "nat \<Rightarrow> world \<Rightarrow> world" where
  "auth_timer_fires sid w = (if s_state (sessions w sid) < Authenticated then do_close sid w else w)"

fun exec_task :: "env \<Rightarrow> config \<Rightarrow> task \<Rightarrow> world \<Rightarrow> world" where
  "exec_task e cfg (RunConn addr) w = start_conn e addr w"
| "exec_task e cfg (RegisterPipe sid) w = emit (Redis (register_pipe e cfg (sessions w sid))) w"
| "exec_task e cfg (UnregisterPipe sid) w = emit (Redis (unregister_pipe cfg (sessions w sid))) w"
| "exec_task e cfg (HeartbeatPipe sid) w = emit (Redis (heartbeat_pipe e cfg (sessions w sid))) w"
| "exec_task e cfg (PublishEvent ev ph payload) w = publish_event e cfg ev ph payload w"
| "exec_task e cfg (PublishLocation ph loc) w = publish_location e cfg ph loc w"
| "exec_task e cfg (CloseAfter d sid) w = do_close sid w"
| "exec_task e cfg (AuthTimer sid) w = auth_timer_fires sid w"

section \<open>The transition system\<close>

text \<open>
  One step of the process: a connection is accepted, bytes arrive, a connection's loop makes a
  round (with the I/O error that would end the received bytes), a started goroutine or timer runs,
  or the prune loop ticks. Dispatching one frame is atomic; the order of steps is arbitrary.
\<close>

inductive server_step :: "config \<Rightarrow> device_store \<Rightarrow> world \<Rightarrow> world \<Rightarrow> bool" for cfg st where
  accept: "server_step cfg st w (accept_conn addr w)"
| arrive: "sid \<in> set (running w) \<Longrightarrow> conn_open (sessions w sid) \<Longrightarrow>
     server_step cfg st w (deliver sid bs w)"
| round: "sid \<in> set (running w) \<Longrightarrow> server_step cfg st w (conn_round e cfg st io sid w)"
| task: "t \<in> set (tasks w) \<Longrightarrow>
     server_step cfg st w (exec_task e cfg t (w\<lparr>tasks := remove1 t (tasks w)\<rparr>))"
| prune: "server_step cfg st w (prune_stale e cfg (heartbeat_timeout cfg * 2) w)"

inductive_cases server_stepE: "server_step cfg st w w'"

inductive reachable :: "config \<Rightarrow> device_store \<Rightarrow> world \<Rightarrow> bool" for cfg st where
  start: "reachable cfg st empty_world"
| step: "reachable cfg st w \<Longrightarrow> server_step cfg st w w' \<Longrightarrow> reachable cfg st w'"

end
