(* ===== verification/Handler_Frame.thy ===== *)
theory Handler_Frame
  imports Handler
begin

text \<open>
  What handling one frame on a session may change at all: the frame condition every handler
  keeps, proved once per elementary step and composed by introduction rules. The properties of
  the handlers and the invariants of the server rest on it.
\<close>

section \<open>The frame condition\<close>

text \<open>The goroutines and timers a handler of session \<open>sid\<close> may start.\<close>

fun task_of :: "nat \<Rightarrow> task \<Rightarrow> bool" where
  "task_of sid (RegisterPipe k) = (k = sid)"
| "task_of sid (HeartbeatPipe k) = (k = sid)"
| "task_of sid (CloseAfter d k) = (k = sid)"
| "task_of sid (PublishEvent _ _ _) = True"
| "task_of sid (PublishLocation _ _) = True"
| "task_of sid _ = False"

text \<open>
  Nothing of the connection table changes; tasks and events are only added; other sessions are at
  most closed; registry entries change only into entries for \<open>sid\<close>.
\<close>

definition session_frame :: "nat \<Rightarrow> world \<Rightarrow> world \<Rightarrow> bool" where
  "session_frame sid w w' \<longleftrightarrow>
     next_sid w' = next_sid w \<and> running w' = running w \<and> rx w' = rx w \<and>
     connections_active (metrics w') = connections_active (metrics w) \<and>
     connections_total (metrics w') = connections_total (metrics w) \<and>
     (\<exists>ts. tasks w' = tasks w @ ts \<and> (\<forall>t\<in>set ts. task_of sid t)) \<and>
     (\<exists>evs. events w' = events w @ evs) \<and>
     (\<forall>k. k \<noteq> sid \<longrightarrow> sessions w' k = sessions w k \<or> sessions w' k = close_sess (sessions w k)) \<and>
     (\<forall>p. reg_get p w' = reg_get p w \<or> reg_get p w' = Some sid) \<and>
     (distinct (map fst (registry w)) \<longrightarrow> distinct (map fst (registry w')))"

named_theorems frame_intros \<open>steps that keep the frame condition\<close>

lemma close_sess_idem [simp]: "close_sess (close_sess s) = close_sess s"
  by (simp add: close_sess_def)

lemma session_frame_refl [frame_intros]: "session_frame sid w w"
  by (simp add: session_frame_def)

lemma session_frame_trans:
  assumes uv: "session_frame sid u v" and vw: "session_frame sid v w"
  shows "session_frame sid u w"
proof -
  obtain ts where ts: "tasks v = tasks u @ ts" "\<forall>t\<in>set ts. task_of sid t"
    using uv by (auto simp: session_frame_def)
  obtain ts' where ts': "tasks w = tasks v @ ts'" "\<forall>t\<in>set ts'. task_of sid t"
    using vw by (auto simp: session_frame_def)
  have "\<exists>ts. tasks w = tasks u @ ts \<and> (\<forall>t\<in>set ts. task_of sid t)"
    using ts ts' by (intro exI [of _ "ts @ ts'"]) auto
  moreover have "\<exists>evs. events w = events u @ evs"
    using uv vw by (auto simp: session_frame_def)
  moreover have "sessions w k = sessions u k \<or> sessions w k = close_sess (sessions u k)" if "k \<noteq> sid" for k
    using uv vw that unfolding session_frame_def by (metis close_sess_idem)
  moreover have "reg_get p w = reg_get p u \<or> reg_get p w = Some sid" for p
    using uv vw unfolding session_frame_def by metis
  ultimately show ?thesis using uv vw by (simp add: session_frame_def)
qed

section \<open>Elementary steps\<close>

text \<open>A world that differs only in the session, the log and added tasks.\<close>

lemma frame_upd_session [frame_intros]:
  "session_frame sid w v \<Longrightarrow> session_frame sid w (upd_session sid g v)"
  by (simp add: session_frame_def reg_get_def)

lemma frame_emit [frame_intros]:
  "session_frame sid w v \<Longrightarrow> session_frame sid w (emit ev v)"
  by (auto simp: session_frame_def reg_get_def)

lemma frame_spawn [frame_intros]:
  assumes "task_of sid t" and "session_frame sid w v"
  shows "session_frame sid w (spawn t v)"
proof -
  have "session_frame sid v (spawn t v)"
    using assms(1) by (simp add: session_frame_def reg_get_def)
  with assms(2) show ?thesis by (rule session_frame_trans)
qed

lemma frame_count [frame_intros]:
  assumes "connections_active (g (metrics v)) = connections_active (metrics v)"
    and "connections_total (g (metrics v)) = connections_total (metrics v)"
    and "session_frame sid w v"
  shows "session_frame sid w (count g v)"
  using assms by (simp add: session_frame_def reg_get_def)

lemma frame_do_send [frame_intros]:
  "session_frame sid w v \<Longrightarrow> session_frame sid w (fst (do_send e sid i b d v))"
  by (auto simp: session_frame_def reg_get_def)

lemma frame_do_ack [frame_intros]:
  "session_frame sid w v \<Longrightarrow> session_frame sid w (fst (do_ack e sid f r d v))"
  by (simp add: do_ack_send frame_do_send)

lemma frame_reg_heartbeat [frame_intros]:
  "session_frame sid w v \<Longrightarrow> session_frame sid w (reg_heartbeat e sid v)"
  by (simp add: reg_heartbeat_def frame_spawn frame_upd_session)

lemma frame_record_heartbeat [frame_intros]:
  "session_frame sid w v \<Longrightarrow> session_frame sid w (record_heartbeat st bid v)"
  by (auto simp: record_heartbeat_def frame_emit split: option.split)

lemma frame_store_auth_token [frame_intros]:
  "session_frame sid w v \<Longrightarrow> session_frame sid w (fst (store_auth_token e cfg p t v))"
  by (simp add: store_auth_token_def frame_emit)

lemma frame_validate_auth_token [frame_intros]:
  "session_frame sid w v \<Longrightarrow> session_frame sid w (fst (validate_auth_token e cfg p t v))"
  by (simp add: validate_auth_token_def frame_emit)

lemma frame_check_or_create [frame_intros]:
  assumes "session_frame sid w v"
  shows "session_frame sid w (snd (check_or_create e st b m d v))"
proof -
  obtain res v' where r: "check_or_create e st b m d v = (res, v')" by fastforce
  obtain evs where "v' = v\<lparr>events := events v @ evs\<rparr>" using store.only_logs [OF r] by blast
  then have "session_frame sid v v'" by (simp add: session_frame_def reg_get_def)
  with assms r show ?thesis by (auto intro: session_frame_trans)
qed

lemma frame_reg_register [frame_intros]:
  assumes "session_frame sid w v"
  shows "session_frame sid w (reg_register sid v)"
proof -
  have "session_frame sid v (reg_register sid v)"
    unfolding session_frame_def reg_register_get
    by (auto simp: reg_register_sessions reg_register_events reg_register_distinct
        split: option.splits)
  with assms show ?thesis by (rule session_frame_trans)
qed

lemma count_keeps_connections [simp]:
  "connections_active (count_frame l m) = connections_active m"
  "connections_total (count_frame l m) = connections_total m"
  "connections_active (count_auth_success m) = connections_active m"
  "connections_total (count_auth_success m) = connections_total m"
  "connections_active (count_auth_violation m) = connections_active m"
  "connections_total (count_auth_violation m) = connections_total m"
  "connections_active (count_heartbeat m) = connections_active m"
  "connections_total (count_heartbeat m) = connections_total m"
  "connections_active (count_location m) = connections_active m"
  "connections_total (count_location m) = connections_total m"
  "connections_active (count_sos m) = connections_active m"
  "connections_total (count_sos m) = connections_total m"
  "connections_active (count_decode_error m) = connections_active m"
  "connections_total (count_decode_error m) = connections_total m"
  "connections_active (count_unknown m) = connections_active m"
  "connections_total (count_unknown m) = connections_total m"
  by (simp_all add: count_frame_def count_auth_success_def count_auth_violation_def
      count_heartbeat_def count_location_def count_sos_def count_decode_error_def count_unknown_def)

section \<open>Handlers\<close>

lemma frame_handle_heartbeat [frame_intros]:
  "session_frame sid w (handle_heartbeat e cfg st sid f w)"
  unfolding handle_heartbeat_def Let_def split_beta
  by (intro frame_intros) simp_all

lemma frame_reject_registration [frame_intros]:
  "session_frame sid w v \<Longrightarrow> session_frame sid w (reject_registration e cfg sid f v)"
  unfolding reject_registration_def Let_def split_beta
  by (intro frame_intros) simp_all

lemma frame_accept_registration [frame_intros]:
  "session_frame sid w v \<Longrightarrow> session_frame sid w (accept_registration e cfg sid f info v)"
  unfolding accept_registration_def Let_def split_beta
  by (intro frame_intros) simp_all

lemma frame_handle_registration [frame_intros]:
  "session_frame sid w (handle_registration e cfg st sid f w)"
proof (cases "decode_registration (body f)")
  case (Inl a)
  then show ?thesis by (simp add: handle_registration_def frame_intros)
next
  case (Inr info)
  obtain r err w' where c: "check_or_create e st (phone f) (device_model info) (device_id info) w = ((r, err), w')"
    by (metis prod.exhaust)
  have "session_frame sid w w'"
    using frame_check_or_create [OF session_frame_refl, of sid w e st "phone f" "device_model info" "device_id info"]
    by (simp add: c)
  with Inr c show ?thesis
    by (auto simp: handle_registration_def frame_intros split: option.split check_result.split)
qed

lemma frame_handle_authentication [frame_intros]:
  "session_frame sid w (handle_authentication e cfg sid f w)"
proof -
  define v where "v = (if s_phone (sessions w sid) = []
    then upd_session sid (\<lambda>s. s\<lparr>s_phone := phone f\<rparr>) w else w)"
  have "session_frame sid w v" by (simp add: v_def frame_intros)
  then show ?thesis
    unfolding handle_authentication_def Let_def split_beta v_def [symmetric]
    by (simp only: if_split) (intro conjI impI frame_intros; simp)
qed

lemma frame_handle_location [frame_intros]:
  "session_frame sid w (handle_location e cfg sid f w)"
  by (auto simp: handle_location_def Let_def split_beta intro!: frame_intros split: sum.split)

lemma frame_batch_loop [frame_intros]:
  "session_frame sid w v \<Longrightarrow> session_frame sid w (batch_loop sid b off n v)"
proof (induction n arbitrary: off v)
  case (Suc n)
  then show ?case
    by (auto simp: Let_def split: sum.split intro!: Suc.IH frame_intros)
qed simp

lemma frame_handle_batch_location [frame_intros]:
  "session_frame sid w (handle_batch_location e cfg sid f w)"
  by (auto simp: handle_batch_location_def Let_def split_beta intro!: frame_intros)

lemma frame_dispatch: "session_frame sid w (dispatch e cfg st sid f w)"
proof -
  let ?v = "count (count_frame (msg_name (msg_id f))) w"
  have v: "session_frame sid w ?v" by (intro frame_intros) simp_all
  have "session_frame sid ?v (dispatch e cfg st sid f w)"
    by (auto simp: dispatch_def Let_def intro!: frame_intros)
  with v show ?thesis by (rule session_frame_trans)
qed

lemmas session_frameD = frame_dispatch [unfolded session_frame_def]

end
