(* ===== verification/Decoder_Laws.thy ===== *)
theory Decoder_Laws
  imports Decoder
begin

text \<open>
  What the body decoders return on the layouts they are written for, on the layouts they
  misread, and on malformed input.
\<close>

section \<open>Helper lemmas\<close>

text \<open>A well-formed 0x0200 body: the 28-byte header and what follows it.\<close>

definition location_body ::
    "u32 \<Rightarrow> u32 \<Rightarrow> u32 \<Rightarrow> u32 \<Rightarrow> u16 \<Rightarrow> u16 \<Rightarrow> u16 \<Rightarrow> bytes \<Rightarrow> bytes \<Rightarrow> bytes" where
  "location_body alarm status lat lon alt spd dir ts r =
     put32 alarm @ put32 status @ put32 lat @ put32 lon @ put16 alt @ put16 spd @ put16 dir @ ts @ r"

lemma decode_location_body:
  assumes "length ts = 6"
  shows "decode_location (location_body alarm status lat lon alt spd dir ts r) =
    Inr \<lparr>alarm_flags = alarm, status_flags = status,
      latitude = (if bit status 2 then f64_neg (micro_degrees lat) else micro_degrees lat),
      longitude = (if bit status 3 then f64_neg (micro_degrees lon) else micro_degrees lon),
      altitude = alt, speed = f64_div (f64_of_nat (unat spd)) (f64_of_nat 10), direction = dir,
      timestamp = parse_bcd_timestamp ts, gps_fixed = bit status 1, acc_on = bit status 0,
      extras = parse_tlv r []\<rparr>"
  using assms
  by (simp add: decode_location_def location_body_def codec_simps Let_def)

text \<open>
  How close a decoded number is to the quotient it stands for, and the two decimal digits of a byte
  whose nibbles are digits.
\<close>

definition near :: "rat \<Rightarrow> rat \<Rightarrow> nat \<Rightarrow> nat \<Rightarrow> bool" where
  "near x sign n c \<longleftrightarrow> \<bar>x - sign * (of_nat n / of_nat c)\<bar> \<le> of_nat n / of_nat c / 2 ^ 53"

definition two_digits :: "u8 \<Rightarrow> string" where
  "two_digits b = [char_of (48 + unat b div 16), char_of (48 + unat b mod 16)]"

lemma near_neg: "near x 1 n c \<Longrightarrow> near (- x) (- 1) n c"
  by (simp add: near_def abs_minus_commute)

lemma near_micro_degrees:
  "near (f64_val (micro_degrees raw)) 1 (unat raw) 1000000"
  "near (- f64_val (micro_degrees raw)) (- 1) (unat raw) 1000000"
proof -
  show "near (f64_val (micro_degrees raw)) 1 (unat raw) 1000000"
    using micro_degrees_error [of raw] by (simp add: near_def)
  then show "near (- f64_val (micro_degrees raw)) (- 1) (unat raw) 1000000" by (rule near_neg)
qed

lemma near_speed: "near (f64_val (f64_div (f64_of_nat (unat (raw :: u16))) (f64_of_nat 10))) 1 (unat raw) 10"
proof -
  have "unat raw < 2 ^ 16" using unsigned_less [of raw, where 'a = nat] by simp
  then have "f64_div (f64_of_nat (unat raw)) (f64_of_nat 10) = Fin False (round_mag (of_nat (unat raw) / of_nat 10))"
    by (intro f64_div_nats) simp_all
  then show ?thesis using round_mag_scaled [of 10 "unat raw"] by (simp add: near_def)
qed

lemma and_nibble: "(n :: nat) AND 15 = n mod 16"
  using take_bit_eq_mask [of 4 n] by (simp add: take_bit_eq_mod mask_eq_exp_minus_1)

lemma two_digits_byte:
  "[char_of_byte (0x30 + (drop_bit 4 v AND 0x0f)), char_of_byte (0x30 + (v AND 0x0f))] = two_digits v"
proof -
  have hi: "unat (drop_bit 4 v AND 0x0f) = unat v div 16"
  proof -
    have "unat v < 256" using unsigned_less [of v, where 'a = nat] by simp
    then have "unat v div 16 < 16" by simp
    then show ?thesis
      by (simp add: unsigned_and_eq unsigned_drop_bit_eq drop_bit_eq_div and_nibble unat_div)
  qed
  have lo: "unat (v AND 0x0f) = unat v mod 16" by (simp add: unsigned_and_eq and_nibble)
  have add: "unat (0x30 + x) = 48 + unat x" if "unat x < 16" for x :: u8
    using that by (simp add: unat_word_ariths)
  have "unat v div 16 < 16" using unsigned_less [of v, where 'a = nat] by simp
  then show ?thesis by (simp add: two_digits_def char_of_byte_def add hi lo)
qed

lemma timestamp_digits:
  assumes "length ts = 6"
  shows "parse_bcd_timestamp ts = ''20'' @ two_digits (ts ! 0) @ ''-'' @ two_digits (ts ! 1) @ ''-'' @
    two_digits (ts ! 2) @ ''T'' @ two_digits (ts ! 3) @ '':'' @ two_digits (ts ! 4) @ '':'' @ two_digits (ts ! 5) @ ''Z''"
proof -
  have digits: "nibble_digits b = concat (map two_digits b)" for b
    unfolding nibble_digits_def two_digits_byte ..
  obtain a b c d e f where "ts = [a, b, c, d, e, f]"
    using assms by (auto simp: length_Suc_conv numeral_eq_Suc)
  then show ?thesis
    by (simp add: parse_bcd_timestamp_def digits slice_def two_digits_def Let_def)
qed

lemma null_trimmed_Nil [simp]: "null_trimmed [] = []"
  by (simp add: null_trimmed_def string_of_bytes_def)

text \<open>A registration body with a model field of any width.\<close>

definition registration_body ::
    "u16 \<Rightarrow> u16 \<Rightarrow> bytes \<Rightarrow> bytes \<Rightarrow> bytes \<Rightarrow> u8 \<Rightarrow> bytes \<Rightarrow> bytes" where
  "registration_body prov city manuf model dev color plate =
     put16 prov @ put16 city @ manuf @ model @ dev @ [color] @ plate"

lemma decode_registration_body:
  assumes "length manuf = 5" and "length dev = 7"
    and "length model = (if 28 \<le> length model + 8 + length plate then 20 else 8)"
  shows "decode_registration (registration_body prov city manuf model dev color plate) =
    Inr \<lparr>province_id = prov, city_id = city, manuf_id = null_trimmed manuf,
      device_model = null_trimmed model, device_id = null_trimmed dev, plate_color = color,
      plate_number = null_trimmed plate\<rparr>"
  using assms
  by (simp add: decode_registration_def registration_body_def codec_simps Let_def)

section \<open>Properties\<close>

text \<open>
  C14 (location layout). A 28-byte header followed by well-formed TLV items and at most one stray
  byte decodes to exactly its fields: the flags and the booleans derived from them, the coordinates
  as signed degrees and the speed as tenths, each to a relative error of at most a 2^53rd, altitude
  and direction, the two decimal nibbles of each timestamp byte in their places, and for each TLV id
  the value of its last item, each id once.
\<close>

theorem decode_location_layout:
  assumes "length ts = 6" and "\<forall>it\<in>set its. length (snd it) < 256" and "length stray < 2"
  shows "\<exists>l. decode_location
        (location_body alarm status lat lon alt spd dir ts (tlv_items its @ stray)) = Inr l \<and>
      alarm_flags l = alarm \<and> status_flags l = status \<and>
      f64_val (latitude l) = (if bit status 2 then - 1 else 1) * f64_val (micro_degrees lat) \<and>
      f64_val (longitude l) = (if bit status 3 then - 1 else 1) * f64_val (micro_degrees lon) \<and>
      near (f64_val (latitude l)) (if bit status 2 then - 1 else 1) (unat lat) 1000000 \<and>
      near (f64_val (longitude l)) (if bit status 3 then - 1 else 1) (unat lon) 1000000 \<and>
      near (f64_val (speed l)) 1 (unat spd) 10 \<and>
      altitude l = alt \<and> direction l = dir \<and>
      timestamp l = ''20'' @ two_digits (ts ! 0) @ ''-'' @ two_digits (ts ! 1) @ ''-'' @ two_digits (ts ! 2) @ ''T'' @
        two_digits (ts ! 3) @ '':'' @ two_digits (ts ! 4) @ '':'' @ two_digits (ts ! 5) @ ''Z'' \<and>
      (gps_fixed l \<longleftrightarrow> bit status 1) \<and> (acc_on l \<longleftrightarrow> bit status 0) \<and>
      distinct (map fst (extras l)) \<and> map_of (extras l) = map_of (rev its)"
  using decode_location_body [OF assms(1), of alarm status lat lon alt spd dir "tlv_items its @ stray"]
    parse_tlv_items [OF assms(2), of stray "[]"] parse_tlv_short [OF assms(3)]
    distinct_parse_tlv [of "[]" "tlv_items its @ stray"] map_of_add_items [of its "[]"]
  by (simp add: near_micro_degrees near_speed timestamp_digits [OF assms(1)])

theorem decode_location_layout_witness:
  "\<exists>l. decode_location
        (location_body 1 0x0007 31520400 74358700 220 405 45 [0x24, 0x03, 0x15, 0x08, 0x30, 0x00]
          (tlv_items [(0xEB, [0x50]), (0x30, [0x12]), (0xEB, [0x51])] @ [0x01])) = Inr l \<and>
      alarm_flags l = 1 \<and> near (f64_val (latitude l)) (- 1) 31520400 1000000 \<and>
      near (f64_val (speed l)) 1 405 10 \<and> timestamp l = ''2024-03-15T08:30:00Z'' \<and>
      map_of (extras l) = map_of (rev [(0xEB, [0x50]), (0x30, [0x12]), (0xEB, [0x51])])"
proof -
  have "unat (31520400 :: u32) = 31520400" "unat (405 :: u16) = 405" "bit (0x0007 :: u32) 2" by simp_all
  moreover have "two_digits 0x24 = ''24''" "two_digits 0x03 = ''03''" "two_digits 0x15 = ''15''"
    "two_digits 0x08 = ''08''" "two_digits 0x30 = ''30''" "two_digits 0x00 = ''00''" by code_simp+
  ultimately show ?thesis
    using decode_location_layout [of "[0x24, 0x03, 0x15, 0x08, 0x30, 0x00]"
        "[(0xEB, [0x50]), (0x30, [0x12]), (0xEB, [0x51])]" "[0x01]" 1 "0x0007" 31520400 74358700 220 405 45]
    by auto
qed

text \<open>
  C35 (coordinates). Dividing the raw 32-bit micro-degrees in binary64 loses nothing: the nearest
  integer to a million times the decoded coordinate is the raw value, so different raw values
  give different coordinates.
\<close>

theorem micro_degrees_recoverable:
  "\<lfloor>f64_val (micro_degrees raw) * 1000000 + 1 / 2\<rfloor> = int (unat raw)"
proof -
  define n where "n = unat raw"
  define v where "v = f64_val (micro_degrees raw)"
  have "(of_nat n :: rat) < of_nat (2 ^ 32)"
    using unat_u32_less [of raw] by (simp only: n_def of_nat_less_iff)
  then have n: "(of_nat n :: rat) < 2 ^ 32" by simp
  have "\<bar>v - of_nat n / 1000000\<bar> \<le> of_nat n / 1000000 / 2 ^ 53"
    using micro_degrees_error [of raw] by (simp add: n_def v_def)
  moreover have "of_nat n / 1000000 / 2 ^ 53 < (1 / 2000000 :: rat)" using n by simp
  ultimately have "- (1 / 2000000) < v - of_nat n / 1000000" "v - of_nat n / 1000000 < 1 / 2000000"
    by linarith+
  then have "of_nat n \<le> v * 1000000 + 1 / 2" "v * 1000000 + 1 / 2 < of_nat n + 1"
    by (simp_all add: field_simps)
  then show ?thesis unfolding v_def [symmetric] n_def [symmetric] by (intro floor_unique) auto
qed

text \<open>
  Location errors. A location body is refused exactly when it is shorter than 28 bytes, and
  the error carries its length; nothing in the TLV trailer can make it fail.
\<close>

lemma decode_location_total:
  "(decode_location bdy = Inl err \<longleftrightarrow> length bdy < 28 \<and> err = LocationTooShort (length bdy)) \<and>
   ((\<exists>l. decode_location bdy = Inr l \<and> distinct (map fst (extras l))) \<longleftrightarrow> 28 \<le> length bdy)"
  by (auto simp: decode_location_def Let_def distinct_parse_tlv split: prod.splits)

text \<open>
  TLV trailer. A malformed last item, whose length byte promises more than is left, ends the
  loop without losing the items before it.
\<close>

lemma malformed_tlv_keeps_earlier_items:
  assumes "\<forall>it\<in>set its. length (snd it) < 256" and "length r < unat len"
  shows "parse_tlv (tlv_items its @ i # len # r) [] = parse_tlv (tlv_items its) [] \<and>
    map_of (parse_tlv (tlv_items its @ i # len # r) []) = map_of (rev its)"
  using parse_tlv_items [OF assms(1), of "i # len # r" "[]"] parse_tlv_items [OF assms(1), of "[]" "[]"]
    parse_tlv_overlong [OF assms(2), of i] map_of_add_items [of its "[]"]
  by simp

text \<open>
  C38 (registration layouts). The standard layout (20-byte model) is read correctly for every
  plate, the compact one (8-byte model) for every plate shorter than 12 bytes.
\<close>

theorem decode_registration_layouts:
  assumes "length manuf = 5" and "length dev = 7"
    and "length model = 20 \<or> length model = 8 \<and> length plate < 12"
  shows "decode_registration (registration_body prov city manuf model dev color plate) =
    Inr \<lparr>province_id = prov, city_id = city, manuf_id = null_trimmed manuf,
      device_model = null_trimmed model, device_id = null_trimmed dev, plate_color = color,
      plate_number = null_trimmed plate\<rparr>"
  using assms by (intro decode_registration_body) auto

theorem decode_registration_layouts_witness:
  "decode_registration (registration_body 6 1 [0x53, 0x49, 0x4d, 0x43, 0x4f]
      [0x50, 0x39, 0x30, 0x31, 0, 0, 0, 0] (replicate 7 0x37) 2 [0x41, 0x42]) =
    Inr \<lparr>province_id = 6, city_id = 1, manuf_id = null_trimmed [0x53, 0x49, 0x4d, 0x43, 0x4f],
      device_model = null_trimmed [0x50, 0x39, 0x30, 0x31, 0, 0, 0, 0],
      device_id = null_trimmed (replicate 7 0x37), plate_color = 2,
      plate_number = null_trimmed [0x41, 0x42]\<rparr>"
  by (rule decode_registration_layouts) simp_all

text \<open>
  Compact layout misread. A compact body with a plate of 12 bytes or more is taken for the
  standard layout: its model, device id, colour and first four plate bytes become the model.
\<close>

theorem compact_registration_misread:
  assumes "length manuf = 5" and "length model = 8" and "length dev = 7" and "12 \<le> length plate"
  shows "\<exists>info. decode_registration (registration_body prov city manuf model dev color plate) = Inr info \<and>
    device_model info = null_trimmed (model @ dev @ [color] @ take 4 plate) \<and>
    device_id info = null_trimmed (take 7 (drop 4 plate))"
proof -
  let ?model = "model @ dev @ [color] @ take 4 plate"
  let ?dev = "take 7 (drop 4 plate)"
  have "plate = take 11 plate @ plate ! 11 # drop (Suc 11) plate"
    using assms(4) by (intro id_take_nth_drop) simp
  moreover have "take (4 + 7) plate = take 4 plate @ ?dev" by (rule take_add)
  ultimately have plate: "plate = take 4 plate @ ?dev @ [plate ! 11] @ drop 12 plate" by simp
  have "registration_body prov city manuf model dev color plate =
      registration_body prov city manuf ?model ?dev (plate ! 11) (drop 12 plate)"
    by (subst (1) plate) (simp add: registration_body_def)
  moreover have "decode_registration (registration_body prov city manuf ?model ?dev (plate ! 11) (drop 12 plate)) =
    Inr \<lparr>province_id = prov, city_id = city, manuf_id = null_trimmed manuf,
      device_model = null_trimmed ?model, device_id = null_trimmed ?dev, plate_color = plate ! 11,
      plate_number = null_trimmed (drop 12 plate)\<rparr>"
    by (rule decode_registration_body) (use assms in auto)
  ultimately show ?thesis by simp
qed

theorem compact_registration_misread_witness:
  "\<exists>info. decode_registration (registration_body 6 1 (replicate 5 0x53) (replicate 8 0x50)
        (replicate 7 0x37) 2 (replicate 12 0x41)) = Inr info \<and>
    device_model info = null_trimmed (replicate 8 0x50 @ replicate 7 0x37 @ [2] @ take 4 (replicate 12 0x41)) \<and>
    device_id info = null_trimmed (take 7 (drop 4 (replicate 12 0x41)))"
  by (rule compact_registration_misread) simp_all

text \<open>
  Stripped layout misread. The comments allow a 17-byte body without a model field, but the
  first eight bytes after the manufacturer are always taken as the model: every body of 17 to 23
  bytes decodes to an empty device id.
\<close>

lemma stripped_registration_has_no_device_id:
  assumes "17 \<le> length bdy" and "length bdy < 24"
  shows "\<exists>info. decode_registration bdy = Inr info \<and> device_id info = [] \<and>
    device_model info = null_trimmed (take 8 (drop 9 bdy))"
proof -
  have "snd (read_u16 0 bdy) = drop 2 bdy" "snd (read_u16 0 (drop 2 bdy)) = drop 4 bdy"
    by (simp_all add: u16c.dec_rest_drop)
  then show ?thesis
    using assms
    by (simp add: decode_registration_def Let_def split_beta read_buf_def)
qed

end
