(* ===== verification/Samples.thy ===== *)
theory Samples
  imports Handler Decoder_Laws
begin

text \<open>
  Concrete inputs on which the properties are instantiated: frames, an outside world in which
  everything works, a configuration.
\<close>

definition sample_frame :: "u16 \<Rightarrow> string \<Rightarrow> bytes \<Rightarrow> frame" where
  "sample_frame i p b = \<lparr>msg_id = i, phone = p, seq_num = 7, body = b, is_subpackage = False,
     total_pkg = 0, pkg_seq = 0\<rparr>"

definition sample_env :: "redis_reply \<Rightarrow> env" where
  "sample_env r = \<lparr>now_nano = 1700000000000000000, now_rfc3339 = ''2023-11-14T22:13:20Z'',
     now_sql = ''2023-11-14 22:13:20'', write_fails = (\<lambda>_. False), redis_get = (\<lambda>_. r),
     redis_set_fails = (\<lambda>_ _. False), db_select = (\<lambda>_ _. NoRows),
     db_exec_fails = (\<lambda>_ _. False)\<rparr>"

lemma sample_frame_fields [simp]:
  "msg_id (sample_frame i p b) = i" "phone (sample_frame i p b) = p" "body (sample_frame i p b) = b"
  "seq_num (sample_frame i p b) = 7"
  by (simp_all add: sample_frame_def)

lemma sample_env_fields [simp]:
  "redis_get (sample_env r) k = r" "write_fails (sample_env r) bs = False"
  "db_select (sample_env r) q p = NoRows" "db_exec_fails (sample_env r) q a = False"
  "redis_set_fails (sample_env r) k v = False"
  by (simp_all add: sample_env_def)

lemma empty_world_fields [simp]:
  "sessions empty_world k = new_session [] 0" "tasks empty_world = []" "events empty_world = []"
  "registry empty_world = []" "metrics empty_world = new_metrics" "running empty_world = []"
  "next_sid empty_world = 0"
  by (simp_all add: empty_world_def)

lemma new_session_fields [simp]:
  "s_state (new_session a n) = Connected" "s_phone (new_session a n) = []"
  "out_seq (new_session a n) = 0" "conn_open (new_session a n)" "s_imei (new_session a n) = []"
  "remote_addr (new_session a n) = a"
  by (simp_all add: new_session_def)

definition sample_config :: config where
  "sample_config = \<lparr>tcp_addr = '':7018'', redis_addr = ''redis:6379'', redis_password = [],
     redis_db = 0, redis_pool_size = 100, stream_key = ''jt808:telemetry'', stream_max_len = 100000,
     session_prefix = ''jt808:session:'', auth_token_prefix = ''jt808:authtoken:'',
     online_z_key = ''jt808:online'', cmd_channel = ''jt808:cmd:'', auth_timeout = 30 * second,
     heartbeat_timeout = 180 * second, write_timeout = 10 * second, db_enabled = False,
     db_host = ''mysql'', db_port = ''3306'', db_user = ''laravel'', db_password = [],
     db_name = ''laravel'', db_device_type_id = 1, db_devices_table = ''devices'',
     db_imei_column = ''imei'', db_broadcast_column = ''broadcast_id'', db_status_column = ''status'',
     db_type_id_column = ''device_type_id'', db_name_column = ''name'', db_notes_column = ''notes'',
     db_created_at_column = ''created_at'', db_updated_at_column = ''updated_at'',
     http_addr = '':9090'', debug = False, server_id = ''replica''\<rparr>"

text \<open>Session 0 is authenticated as phone 12 and registered; session 1 has just connected.\<close>

definition sample_world :: world where
  "sample_world = empty_world\<lparr>sessions := (\<lambda>_. new_session [] 0)(0 := (new_session [] 0)\<lparr>
       s_state := Authenticated, s_phone := ''12''\<rparr>),
     next_sid := 2, running := [0, 1], registry := [(''12'', 0)]\<rparr>"

lemma sample_world_fields [simp]:
  "sessions sample_world 0 = (new_session [] 0)\<lparr>s_state := Authenticated, s_phone := ''12''\<rparr>"
  "sessions sample_world (Suc k) = new_session [] 0" "tasks sample_world = []"
  "events sample_world = []" "metrics sample_world = new_metrics"
  "reg_get ''12'' sample_world = Some 0" "reg_get [] sample_world = None" "running sample_world = [0, 1]"
  by (simp_all add: sample_world_def reg_get_def table_get_def)

text \<open>A registration with an 8-byte model field, as the device sends it.\<close>

definition sample_registration :: frame where
  "sample_registration = sample_frame msg_registration ''12'' (registration_body 6 1
     [0x53, 0x49, 0x4d, 0x43, 0x4f] [0x50, 0x39, 0x30, 0x31, 0, 0, 0, 0] (replicate 7 0x37) 2 [0x41, 0x42])"

lemma sample_registration_fields [simp]:
  "msg_id sample_registration = msg_registration" "phone sample_registration = ''12''"
  by (simp_all add: sample_registration_def)

lemma sample_registration_decodes:
  "decode_registration (body sample_registration) =
     Inr \<lparr>province_id = 6, city_id = 1, manuf_id = null_trimmed [0x53, 0x49, 0x4d, 0x43, 0x4f],
       device_model = null_trimmed [0x50, 0x39, 0x30, 0x31, 0, 0, 0, 0],
       device_id = null_trimmed (replicate 7 0x37), plate_color = 2,
       plate_number = null_trimmed [0x41, 0x42]\<rparr>"
  unfolding sample_registration_def sample_frame_fields by (rule decode_registration_body) simp_all

end
