(* ===== verification/Handler_Laws.thy ===== *)
theory Handler_Laws
  imports Handler_Frame Samples
begin

text \<open>
  The functional behaviour of the dispatcher: the authentication gate, registration and
  authentication on every branch, heartbeats, locations and batches, and the responses.
\<close>

section \<open>Helper lemmas: socket writes\<close>

fun is_write :: "event \<Rightarrow> bool" where
  "is_write (ConnWrite _ _ _ _) = True"
| "is_write _ = False"

definition writes :: "world \<Rightarrow> event list" where
  "writes w = filter is_write (events w)"

lemma writes_simps [simp]:
  "writes (upd_session sid g w) = writes w" "writes (spawn t w) = writes w"
  "writes (count c w) = writes w" "writes (reg_heartbeat e sid w) = writes w"
  "writes (record_heartbeat st p w) = writes w"
  "writes (emit ev w) = writes w @ (if is_write ev then [ev] else [])"
  "writes (fst (do_send e sid i b d w)) =
     writes w @ [ConnWrite sid (sent_bytes sid i b w) d (write_fails e (sent_bytes sid i b w))]"
  "writes (reg_register sid w) = writes w"
  "writes (fst (store_auth_token e cfg p tk w)) = writes w"
  "writes (fst (validate_auth_token e cfg p tk w)) = writes w"
  by (simp_all add: writes_def reg_register_events store_auth_token_def validate_auth_token_def
      split: option.split)

lemma writes_check_or_create:
  "check_or_create e st b m d w = (r, w') \<Longrightarrow> writes w' = writes w"
  by (auto simp: check_or_create_def Let_def split: option.splits select_reply.splits if_splits)

lemma batch_loop_kept [simp]:
  "writes (batch_loop sid b off n w) = writes w"
  "sessions (batch_loop sid b off n w) = sessions w"
  "events (batch_loop sid b off n w) = events w"
  "registry (batch_loop sid b off n w) = registry w"
  by (induction n arbitrary: off w) (auto simp: Let_def split: sum.split)

section \<open>Helper lemmas: the state of the session\<close>

lemma state_after [simp]:
  "s_state (sessions (handle_heartbeat e cfg st sid f w) sid) = s_state (sessions w sid)"
  "s_state (sessions (handle_location e cfg sid f w) sid) = s_state (sessions w sid)"
  "s_state (sessions (handle_batch_location e cfg sid f w) sid) = s_state (sessions w sid)"
  by (auto simp: handle_heartbeat_def handle_location_def handle_batch_location_def Let_def
      split_beta do_ack_send split: sum.split)

lemma state_after_registration:
  "s_state (sessions (handle_registration e cfg st sid f w) sid) \<in> {s_state (sessions w sid), Registered}"
proof (cases "decode_registration (body f)")
  case (Inl a)
  then show ?thesis by (simp add: handle_registration_def do_ack_send)
next
  case (Inr info)
  obtain r err w' where c: "check_or_create e st (phone f) (device_model info) (device_id info) w = ((r, err), w')"
    by (metis prod.exhaust)
  note kept = store.fields_kept [OF c]
  from Inr c kept show ?thesis
    by (auto simp: handle_registration_def reject_registration_def accept_registration_def Let_def
        split_beta store_auth_token_def split: option.split check_result.split)
qed

text \<open>The session as \<open>handle_authentication\<close> sees it: with a phone.\<close>

definition with_phone :: "string \<Rightarrow> nat \<Rightarrow> world \<Rightarrow> world" where
  "with_phone p sid w = (if s_phone (sessions w sid) = []
     then upd_session sid (\<lambda>s. s\<lparr>s_phone := p\<rparr>) w else w)"

lemma with_phone_fields [simp]:
  "registry (with_phone p sid w) = registry w" "tasks (with_phone p sid w) = tasks w"
  "metrics (with_phone p sid w) = metrics w" "events (with_phone p sid w) = events w"
  "writes (with_phone p sid w) = writes w"
  "s_state (sessions (with_phone p sid w) k) = s_state (sessions w k)"
  "s_phone (sessions (with_phone p sid w) sid) =
     (if s_phone (sessions w sid) = [] then p else s_phone (sessions w sid))"
  by (simp_all add: with_phone_def)

text \<open>Whether the reply of Redis lets the device in; an error does.\<close>

definition token_accepted :: "env \<Rightarrow> config \<Rightarrow> frame \<Rightarrow> bool" where
  "token_accepted e cfg f \<longleftrightarrow>
     redis_get e (auth_key cfg (phone f)) = RedisVal (string_of_bytes (body f)) \<or>
     redis_get e (auth_key cfg (phone f)) = RedisErr"

lemma valid_iff:
  "(case snd (validate_auth_token e cfg (phone f) (string_of_bytes (body f)) w) of
      None \<Rightarrow> True | Some v \<Rightarrow> v) = token_accepted e cfg f"
  by (auto simp: validate_auth_token_def token_accepted_def split: redis_reply.split)

lemma handle_authentication_alt:
  "handle_authentication e cfg sid f w =
     (let v = fst (validate_auth_token e cfg (phone f) (string_of_bytes (body f)) (with_phone (phone f) sid w))
      in if token_accepted e cfg f then
           (let v = fst (do_ack e sid f result_ok (write_timeout cfg)
                  (reg_register sid (upd_session sid (set_state Authenticated) v)));
                v = count count_auth_success v
            in spawn (PublishEvent ''device.authenticated'' (phone f)
                 [(''phone'', PStr (phone f)), (''imei'', PStr (s_imei (sessions v sid))),
                  (''addr'', PStr (remote_addr (sessions v sid))),
                  (''login_at'', PStr (now_rfc3339 e))]) v)
         else spawn (CloseAfter (500 * millisecond) sid) (count count_auth_violation
                (fst (do_ack e sid f result_fail (write_timeout cfg) v))))"
  using valid_iff [of e cfg f] by (simp add: handle_authentication_def with_phone_def Let_def split_beta)

lemma validate_fields [simp]:
  "sessions (fst (validate_auth_token e cfg p t w)) = sessions w"
  "registry (fst (validate_auth_token e cfg p t w)) = registry w"
  "metrics (fst (validate_auth_token e cfg p t w)) = metrics w"
  "tasks (fst (validate_auth_token e cfg p t w)) = tasks w"
  "events (fst (validate_auth_token e cfg p t w)) = events w @ [Redis [GetKey (auth_key cfg p)]]"
  by (simp_all add: validate_auth_token_def)

lemma reg_get_cong: "registry v = registry w \<Longrightarrow> reg_get p v = reg_get p w"
  by (simp add: reg_get_def)

text \<open>Registering leaves the session's own record alone.\<close>

lemma reg_register_self [simp]: "sessions (reg_register sid w) sid = sessions w sid"
  by (auto simp: reg_register_sessions split: option.split)

lemma authenticated_state:
  "s_state (sessions (handle_authentication e cfg sid f w) sid) =
     (if token_accepted e cfg f then Authenticated else s_state (sessions w sid))"
  by (simp add: handle_authentication_alt Let_def do_ack_send)

lemma authenticated_registry:
  assumes "token_accepted e cfg f"
  shows "reg_get p (handle_authentication e cfg sid f w) =
    (if p = (if s_phone (sessions w sid) = [] then phone f else s_phone (sessions w sid))
     then Some sid else reg_get p w)"
proof -
  let ?v = "upd_session sid (set_state Authenticated) (fst (validate_auth_token e cfg (phone f)
    (string_of_bytes (body f)) (with_phone (phone f) sid w)))"
  have "registry (handle_authentication e cfg sid f w) = registry (reg_register sid ?v)"
    using assms by (simp add: handle_authentication_alt Let_def do_ack_send)
  then have "reg_get p (handle_authentication e cfg sid f w) = reg_get p (reg_register sid ?v)"
    by (rule reg_get_cong)
  then show ?thesis by (simp add: reg_register_get) (simp add: reg_get_def)
qed

lemma msg_ids_distinct [simp]:
  "msg_authentication \<noteq> msg_heartbeat" "msg_authentication \<noteq> msg_registration"
  "msg_registration \<noteq> msg_heartbeat" "msg_location_report \<noteq> msg_heartbeat"
  "msg_location_report \<noteq> msg_registration" "msg_location_report \<noteq> msg_authentication"
  "msg_batch_location \<noteq> msg_heartbeat" "msg_batch_location \<noteq> msg_registration"
  "msg_batch_location \<noteq> msg_authentication" "msg_batch_location \<noteq> msg_location_report"
  "msg_terminal_resp \<noteq> msg_heartbeat" "msg_terminal_resp \<noteq> msg_registration"
  "msg_terminal_resp \<noteq> msg_authentication" "msg_terminal_resp \<noteq> msg_location_report"
  "msg_terminal_resp \<noteq> msg_batch_location"
  by (simp_all add: msg_ids)

lemma allowed_ids [simp]:
  "allowed_before_auth msg_registration" "allowed_before_auth msg_authentication"
  "allowed_before_auth msg_location_report" "allowed_before_auth msg_batch_location"
  "allowed_before_auth msg_terminal_resp"
  by (simp_all add: allowed_before_auth_def)

text \<open>\<open>dispatch\<close> on each message it knows, past the gate.\<close>

abbreviation counted :: "frame \<Rightarrow> world \<Rightarrow> world" where
  "counted f w \<equiv> count (count_frame (msg_name (msg_id f))) w"

lemma dispatch_cases:
  "msg_id f = msg_registration \<Longrightarrow> dispatch e cfg st sid f w = handle_registration e cfg st sid f (counted f w)"
  "msg_id f = msg_authentication \<Longrightarrow> dispatch e cfg st sid f w = handle_authentication e cfg sid f (counted f w)"
  "msg_id f = msg_location_report \<Longrightarrow> dispatch e cfg st sid f w = handle_location e cfg sid f (counted f w)"
  "msg_id f = msg_batch_location \<Longrightarrow> dispatch e cfg st sid f w = handle_batch_location e cfg sid f (counted f w)"
  "msg_id f = msg_heartbeat \<Longrightarrow> \<not> s_state (sessions w sid) < Authenticated \<Longrightarrow>
     dispatch e cfg st sid f w = handle_heartbeat e cfg st sid f (counted f w)"
  "msg_id f = msg_terminal_resp \<Longrightarrow> dispatch e cfg st sid f w = counted f w"
  by (simp_all add: dispatch_def Let_def)

lemma string_of_bytes_of_string [simp]: "string_of_bytes (bytes_of_string s) = s"
  by (simp add: string_of_bytes_def bytes_of_string_def comp_def byte_simps)

text \<open>The session's phone once authentication has given it one.\<close>

definition auth_phone :: "nat \<Rightarrow> frame \<Rightarrow> world \<Rightarrow> string" where
  "auth_phone sid f w = (if s_phone (sessions w sid) = [] then phone f else s_phone (sessions w sid))"

lemma with_phone_sessions:
  "sessions (with_phone p sid w) =
     (sessions w)(sid := (sessions w sid)\<lparr>s_phone := if s_phone (sessions w sid) = [] then p
        else s_phone (sessions w sid)\<rparr>)"
  by (auto simp: with_phone_def)

text \<open>The world when the accepting branch calls \<open>Register\<close>.\<close>

lemma accepted_authentication:
  assumes "token_accepted e cfg f"
  shows "\<exists>v. registry v = registry w \<and> events v = events w @ [Redis [GetKey (auth_key cfg (phone f))]] \<and>
    sessions v = (sessions w)(sid := (sessions w sid)\<lparr>s_phone := auth_phone sid f w, s_state := Authenticated\<rparr>) \<and>
    metrics v = metrics w \<and> tasks v = tasks w \<and>
    handle_authentication e cfg sid f w =
      (let v = count count_auth_success (fst (do_ack e sid f result_ok (write_timeout cfg) (reg_register sid v)))
       in spawn (PublishEvent ''device.authenticated'' (phone f)
            [(''phone'', PStr (phone f)), (''imei'', PStr (s_imei (sessions v sid))),
             (''addr'', PStr (remote_addr (sessions v sid))), (''login_at'', PStr (now_rfc3339 e))]) v)"
  by (rule exI [of _ "upd_session sid (set_state Authenticated) (fst (validate_auth_token e cfg (phone f)
        (string_of_bytes (body f)) (with_phone (phone f) sid w)))"])
    (simp add: handle_authentication_alt Let_def assms with_phone_sessions auth_phone_def set_state_def)

text \<open>Dispatching an accepted authentication.\<close>

lemma authenticated_dispatch:
  assumes "msg_id f = msg_authentication" and "token_accepted e cfg f"
  shows "reg_get q (dispatch e cfg st sid f w) =
      (if q = auth_phone sid f w then Some sid else reg_get q w)" (is ?registry)
    and "sessions (dispatch e cfg st sid f w) k =
      (if k = sid then (sessions w sid)\<lparr>s_phone := auth_phone sid f w, s_state := Authenticated,
         out_seq := out_seq (sessions w sid) + 1\<rparr>
       else if reg_get (auth_phone sid f w) w = Some k then close_sess (sessions w k)
       else sessions w k)" (is ?sessions)
    and "\<exists>out err. events (dispatch e cfg st sid f w) = events w @ [Redis [GetKey (auth_key cfg (phone f))]] @
       (case reg_get (auth_phone sid f w) w of Some old \<Rightarrow> if old \<noteq> sid then [ConnClose old] else []
        | None \<Rightarrow> []) @ [ConnWrite sid out (write_timeout cfg) err]" (is ?events)
    and "RegisterPipe sid \<in> set (tasks (dispatch e cfg st sid f w))" (is ?tasks)
proof -
  let ?w = "counted f w"
  let ?p = "auth_phone sid f w"
  have p: "auth_phone sid f ?w = ?p" by (simp add: auth_phone_def)
  obtain v where v: "registry v = registry ?w"
    "events v = events ?w @ [Redis [GetKey (auth_key cfg (phone f))]]"
    "sessions v = (sessions ?w)(sid := (sessions ?w sid)\<lparr>s_phone := ?p, s_state := Authenticated\<rparr>)"
    "dispatch e cfg st sid f w =
      (let v = count count_auth_success (fst (do_ack e sid f result_ok (write_timeout cfg) (reg_register sid v)))
       in spawn (PublishEvent ''device.authenticated'' (phone f)
            [(''phone'', PStr (phone f)), (''imei'', PStr (s_imei (sessions v sid))),
             (''addr'', PStr (remote_addr (sessions v sid))), (''login_at'', PStr (now_rfc3339 e))]) v)"
    using accepted_authentication [OF assms(2), of ?w sid] assms(1) p by (auto simp: dispatch_cases)
  have gv: "reg_get q v = reg_get q w" for q
    using v(1) by (simp add: reg_get_def)
  have "reg_get q (dispatch e cfg st sid f w) = reg_get q (reg_register sid v)"
    by (rule reg_get_cong) (simp add: v(4) Let_def do_ack_send)
  then show ?registry by (simp add: reg_register_get gv v(3))
  have "sessions (dispatch e cfg st sid f w) k =
      (if k = sid then (sessions v sid)\<lparr>out_seq := out_seq (sessions v sid) + 1\<rparr>
       else sessions (reg_register sid v) k)"
    by (simp add: v(4) Let_def do_ack_send)
  then show ?sessions by (auto simp: reg_register_sessions gv v(3) split: option.split)
  have "\<exists>out err. events (dispatch e cfg st sid f w) =
      events (reg_register sid v) @ [ConnWrite sid out (write_timeout cfg) err]"
    by (simp add: v(4) Let_def do_ack_send)
  then show ?events by (auto simp: reg_register_events gv v(2,3) split: option.split)
  show ?tasks by (simp add: v(4) Let_def do_ack_send)
qed

lemma refused_dispatch:
  assumes "msg_id f = msg_authentication" and "\<not> token_accepted e cfg f"
  shows "sessions (dispatch e cfg st sid f w) = (sessions w)(sid := (sessions w sid)\<lparr>
      s_phone := auth_phone sid f w, out_seq := out_seq (sessions w sid) + 1\<rparr>)"
    and "reg_get q (dispatch e cfg st sid f w) = reg_get q w"
  using assms by (simp_all add: dispatch_cases handle_authentication_alt Let_def do_ack_send
      with_phone_sessions auth_phone_def reg_get_def)

section \<open>Properties: the gate and authentication\<close>

text \<open>
  C3 (authentication gate). Before authentication a message outside the allowed five has no effect
  but its counter and one acknowledgement: no goroutine, no registry change, no change of the
  session beyond the sequence number.
\<close>

theorem unauthenticated_message_gated:
  assumes "s_state (sessions w sid) < Authenticated" and "\<not> allowed_before_auth (msg_id f)"
  shows "tasks (dispatch e cfg st sid f w) = tasks w \<and>
    registry (dispatch e cfg st sid f w) = registry w \<and>
    metrics (dispatch e cfg st sid f w) = count_frame (msg_name (msg_id f)) (metrics w) \<and>
    sessions (dispatch e cfg st sid f w) =
      (sessions w)(sid := (sessions w sid)\<lparr>out_seq := out_seq (sessions w sid) + 1\<rparr>) \<and>
    (\<exists>err. events (dispatch e cfg st sid f w) = events w @ [ConnWrite sid
      (encode_frame msg_platform_resp (s_phone (sessions w sid)) (next_seq (sessions w sid))
        (build_platform_ack (seq_num f) (msg_id f) result_ok)) (write_timeout cfg) err])"
  using assms by (simp_all add: dispatch_def Let_def do_ack_send sent_bytes_def)

theorem unauthenticated_message_gated_witness:
  "tasks (dispatch (sample_env RedisNil) sample_config None 0 (sample_frame msg_heartbeat ''12'' []) empty_world) = []"
  using unauthenticated_message_gated [of empty_world 0 "sample_frame msg_heartbeat ''12'' []"
      "sample_env RedisNil" sample_config None]
  by (simp add: allowed_before_auth_def msg_ids)

text \<open>
  Authentication is sound. Handling a frame makes a session authenticated only if it is the
  frame's own session, the frame is an authentication, and Redis holds the presented token for the
  frame's phone or could not answer (the lookup fails open).
\<close>

theorem authentication_sound:
  assumes "s_state (sessions (dispatch e cfg st sid f w) k) = Authenticated"
    and "s_state (sessions w k) \<noteq> Authenticated"
  shows "k = sid \<and> msg_id f = msg_authentication \<and>
    (redis_get e (auth_key cfg (phone f)) = RedisVal (string_of_bytes (body f)) \<or>
     redis_get e (auth_key cfg (phone f)) = RedisErr)"
proof -
  have k: "k = sid"
  proof (rule ccontr)
    assume "k \<noteq> sid"
    then have "sessions (dispatch e cfg st sid f w) k \<in> {sessions w k, close_sess (sessions w k)}"
      using frame_dispatch [of sid w e cfg st f] unfolding session_frame_def by blast
    with assms show False by auto
  qed
  have a: "msg_id f = msg_authentication"
  proof (rule ccontr)
    assume "msg_id f \<noteq> msg_authentication"
    then have "s_state (sessions (dispatch e cfg st sid f w) sid) \<in> {s_state (sessions w sid), Registered}"
      using state_after_registration [of e cfg st sid f "counted f w"]
      by (auto simp: dispatch_def Let_def do_ack_send)
    with assms k show False by auto
  qed
  with assms k have "token_accepted e cfg f"
    by (simp add: dispatch_cases authenticated_state split: if_splits)
  with k a show ?thesis by (simp add: token_accepted_def)
qed

theorem authentication_sound_witness:
  "0 = (0::nat) \<and> msg_authentication = msg_authentication \<and>
    (redis_get (sample_env RedisErr) (auth_key sample_config ''12'') = RedisVal (string_of_bytes []) \<or>
     redis_get (sample_env RedisErr) (auth_key sample_config ''12'') = RedisErr)"
  using authentication_sound [of "sample_env RedisErr" sample_config None 0
      "sample_frame msg_authentication ''12'' []" empty_world 0]
  by (simp add: dispatch_cases authenticated_state token_accepted_def)

text \<open>
  C6 (takeover). An accepted authentication makes its session the registered one for its phone;
  the session registered before, if another one, is closed before the acknowledgement is written,
  and no other session and no other phone's entry is touched.
\<close>

theorem authentication_takeover:
  assumes "msg_id f = msg_authentication" and "token_accepted e cfg f"
  shows "let w' = dispatch e cfg st sid f w; p = auth_phone sid f w in
    s_state (sessions w' sid) = Authenticated \<and> s_phone (sessions w' sid) = p \<and>
    (\<forall>q. reg_get q w' = (if q = p then Some sid else reg_get q w)) \<and>
    (\<forall>k. k = sid \<or> sessions w' k =
       (if reg_get p w = Some k then close_sess (sessions w k) else sessions w k)) \<and>
    (\<exists>out err. events w' = events w @ [Redis [GetKey (auth_key cfg (phone f))]] @
       (case reg_get p w of Some old \<Rightarrow> if old \<noteq> sid then [ConnClose old] else [] | None \<Rightarrow> []) @
       [ConnWrite sid out (write_timeout cfg) err])"
  using authenticated_dispatch [OF assms, where st = st and sid = sid and w = w] by (simp add: Let_def)

theorem authentication_takeover_witness:
  "reg_get ''12'' (dispatch (sample_env (RedisVal [])) sample_config None 1
     (sample_frame msg_authentication ''12'' []) sample_world) = Some 1 \<and>
   s_state (sessions (dispatch (sample_env (RedisVal [])) sample_config None 1
     (sample_frame msg_authentication ''12'' []) sample_world) 0) = Closing"
  using authentication_takeover [of "sample_frame msg_authentication ''12'' []" "sample_env (RedisVal [])"
      sample_config None 1 sample_world]
  by (auto simp: token_accepted_def string_of_bytes_def auth_phone_def Let_def dest: spec [of _ "0 :: nat"])

text \<open>
  C33 (refusal). A token Redis does not hold for the frame's phone, or holds differently, is
  answered with result 1; the session keeps its state, the registry is untouched, the violation is
  counted and the connection is closed after half a second.
\<close>

theorem authentication_refused:
  assumes "msg_id f = msg_authentication"
    and "redis_get e (auth_key cfg (phone f)) = RedisNil \<or>
      (\<exists>t. redis_get e (auth_key cfg (phone f)) = RedisVal t \<and> t \<noteq> string_of_bytes (body f))"
  shows "let w' = dispatch e cfg st sid f w in
    registry w' = registry w \<and> tasks w' = tasks w @ [CloseAfter (500 * millisecond) sid] \<and>
    sessions w' = (sessions w)(sid := (sessions w sid)\<lparr>s_phone := auth_phone sid f w,
      out_seq := out_seq (sessions w sid) + 1\<rparr>) \<and>
    metrics w' = count_auth_violation (count_frame ''authentication'' (metrics w)) \<and>
    (\<exists>err. events w' = events w @ [Redis [GetKey (auth_key cfg (phone f))], ConnWrite sid
      (encode_frame msg_platform_resp (auth_phone sid f w) (next_seq (sessions w sid))
        (build_platform_ack (seq_num f) msg_authentication result_fail)) (write_timeout cfg) err])"
proof -
  have "\<not> token_accepted e cfg f" using assms(2) by (auto simp: token_accepted_def)
  then show ?thesis
    using assms(1)
    by (simp add: dispatch_cases handle_authentication_alt Let_def do_ack_send with_phone_sessions
        auth_phone_def msg_name_def sent_bytes_def next_seq_def)
qed

theorem authentication_refused_witness:
  "registry (dispatch (sample_env RedisNil) sample_config None 1 (sample_frame msg_authentication ''12'' [])
     sample_world) = registry sample_world"
  using authentication_refused [of "sample_frame msg_authentication ''12'' []" "sample_env RedisNil"
      sample_config None 1 sample_world] by (simp add: Let_def)

text \<open>
  C29 (takeover without the token). The phone of a session is set before its token is checked and
  never corrected: a connection that first fails to authenticate as \<open>victim\<close> and then
  authenticates with a token of another phone becomes the registered session of the victim, whose
  own session is closed.
\<close>

theorem failed_attempt_then_takeover:
  assumes "s_phone (sessions w sid) = []" and "victim \<noteq> []" and "reg_get victim w = Some k" and "k \<noteq> sid"
    and "msg_id f1 = msg_authentication" and "phone f1 = victim" and "\<not> token_accepted e1 cfg f1"
    and "msg_id f2 = msg_authentication" and "phone f2 \<noteq> victim" and "token_accepted e2 cfg f2"
  shows "let w' = dispatch e2 cfg st sid f2 (dispatch e1 cfg st sid f1 w) in
    reg_get victim w' = Some sid \<and> reg_get (phone f2) w' = reg_get (phone f2) w \<and>
    s_state (sessions w' sid) = Authenticated \<and> s_phone (sessions w' sid) = victim \<and>
    \<not> conn_open (sessions w' k)"
proof -
  let ?v = "dispatch e1 cfg st sid f1 w"
  have ph: "auth_phone sid f2 ?v = victim"
    using refused_dispatch(1) [OF assms(5,7), of st sid w] assms(1,2,6) by (simp add: auth_phone_def)
  note one = authenticated_dispatch(1,2) [OF assms(8,10), where st = st and sid = sid and w = ?v, unfolded ph]
  show ?thesis
    using assms(3,4,9) refused_dispatch [OF assms(5,7), where st = st and sid = sid and w = w] by (simp add: Let_def one)
qed

theorem failed_attempt_then_takeover_witness:
  "reg_get ''12'' (dispatch (sample_env (RedisVal [])) sample_config None 1 (sample_frame msg_authentication ''34'' [])
     (dispatch (sample_env RedisNil) sample_config None 1 (sample_frame msg_authentication ''12'' []) sample_world))
   = Some 1"
  using failed_attempt_then_takeover [of sample_world 1 "''12''" 0 "sample_frame msg_authentication ''12'' []"
      "sample_env RedisNil" sample_config "sample_frame msg_authentication ''34'' []" "sample_env (RedisVal [])" None]
  by (simp add: token_accepted_def string_of_bytes_def Let_def)

text \<open>
  C31 (a closed session comes back). Closing is above Authenticated in the state order, so frames
  still buffered on a closed connection pass the gate: an accepted authentication makes the closed
  session Authenticated and registered again, closing the live session of the phone.
\<close>

theorem closed_session_reauthenticates:
  assumes "\<not> conn_open (sessions w sid)" and "s_state (sessions w sid) = Closing"
    and "s_phone (sessions w sid) = p" and "p \<noteq> []" and "reg_get p w = Some k" and "k \<noteq> sid"
    and "msg_id f = msg_authentication" and "token_accepted e cfg f"
  shows "let w' = dispatch e cfg st sid f w in
    s_state (sessions w' sid) = Authenticated \<and> \<not> conn_open (sessions w' sid) \<and>
    reg_get p w' = Some sid \<and> s_state (sessions w' k) = Closing \<and> \<not> conn_open (sessions w' k)"
proof -
  have "auth_phone sid f w = p" using assms(3,4) by (simp add: auth_phone_def)
  note one = authenticated_dispatch(1,2) [OF assms(7,8), where st = st and sid = sid and w = w, unfolded this]
  show ?thesis using assms(1,2,5,6) by (simp add: Let_def one)
qed

theorem closed_session_reauthenticates_witness:
  "reg_get ''12'' (dispatch (sample_env (RedisVal [])) sample_config None 1 (sample_frame msg_authentication ''12'' [])
     (upd_session 1 (\<lambda>s. (close_sess s)\<lparr>s_phone := ''12''\<rparr>) sample_world)) = Some 1"
  using closed_session_reauthenticates [of "upd_session 1 (\<lambda>s. (close_sess s)\<lparr>s_phone := ''12''\<rparr>) sample_world" 1
      "''12''" 0 "sample_frame msg_authentication ''12'' []" "sample_env (RedisVal [])" sample_config None]
  by (simp add: token_accepted_def string_of_bytes_def Let_def reg_get_cong [of "upd_session _ _ sample_world" sample_world])

end
