(* ===== verification/Registration_Laws.thy ===== *)
theory Registration_Laws
  imports Handler_Laws
begin

text \<open>
  Registration: what each verdict of the device store leads to, and the login of a device as a
  whole, from the registration to the authentication with the token that was handed out.
\<close>

section \<open>What Redis holds\<close>

text \<open>The values a log has stored under a key, and the reply of a Redis that kept the last one.\<close>

fun stored_by :: "string \<Rightarrow> event \<Rightarrow> string list" where
  "stored_by key (Redis cs) = [v. SetEx k v d \<leftarrow> cs, k = key]"
| "stored_by key _ = []"

definition redis_holds :: "string \<Rightarrow> event list \<Rightarrow> redis_reply" where
  "redis_holds key evs =
     (let vs = concat (map (stored_by key) evs) in if vs = [] then RedisNil else RedisVal (last vs))"

section \<open>Helper lemmas\<close>

lemma check_verdict [simp]:
  "fst (check_or_create e st b m d (counted f w)) = fst (check_or_create e st b m d w)"
  by (simp add: check_or_create_def Let_def split: option.split select_reply.split)

lemma check_logs_sql:
  assumes "check_or_create e st b m d w = (r, w')"
  shows "\<exists>evs. w' = w\<lparr>events := events w @ evs\<rparr> \<and> (\<forall>ev\<in>set evs. stored_by key ev = [])"
proof -
  obtain evs where "w' = w\<lparr>events := events w @ evs\<rparr>" using store.only_logs [OF assms] by blast
  moreover from this have "events w' = events w @ evs" by simp
  then have "\<forall>ev\<in>set evs. stored_by key ev = []"
    using assms
    by (auto simp: check_or_create_def emit_def Let_def split: option.splits select_reply.splits if_splits)
  ultimately show ?thesis by blast
qed

text \<open>The two verdicts of the store, as the handler tells them apart.\<close>

definition device_allowed :: "env \<Rightarrow> device_store \<Rightarrow> frame \<Rightarrow> registration_info \<Rightarrow> bool" where
  "device_allowed e st f info \<longleftrightarrow>
     fst (check_or_create e st (phone f) (device_model info) (device_id info) empty_world)
       \<in> {(CheckApproved, None), (CheckAutoCreated, None)}"

lemma check_verdict_empty:
  "fst (check_or_create e st b m d w) = fst (check_or_create e st b m d empty_world)"
  by (simp add: check_or_create_def Let_def split: option.split select_reply.split)

text \<open>The values inserted for a device without a row.\<close>

definition pending_row :: "config \<Rightarrow> env \<Rightarrow> frame \<Rightarrow> registration_info \<Rightarrow> sql_arg list" where
  "pending_row c e f info = [SqlInt (db_device_type_id c), SqlStr (phone f),
     SqlStr (if device_id info = [] then phone f else device_id info),
     SqlStr (device_notes (device_model info) (device_id info)), SqlStr (now_sql e), SqlStr (now_sql e)]"

lemma registration_alt:
  assumes "msg_id f = msg_registration" and "decode_registration (body f) = Inr info"
  shows "\<exists>evs. (\<forall>ev\<in>set evs. stored_by key ev = []) \<and> dispatch e cfg st sid f w =
    (let v = (counted f w)\<lparr>events := events w @ evs\<rparr>
     in if device_allowed e st f info then accept_registration e cfg sid f info v
        else reject_registration e cfg sid f v)"
proof -
  let ?c = "check_or_create e st (phone f) (device_model info) (device_id info) (counted f w)"
  obtain res err v where c: "?c = ((res, err), v)" by (metis prod.exhaust)
  obtain evs where v: "v = (counted f w)\<lparr>events := events (counted f w) @ evs\<rparr>"
    and evs: "\<forall>ev\<in>set evs. stored_by key ev = []"
    using check_logs_sql [OF c] by blast
  have "fst (check_or_create e st (phone f) (device_model info) (device_id info) empty_world) = (res, err)"
    using c check_verdict_empty [of e st "phone f" "device_model info" "device_id info" "counted f w"] by simp
  then show ?thesis
    using assms c v evs
    by (intro exI [of _ evs])
      (auto simp: dispatch_cases handle_registration_def device_allowed_def Let_def
        split: option.split check_result.split)
qed

lemma accepted_registration:
  assumes "msg_id f = msg_registration" and "decode_registration (body f) = Inr info"
    and "device_allowed e st f info"
  defines "token \<equiv> generate_auth_token (now_unix e) (phone f)"
  shows "sessions (dispatch e cfg st sid f w) = (sessions w)(sid := (sessions w sid)\<lparr>
      s_phone := phone f, s_imei := device_id info, s_token := token, s_state := Registered,
      out_seq := out_seq (sessions w sid) + 1\<rparr>)" (is ?sessions)
    and "registry (dispatch e cfg st sid f w) = registry w" (is ?registry)
    and "\<exists>evs err. events (dispatch e cfg st sid f w) = events w @ evs @
      [Redis [SetEx (auth_key cfg (phone f)) token (24 * 3600 * second)],
       ConnWrite sid (encode_frame msg_registration_resp (phone f) (next_seq (sessions w sid))
         (build_registration_ack (seq_num f) reg_success token)) (write_timeout cfg) err]" (is ?events)
proof -
  obtain evs where d: "dispatch e cfg st sid f w =
      accept_registration e cfg sid f info ((counted f w)\<lparr>events := events w @ evs\<rparr>)"
    using registration_alt [OF assms(1,2), of undefined e cfg st sid w] assms(3) by (auto simp: Let_def)
  show ?sessions and ?registry
    by (simp_all add: d accept_registration_def Let_def split_beta store_auth_token_def set_state_def token_def)
  show ?events
    by (intro exI [of _ evs])
      (simp add: d accept_registration_def Let_def split_beta store_auth_token_def set_state_def token_def
        sent_bytes_def next_seq_def)
qed

lemma redis_holds_nothing:
  "\<forall>ev\<in>set evs. stored_by key ev = [] \<Longrightarrow> redis_holds key (es @ evs) = redis_holds key es"
  by (simp add: redis_holds_def)

lemma rejected_registration:
  assumes "msg_id f = msg_registration" and "decode_registration (body f) = Inr info"
    and "\<not> device_allowed e st f info"
  shows "sessions (dispatch e cfg st sid f w) =
      (sessions w)(sid := (sessions w sid)\<lparr>out_seq := out_seq (sessions w sid) + 1\<rparr>)" (is ?sessions)
    and "registry (dispatch e cfg st sid f w) = registry w" (is ?registry)
    and "tasks (dispatch e cfg st sid f w) = tasks w @ [CloseAfter (200 * millisecond) sid]" (is ?tasks)
    and "redis_holds key (events (dispatch e cfg st sid f w)) = redis_holds key (events w)" (is ?holds)
    and "\<exists>err. last (events (dispatch e cfg st sid f w)) =
       ConnWrite sid (encode_frame msg_registration_resp (s_phone (sessions w sid))
         (next_seq (sessions w sid)) (build_registration_ack (seq_num f) reg_terminal_not_in_db []))
         (write_timeout cfg) err" (is ?last)
proof -
  obtain evs where evs: "\<forall>ev\<in>set evs. stored_by key ev = []"
    and d: "dispatch e cfg st sid f w =
      reject_registration e cfg sid f ((counted f w)\<lparr>events := events w @ evs\<rparr>)"
    using registration_alt [OF assms(1,2), of key e cfg st sid w] assms(3) by (auto simp: Let_def)
  show ?sessions ?registry ?tasks ?last
    by (simp_all add: d reject_registration_def Let_def split_beta sent_bytes_def)
  have "events (dispatch e cfg st sid f w) = events w @ evs @ [ConnWrite sid (sent_bytes sid
      msg_registration_resp (build_registration_ack (seq_num f) reg_terminal_not_in_db []) w)
      (write_timeout cfg) (write_fails e (sent_bytes sid
      msg_registration_resp (build_registration_ack (seq_num f) reg_terminal_not_in_db []) w))]"
    by (simp add: d reject_registration_def Let_def split_beta sent_bytes_def)
  then show ?holds using evs by (simp add: redis_holds_nothing)
qed

lemma redis_holds_stored:
  "redis_holds key (evs @ [Redis [SetEx key v d], ConnWrite sid out dl err]) = RedisVal v"
  by (simp add: redis_holds_def Let_def)

section \<open>Properties\<close>

text \<open>
  C7 (login). A device whose registration decodes and whom the store allows is answered, under its
  own phone, with a token; if Redis returns for its phone the last value stored there, presenting
  exactly that token makes the session authenticated and registered under that phone.
\<close>

theorem register_then_authenticate:
  assumes "msg_id f1 = msg_registration" and "decode_registration (body f1) = Inr info"
    and "device_allowed e1 st f1 info" and "w1 = dispatch e1 cfg st sid f1 w"
    and "msg_id f2 = msg_authentication" and "phone f2 = phone f1"
    and "body f2 = bytes_of_string (s_token (sessions w1 sid))"
    and "redis_get e2 (auth_key cfg (phone f1)) = redis_holds (auth_key cfg (phone f1)) (events w1)"
    and "w2 = dispatch e2 cfg st sid f2 w1"
  shows "s_state (sessions w1 sid) = Registered \<and>
    (\<exists>err. last (events w1) = ConnWrite sid (encode_frame msg_registration_resp (phone f1)
       (next_seq (sessions w sid)) (build_registration_ack (seq_num f1) reg_success
         (s_token (sessions w1 sid)))) (write_timeout cfg) err) \<and>
    s_state (sessions w2 sid) = Authenticated \<and> s_phone (sessions w2 sid) = phone f1 \<and>
    reg_get (phone f1) w2 = Some sid"
proof -
  note reg = accepted_registration [OF assms(1-3), where cfg = cfg and sid = sid and w = w,
    folded assms(4)]
  obtain evs err where ev: "events w1 = events w @ evs @
      [Redis [SetEx (auth_key cfg (phone f1)) (s_token (sessions w1 sid)) (24 * 3600 * second)],
       ConnWrite sid (encode_frame msg_registration_resp (phone f1) (next_seq (sessions w sid))
         (build_registration_ack (seq_num f1) reg_success (s_token (sessions w1 sid)))) (write_timeout cfg) err]"
    using reg(3) by (auto simp: reg(1))
  have "redis_get e2 (auth_key cfg (phone f1)) = RedisVal (s_token (sessions w1 sid))"
    unfolding assms(8) ev append_assoc [symmetric] by (rule redis_holds_stored)
  then have acc: "token_accepted e2 cfg f2" by (simp add: token_accepted_def assms(6,7))
  have ph: "auth_phone sid f2 w1 = phone f1" by (simp add: auth_phone_def reg(1) assms(6))
  note auth = authenticated_dispatch(1,2) [OF assms(5) acc, where st = st and sid = sid and w = w1,
    unfolded ph, folded assms(9)]
  show ?thesis by (simp add: auth reg(1) ev)
qed

theorem register_then_authenticate_witness:
  "\<exists>e2 f2. s_state (sessions (dispatch e2 sample_config None 0 f2
     (dispatch (sample_env RedisNil) sample_config None 0 sample_registration empty_world)) 0) = Authenticated"
proof -
  let ?w1 = "dispatch (sample_env RedisNil) sample_config None 0 sample_registration empty_world"
  let ?f2 = "sample_frame msg_authentication ''12'' (bytes_of_string (s_token (sessions ?w1 0)))"
  let ?e2 = "sample_env (redis_holds (auth_key sample_config ''12'') (events ?w1))"
  have "s_state (sessions (dispatch ?e2 sample_config None 0 ?f2 ?w1) 0) = Authenticated"
    using register_then_authenticate [OF _ sample_registration_decodes, of "sample_env RedisNil" None ?w1
        sample_config 0 empty_world ?f2 ?e2 "dispatch ?e2 sample_config None 0 ?f2 ?w1"]
    by (simp add: device_allowed_def check_or_create_def)
  then show ?thesis by blast
qed

text \<open>
  C17 (admission). A registration that decodes is accepted exactly when the database is disabled,
  the device's row is not blocked, or there is no row and inserting one succeeds; a database error
  is a refusal. The registered session carries the frame's phone, the device id and the token.
\<close>

theorem registration_admission:
  assumes "msg_id f = msg_registration" and "decode_registration (body f) = Inr info"
  shows "sessions (dispatch e cfg st sid f w) sid =
    (if case st of None \<Rightarrow> True
        | Some c \<Rightarrow> (case db_select e (select_status_sql c) (phone f) of
            Row status \<Rightarrow> status \<noteq> ''blocked''
          | NoRows \<Rightarrow> \<not> db_exec_fails e (insert_device_sql c) (pending_row c e f info)
          | DbErr \<Rightarrow> False)
     then (sessions w sid)\<lparr>s_phone := phone f, s_imei := device_id info,
       s_token := generate_auth_token (now_unix e) (phone f), s_state := Registered,
       out_seq := out_seq (sessions w sid) + 1\<rparr>
     else (sessions w sid)\<lparr>out_seq := out_seq (sessions w sid) + 1\<rparr>)"
proof -
  have adm: "device_allowed e st f info = (case st of None \<Rightarrow> True
        | Some c \<Rightarrow> (case db_select e (select_status_sql c) (phone f) of
            Row status \<Rightarrow> status \<noteq> ''blocked''
          | NoRows \<Rightarrow> \<not> db_exec_fails e (insert_device_sql c) (pending_row c e f info)
          | DbErr \<Rightarrow> False))"
    by (auto simp: device_allowed_def check_or_create_def pending_row_def Let_def split: option.split select_reply.split)
  show ?thesis
  proof (cases "device_allowed e st f info")
    case True
    with adm accepted_registration(1) [OF assms(1,2) True, of cfg sid w] show ?thesis by simp
  next
    case False
    with adm rejected_registration(1) [OF assms(1,2) False, of cfg sid w] show ?thesis by simp
  qed
qed

theorem registration_admission_witness:
  "s_state (sessions (dispatch (sample_env RedisNil) sample_config (Some sample_config) 0
     sample_registration empty_world) 0) = Registered"
  using registration_admission [OF _ sample_registration_decodes, of "sample_env RedisNil" sample_config
      "Some sample_config" 0 empty_world]
  by simp

text \<open>
  Rejection. A refused registration is answered with result 4 and no token, under whatever
  phone the session had before (none on a new connection); apart from the sequence number nothing
  of the session or the registry changes, no token is stored, and the connection is closed after
  200 milliseconds.
\<close>

theorem registration_rejected:
  assumes "msg_id f = msg_registration" and "decode_registration (body f) = Inr info"
    and "\<not> device_allowed e st f info"
  shows "let w' = dispatch e cfg st sid f w in
    sessions w' = (sessions w)(sid := (sessions w sid)\<lparr>out_seq := out_seq (sessions w sid) + 1\<rparr>) \<and>
    registry w' = registry w \<and> tasks w' = tasks w @ [CloseAfter (200 * millisecond) sid] \<and>
    (\<forall>key. redis_holds key (events w') = redis_holds key (events w)) \<and>
    (\<exists>err. last (events w') = ConnWrite sid (encode_frame msg_registration_resp (s_phone (sessions w sid))
      (next_seq (sessions w sid)) (put16 (seq_num f) @ [4])) (write_timeout cfg) err)"
  using rejected_registration [OF assms, where cfg = cfg and sid = sid and w = w]
  by (auto simp: Let_def build_registration_ack_def reg_terminal_not_in_db_def bytes_of_string_def)

theorem registration_rejected_witness:
  "tasks (dispatch ((sample_env RedisNil)\<lparr>db_select := \<lambda>_ _. Row ''blocked''\<rparr>) sample_config
     (Some sample_config) 0 sample_registration empty_world) = [CloseAfter (200 * millisecond) 0]"
  using registration_rejected [OF _ sample_registration_decodes,
      of "(sample_env RedisNil)\<lparr>db_select := \<lambda>_ _. Row ''blocked''\<rparr>" "Some sample_config" sample_config 0 empty_world]
  by (simp add: device_allowed_def check_or_create_def Let_def)

end
