(* ===== verification/Location_Laws.thy ===== *)
theory Location_Laws
  imports Handler_Laws Forwarder
begin

text \<open>
  Location reports: what a single report and a batch publish and count, in which order with the
  acknowledgement, and which readings of a report reach the stream.
\<close>

section \<open>Single reports\<close>

text \<open>The acknowledgement with result 0 of frame \<open>f\<close>, as it goes over the wire.\<close>

definition ok_bytes :: "nat \<Rightarrow> frame \<Rightarrow> world \<Rightarrow> bytes" where
  "ok_bytes sid f w = encode_frame msg_platform_resp (s_phone (sessions w sid))
     (next_seq (sessions w sid)) (build_platform_ack (seq_num f) (msg_id f) result_ok)"

text \<open>
  C24 (location report). The acknowledgement is written first and whatever the body; a report
  is published, counted, and counted as SOS exactly when the write succeeded, the session or the
  frame has a phone, and the body decodes; a body that does not decode only counts an error.
\<close>

theorem location_report_effect:
  assumes "msg_id f = msg_location_report"
  shows "let w' = dispatch e cfg st sid f w; out = ok_bytes sid f w; ph = auth_phone sid f w;
      m = count_frame ''location'' (metrics w) in
    events w' = events w @ [ConnWrite sid out (write_timeout cfg) (write_fails e out)] \<and>
    (if write_fails e out \<or> ph = [] then tasks w' = tasks w \<and> metrics w' = m
     else case decode_location (body f) of
        Inl _ \<Rightarrow> tasks w' = tasks w \<and> metrics w' = count_decode_error m
      | Inr loc \<Rightarrow> tasks w' = tasks w @ [PublishLocation ph loc] \<and>
          metrics w' = (if bit (alarm_flags loc) 0 then count_sos (count_location m) else count_location m) \<and>
          last_location (sessions w' sid) = now_nano e)"
  using assms
  by (cases "decode_location (body f)") (auto simp: dispatch_cases handle_location_def Let_def split_beta do_ack_send sent_bytes_def
      ok_bytes_def auth_phone_def msg_name_def has_alarm_def touch_location_def)

theorem location_report_effect_witness:
  "\<exists>out. events (dispatch (sample_env RedisNil) sample_config None 0 (sample_frame msg_location_report ''12'' [1])
       sample_world) = [ConnWrite 0 out (write_timeout sample_config) False] \<and>
   decode_errors (metrics (dispatch (sample_env RedisNil) sample_config None 0
       (sample_frame msg_location_report ''12'' [1]) sample_world)) = 1"
  using location_report_effect [of "sample_frame msg_location_report ''12'' [1]" "sample_env RedisNil"
      sample_config None 0 sample_world]
  by (simp add: Let_def auth_phone_def decode_location_def count_decode_error_def count_frame_def new_metrics_def)

section \<open>Batches\<close>

text \<open>
  A batch body: the item count, a type byte, and the length-prefixed items. The items a body
  really holds, by the reference reader, and what one item does.
\<close>

definition batch_item :: "bytes \<Rightarrow> bytes" where
  "batch_item it = put16 (of_nat (length it)) @ it"

definition batch_body :: "nat \<Rightarrow> u8 \<Rightarrow> bytes list \<Rightarrow> bytes \<Rightarrow> bytes" where
  "batch_body n kind its rest = put16 (of_nat n) @ [kind] @ concat (map batch_item its) @ rest"

definition apply_item :: "nat \<Rightarrow> bytes \<Rightarrow> world \<Rightarrow> world" where
  "apply_item sid it w =
     (case decode_location it of
        Inl _ \<Rightarrow> count count_decode_error w
      | Inr loc \<Rightarrow> spawn (PublishLocation (s_phone (sessions w sid)) loc) (count count_location w))"

text \<open>Bytes that hold no complete item: none, a cut length, or a length past the end.\<close>

definition no_item :: "bytes \<Rightarrow> bool" where
  "no_item r \<longleftrightarrow> length r < 2 \<or> length r < 2 + be16_at r 0"

lemma be16_at_append: "length pre = i \<Longrightarrow> be16_at (pre @ r) (i + j) = be16_at r j"
  by (simp add: be16_at_def nth_append)

lemma be16_at_append0: "length pre = i \<Longrightarrow> be16_at (pre @ r) i = be16_at r 0"
  using be16_at_append [of pre i r 0] by simp

lemma put16_value: "unat (ucast (drop_bit 8 v) :: u8) * 256 + unat (ucast v :: u8) = unat (v :: u16)"
proof -
  define x where "x = unat v"
  have "x < 65536" using unsigned_less [of v] by (simp add: x_def)
  then have "x div 256 < 256" by (simp add: less_mult_imp_div_less)
  then have "x div 256 mod 256 * 256 + x mod 256 = x" by simp
  then show ?thesis
    by (simp add: unsigned_ucast_eq x_def take_bit_eq_mod drop_bit_eq_div unat_div)
qed

lemma be16_at_put16: "n < 65536 \<Longrightarrow> be16_at (put16 (of_nat n) @ r) 0 = n"
  using put16_value [of "of_nat n"] by (simp add: be16_at_def put16_def unat_of_nat take_bit_eq_mod)

lemma batch_loop_step:
  assumes "length it < 65536" and "length pre = off"
  shows "batch_loop sid (pre @ batch_item it @ r) off (Suc n) w =
    batch_loop sid (pre @ batch_item it @ r) (off + (2 + length it)) n (apply_item sid it w)"
proof -
  let ?b = "pre @ put16 (of_nat (length it)) @ it @ r"
  have "be16_at ?b off = length it"
    using assms be16_at_append0 [of pre off] be16_at_put16 [of "length it" "it @ r"] by simp
  moreover have "slice (off + 2) (off + 2 + length it) ?b = it"
    using assms(2) by (simp add: slice_def)
  ultimately show ?thesis
    using assms by (simp add: batch_item_def Let_def apply_item_def add.assoc split: sum.split)
qed

lemma batch_loop_items:
  assumes "\<forall>it\<in>set its. length it < 65536" and "length pre = off"
    and "m = 0 \<or> no_item r"
  shows "batch_loop sid (pre @ concat (map batch_item its) @ r) off (length its + m) w =
    fold (apply_item sid) its w"
  using assms
proof (induction its arbitrary: pre off w)
  case Nil
  then show ?case
    by (cases m) (auto simp: Let_def no_item_def be16_at_append0)
next
  case (Cons it its)
  have "batch_loop sid (pre @ batch_item it @ concat (map batch_item its) @ r) off (Suc (length its + m)) w =
    batch_loop sid ((pre @ batch_item it) @ concat (map batch_item its) @ r) (off + (2 + length it))
      (length its + m) (apply_item sid it w)"
    using batch_loop_step [of it pre off sid "concat (map batch_item its) @ r" "length its + m" w] Cons.prems
    by (simp add: add.assoc)
  also have "\<dots> = fold (apply_item sid) its (apply_item sid it w)"
    using Cons.prems by (intro Cons.IH) (auto simp: batch_item_def)
  finally show ?case by simp
qed

lemma apply_item_fields [simp]:
  "tasks (apply_item sid it w) = tasks w @ (case decode_location it of Inl _ \<Rightarrow> []
     | Inr l \<Rightarrow> [PublishLocation (s_phone (sessions w sid)) l])"
  "metrics (apply_item sid it w) = (case decode_location it of Inl _ \<Rightarrow> count_decode_error (metrics w)
     | Inr l \<Rightarrow> count_location (metrics w))"
  "sessions (apply_item sid it w) = sessions w"
  by (simp_all add: apply_item_def split: sum.split)

text \<open>What a list of items adds up to.\<close>

definition decoded :: "bytes list \<Rightarrow> location_report list" where
  "decoded its = [l. Inr l \<leftarrow> map decode_location its]"

lemma decoded_simps [simp]:
  "decoded [] = []"
  "decoded (it # its) = (case decode_location it of Inl _ \<Rightarrow> decoded its | Inr l \<Rightarrow> l # decoded its)"
  by (simp_all add: decoded_def split: sum.split)

lemma length_decoded: "length (decoded its) \<le> length its"
  by (induction its) (auto split: sum.split)

lemma fold_apply_item:
  "tasks (fold (apply_item sid) its w) =
     tasks w @ map (PublishLocation (s_phone (sessions w sid))) (decoded its)"
  "metrics (fold (apply_item sid) its w) =
     (metrics w)\<lparr>location_reports := location_reports (metrics w) + length (decoded its),
       decode_errors := decode_errors (metrics w) + (length its - length (decoded its))\<rparr>"
  "sessions (fold (apply_item sid) its w) = sessions w"
proof (induction its arbitrary: w)
  case (Cons it its)
  note le = length_decoded [of its]
  { case 1 show ?case by (simp add: Cons.IH split: sum.split) }
  { case 2 show ?case using le
      by (simp add: Cons.IH count_decode_error_def count_location_def Suc_diff_le split: sum.split) }
  { case 3 show ?case by (simp add: Cons.IH split: sum.split) }
qed simp_all

text \<open>
  C13 (batch). On a batch body the loop publishes the decodable items in order under the session's
  phone and counts the others, no matter what follows them: either the declared count is met or
  what is left holds no complete item.
\<close>

theorem batch_publishes_items:
  assumes "msg_id f = msg_batch_location" and "body f = batch_body n kind its rest" and "n < 65536"
    and "\<forall>it\<in>set its. length it < 65536"
    and "n = length its \<or> length its < n \<and> no_item rest"
    and "\<not> write_fails e (ok_bytes sid f w)"
  shows "tasks (dispatch e cfg st sid f w) =
      tasks w @ map (PublishLocation (s_phone (sessions w sid))) (decoded its) \<and>
    location_reports (metrics (dispatch e cfg st sid f w)) =
      location_reports (metrics w) + length (decoded its) \<and>
    decode_errors (metrics (dispatch e cfg st sid f w)) =
      decode_errors (metrics w) + (length its - length (decoded its)) \<and>
    sos_alarms (metrics (dispatch e cfg st sid f w)) = sos_alarms (metrics w)"
proof -
  obtain m where n: "n = length its + m" and m: "m = 0 \<or> no_item rest"
    using assms(5) by (metis add_0_right less_imp_add_positive)
  let ?v = "fst (do_ack e sid f result_ok (write_timeout cfg) (counted f w))"
  let ?pre = "put16 (of_nat n) @ [kind]"
  have b: "body f = ?pre @ concat (map batch_item its) @ rest"
    by (simp add: assms(2) batch_body_def)
  have "be16_at (body f) 0 = n"
    using be16_at_put16 [OF assms(3)] by (simp add: assms(2) batch_body_def)
  moreover have "batch_loop sid (body f) 3 (length its + m) ?v = fold (apply_item sid) its ?v"
    unfolding b using assms(4) m by (intro batch_loop_items) (auto simp: put16_def)
  moreover have "3 \<le> length (body f)" by (simp add: b put16_def)
  ultimately have "dispatch e cfg st sid f w = fold (apply_item sid) its ?v"
    using assms(1,6) n by (simp add: dispatch_cases handle_batch_location_def Let_def split_beta
        do_ack_send sent_bytes_def ok_bytes_def)
  then show ?thesis by (simp add: fold_apply_item do_ack_send count_frame_def)
qed

theorem batch_publishes_items_witness:
  "\<exists>l. tasks (dispatch (sample_env RedisNil) sample_config None 0
       (sample_frame msg_batch_location ''12'' (batch_body 3 0 [replicate 28 0, [1]] [0x00, 0x09])) sample_world) =
      [PublishLocation ''12'' l]"
proof -
  have "\<exists>l. decode_location (replicate 28 0) = Inr l" "\<exists>x. decode_location [1] = Inl x"
    by (simp_all add: decode_location_def Let_def split_beta)
  then show ?thesis
    using batch_publishes_items [of "sample_frame msg_batch_location ''12'' (batch_body 3 0 [replicate 28 0, [1]] [0x00, 0x09])"
        3 0 "[replicate 28 0, [1]]" "[0x00, 0x09]" "sample_env RedisNil" 0 sample_world sample_config None]
    by (auto simp: no_item_def be16_at_def)
qed

section \<open>What is published\<close>

lemma go_div_nonneg: "0 \<le> a \<Longrightarrow> 0 < b \<Longrightarrow> go_div a b = a div b"
  by (simp add: go_div_def sgn_if)

lemma uint_le_100: "unat (b :: u8) \<le> 100 \<Longrightarrow> uint b \<le> 100"
proof -
  have "uint b = int (unat b)" by (simp only: uint_nat)
  then show "unat b \<le> 100 \<Longrightarrow> uint b \<le> 100" by linarith
qed

lemma signal_percent: "0 \<le> c \<Longrightarrow> c \<le> 31 \<Longrightarrow> 0 \<le> go_div (c * 100) 31 \<and> go_div (c * 100) 31 \<le> 100"
  using zdiv_mono1 [of "c * 100" 3100 31] by (simp add: go_div_nonneg pos_imp_zdiv_nonneg_iff)

lemma battery_percent_tlv_range:
  "battery_percent_tlv ids ex = Some p \<Longrightarrow> 0 \<le> p \<and> p \<le> 100"
  by (induction ids) (auto dest: uint_le_100 split: option.splits list.splits if_splits)

lemma extract_battery_range: "- 1 \<le> extract_battery ex \<and> extract_battery ex \<le> 100"
  using battery_percent_tlv_range [of "[0xEB, 0x63, 0x64]" ex]
  unfolding extract_battery_def
  by (cases "battery_percent_tlv [0xEB, 0x63, 0x64] ex") (auto simp: Let_def split: option.split list.split)

lemma extract_signal_range: "- 1 \<le> extract_signal ex \<and> extract_signal ex \<le> 100"
proof (cases "map_of ex 0x30")
  case (Some v)
  show ?thesis
  proof (cases v)
    case (Cons b r)
    have "extract_signal ex = go_div ((if 31 < uint b then 31 else uint b) * 100) 31"
      using Some Cons by (simp add: extract_signal_def Let_def)
    then show ?thesis using signal_percent [of "if 31 < uint b then 31 else uint b"] by auto
  qed (simp add: Some extract_signal_def)
qed (simp add: extract_signal_def)

text \<open>The keys are distinct whichever of the optional groups are there.\<close>

lemma distinct_groups:
  assumes "distinct (a @ b @ c @ d @ x # e)"
    and "set b' \<subseteq> set b" "set c' \<subseteq> set c" "set d' \<subseteq> set d" "set e' \<subseteq> set e"
    and "distinct b'" "distinct c'" "distinct d'" "distinct e'"
  shows "distinct (a @ b' @ c' @ d' @ x # e')"
  using assms unfolding distinct_append distinct.simps set_append set_simps by blast

lemma distinct_location_keys: "distinct (map fst (location_values now ph l))"
proof -
  have "distinct ([''event'', ''phone'', ''timestamp'', ''altitude'', ''speed'', ''direction'',
      ''gps_fixed'', ''acc_on'', ''alarm_flags'', ''status_flags'', ''published_at''] @
      [''latitude'', ''longitude''] @ [''battery_level'', ''battery_from_flags''] @
      [''signal_strength''] @ ''active_alarms'' # [''extras''])" (is "distinct ?all")
    by simp
  from distinct_groups [OF this] show ?thesis
    by (simp only: location_values_def Let_def map_append list.map fst_conv append_Cons append_Nil
        if_distrib [of "map fst"]) (simp split del: if_split, simp)
qed

lemma location_fields:
  "map_of (location_values now ph l) ''phone'' = Some (RStr ph)"
  "map_of (location_values now ph l) ''latitude'' = (if gps_fixed l then Some (RFloat (latitude l)) else None)"
  "map_of (location_values now ph l) ''longitude'' = (if gps_fixed l then Some (RFloat (longitude l)) else None)"
  "map_of (location_values now ph l) ''battery_level'' =
     (if 0 \<le> extract_battery (extras l) then Some (RInt (extract_battery (extras l))) else None)"
  "map_of (location_values now ph l) ''battery_from_flags'' =
     (if extract_battery (extras l) < 0 \<and> 0 < (drop_bit 16 (status_flags l) AND 0x0F)
      then Some (RInt (int (unat ((drop_bit 16 (status_flags l) AND 0x0F) * 25)))) else None)"
  "map_of (location_values now ph l) ''signal_strength'' =
     (if 0 \<le> extract_signal (extras l) then Some (RInt (extract_signal (extras l))) else None)"
  by (simp_all add: location_values_def Let_def)

text \<open>
  Published fields. A stream entry has each field once; coordinates only with a fix, the
  battery level only when a TLV item gives one between 0 and 100 (else the status nibble times 25),
  the signal strength only when its item is there, between 0 and 100.
\<close>

theorem published_fields:
  "let vs = location_values now ph l; bat = extract_battery (extras l); sig = extract_signal (extras l);
       code = drop_bit 16 (status_flags l) AND 0x0F in
    distinct (map fst vs) \<and>
    map_of vs ''phone'' = Some (RStr ph) \<and>
    map_of vs ''latitude'' = (if gps_fixed l then Some (RFloat (latitude l)) else None) \<and>
    map_of vs ''longitude'' = (if gps_fixed l then Some (RFloat (longitude l)) else None) \<and>
    map_of vs ''battery_level'' = (if bat = - 1 then None else Some (RInt bat)) \<and> bat \<in> {- 1..100} \<and>
    map_of vs ''battery_from_flags'' =
      (if bat = - 1 \<and> code \<noteq> 0 then Some (RInt (int (unat (code * 25)))) else None) \<and>
    map_of vs ''signal_strength'' = (if sig = - 1 then None else Some (RInt sig)) \<and> sig \<in> {- 1..100}"
proof -
  have "0 \<le> extract_battery (extras l) \<longleftrightarrow> extract_battery (extras l) \<noteq> - 1"
    "0 \<le> extract_signal (extras l) \<longleftrightarrow> extract_signal (extras l) \<noteq> - 1"
    using extract_battery_range [of "extras l"] extract_signal_range [of "extras l"] by linarith+
  then show ?thesis
    using extract_battery_range [of "extras l"] extract_signal_range [of "extras l"]
    by (simp add: Let_def distinct_location_keys location_fields word_gt_0 linorder_not_le [symmetric])
qed

text \<open>
  Alarm names. The published names are those of the set bits among SOS, overspeed, low
  battery, power failure and vibration, in this order and each once; no other bit has a name.
\<close>

lemma active_alarm_names_exact:
  "active_alarm_names flags =
     (if bit flags 0 then [''sos''] else []) @ (if bit flags 1 then [''overspeed''] else []) @
     (if bit flags 7 then [''low_battery''] else []) @ (if bit flags 12 then [''power_failure''] else []) @
     (if bit flags 16 then [''vibration''] else []) \<and>
   distinct (active_alarm_names flags)"
  by (simp add: active_alarm_names_def alarm_names_def)

end
