(* ===== verification/Response_Laws.thy ===== *)
theory Response_Laws
  imports Registration_Laws Location_Laws
begin

text \<open>
  The responses: every frame but a terminal response is answered by exactly one write, which
  names the frame it answers and takes the next sequence number.
\<close>

section \<open>One write per handler\<close>

text \<open>\<open>v\<close> comes from \<open>w\<close> by one write of session \<open>sid\<close>, under its phone or the frame's.\<close>

definition written :: "config \<Rightarrow> nat \<Rightarrow> u16 \<Rightarrow> string \<Rightarrow> bytes \<Rightarrow> world \<Rightarrow> world \<Rightarrow> bool" where
  "written cfg sid i p b w v \<longleftrightarrow> (\<exists>err. writes v = writes w @
     [ConnWrite sid (encode_frame i p (next_seq (sessions w sid)) b) (write_timeout cfg) err])"

definition answered :: "config \<Rightarrow> nat \<Rightarrow> frame \<Rightarrow> u16 \<Rightarrow> bytes \<Rightarrow> world \<Rightarrow> world \<Rightarrow> bool" where
  "answered cfg sid f i b w v \<longleftrightarrow>
     out_seq (sessions v sid) = out_seq (sessions w sid) + 1 \<and>
     (written cfg sid i (s_phone (sessions w sid)) b w v \<or> written cfg sid i (phone f) b w v)"

lemmas answered_defs = answered_def written_def

lemma answered_ack:
  "answered cfg sid f msg_platform_resp (build_platform_ack (seq_num f) (msg_id f) r) w
     (fst (do_ack e sid f r (write_timeout cfg) w))"
  by (simp add: answered_defs do_ack_send sent_bytes_def)


lemma next_seq_cong: "out_seq s = out_seq t \<Longrightarrow> next_seq s = next_seq t"
  by (simp add: next_seq_def)

abbreviation acked :: "config \<Rightarrow> nat \<Rightarrow> frame \<Rightarrow> u8 \<Rightarrow> world \<Rightarrow> world \<Rightarrow> bool" where
  "acked cfg sid f r \<equiv> answered cfg sid f msg_platform_resp (build_platform_ack (seq_num f) (msg_id f) r)"

lemma answered_handlers:
  "acked cfg sid f result_ok w (handle_heartbeat e cfg st sid f w)"
  "acked cfg sid f result_ok w (handle_location e cfg sid f w)"
  "acked cfg sid f result_ok w (handle_batch_location e cfg sid f w)"
  "acked cfg sid f (if token_accepted e cfg f then result_ok else result_fail) w (handle_authentication e cfg sid f w)"
proof -
  show "acked cfg sid f result_ok w (handle_heartbeat e cfg st sid f w)"
    by (simp add: answered_defs handle_heartbeat_def Let_def split_beta do_ack_send sent_bytes_def next_seq_def)
  show "acked cfg sid f result_ok w (handle_location e cfg sid f w)"
    by (auto simp: answered_defs handle_location_def Let_def split_beta do_ack_send sent_bytes_def
        ex_bool_eq split: sum.split)
  show "acked cfg sid f result_ok w (handle_batch_location e cfg sid f w)"
    by (auto simp: answered_defs handle_batch_location_def Let_def split_beta do_ack_send sent_bytes_def)
  show "acked cfg sid f (if token_accepted e cfg f then result_ok else result_fail) w
      (handle_authentication e cfg sid f w)"
    by (simp add: answered_defs handle_authentication_alt Let_def do_ack_send sent_bytes_def
        with_phone_sessions next_seq_def)
qed

lemma answered_registration:
  "acked cfg sid f result_msg_error w (handle_registration e cfg st sid f w) \<or>
   (\<exists>r t. answered cfg sid f msg_registration_resp (build_registration_ack (seq_num f) r t) w
      (handle_registration e cfg st sid f w))"
proof (cases "decode_registration (body f)")
  case (Inl a)
  then show ?thesis by (simp add: handle_registration_def answered_ack)
next
  case (Inr info)
  let ?c = "check_or_create e st (phone f) (device_model info) (device_id info) w"
  obtain res err v where c: "?c = ((res, err), v)" by (metis prod.exhaust)
  note kept = store.fields_kept [OF c] writes_check_or_create [OF c]
  have "\<exists>r t. answered cfg sid f msg_registration_resp (build_registration_ack (seq_num f) r t) w u"
    if "u = reject_registration e cfg sid f v \<or> u = accept_registration e cfg sid f info v" for u
    using that
  proof
    assume "u = reject_registration e cfg sid f v"
    then show ?thesis using kept
      by (intro exI [of _ reg_terminal_not_in_db] exI [of _ "[]"])
        (simp add: answered_defs reject_registration_def Let_def split_beta sent_bytes_def)
  next
    assume "u = accept_registration e cfg sid f info v"
    then show ?thesis using kept
      by (intro exI [of _ reg_success] exI [of _ "generate_auth_token (now_unix e) (phone f)"])
        (simp add: answered_defs accept_registration_def Let_def split_beta sent_bytes_def
          store_auth_token_def set_state_def next_seq_def)
  qed
  moreover have "handle_registration e cfg st sid f w \<in>
      {reject_registration e cfg sid f v, accept_registration e cfg sid f info v}"
    using Inr c by (auto simp: handle_registration_def split: option.split check_result.split)
  ultimately show ?thesis by blast
qed

lemma answered_counted: "answered cfg sid f i b (counted f w) v = answered cfg sid f i b w v"
  by (simp add: answered_defs)

lemma answered_unknown: "answered cfg sid f i b (count count_unknown w) v = answered cfg sid f i b w v"
  by (simp add: answered_defs)

lemma answered_dispatch:
  assumes "msg_id f \<noteq> msg_terminal_resp"
  shows "(\<exists>r. acked cfg sid f r w (dispatch e cfg st sid f w)) \<or>
    msg_id f = msg_registration \<and> (\<exists>r t. answered cfg sid f msg_registration_resp
      (build_registration_ack (seq_num f) r t) w (dispatch e cfg st sid f w))"
proof -
  let ?w = "counted f w"
  have ack: "acked cfg sid f result_ok w (fst (do_ack e sid f result_ok (write_timeout cfg) ?w))"
    "acked cfg sid f result_ok w (fst (do_ack e sid f result_ok (write_timeout cfg) (count count_unknown ?w)))"
    using answered_ack [of cfg sid f result_ok ?w e]
      answered_ack [of cfg sid f result_ok "count count_unknown ?w" e]
    by (simp_all add: answered_counted answered_unknown)
  note handlers = answered_handlers [where w = ?w and e = e and cfg = cfg and sid = sid and f = f, unfolded answered_counted]
  have reg: "acked cfg sid f result_msg_error w (handle_registration e cfg st sid f ?w) \<or>
     (\<exists>r t. answered cfg sid f msg_registration_resp (build_registration_ack (seq_num f) r t) w
        (handle_registration e cfg st sid f ?w))"
    using answered_registration [of cfg sid f ?w e st] by (simp add: answered_counted)
  show ?thesis
    unfolding dispatch_def Let_def
    by (simp only: assms if_False split: if_split) (use ack handlers reg in blast)
qed

section \<open>Properties\<close>

text \<open>
  C16 (one response). A terminal response is not answered; every other frame, whatever its id and
  the state of the session, is answered by exactly one write on its own connection: a general
  response naming the frame's sequence number and id, or for registrations a registration
  response. The write takes the session's next sequence number.
\<close>

theorem one_response_per_frame:
  "let w' = dispatch e cfg st sid f w in
    if msg_id f = msg_terminal_resp then writes w' = writes w \<and> sessions w' = sessions w
    else (\<exists>r. answered cfg sid f msg_platform_resp (build_platform_ack (seq_num f) (msg_id f) r) w w') \<or>
      msg_id f = msg_registration \<and> (\<exists>r t. answered cfg sid f msg_registration_resp
        (build_registration_ack (seq_num f) r t) w w')"
  using answered_dispatch [where e = e and cfg = cfg and st = st and sid = sid and w = w and f = f]
  by (simp add: Let_def dispatch_cases)

text \<open>
  Unknown messages. Past the gate, a message the dispatcher does not know is counted and
  acknowledged with result 0, success; the result 3 the protocol notes ask for is never sent.
\<close>

theorem unknown_message_acknowledged:
  assumes "msg_name (msg_id f) = ''unknown''" and "\<not> s_state (sessions w sid) < Authenticated"
  shows "let w' = dispatch e cfg st sid f w in
    events w' = events w @ [ConnWrite sid (ok_bytes sid f w) (write_timeout cfg) (write_fails e (ok_bytes sid f w))] \<and>
    result_ok \<noteq> result_unsupported \<and> tasks w' = tasks w \<and> registry w' = registry w \<and>
    metrics w' = count_unknown (count_frame ''unknown'' (metrics w))"
proof -
  have "dispatch e cfg st sid f w = fst (do_ack e sid f result_ok (write_timeout cfg) (count count_unknown (counted f w)))"
    using assms by (auto simp: dispatch_def Let_def msg_name_def split: if_splits)
  then show ?thesis
    using assms(1) by (simp add: Let_def do_ack_send sent_bytes_def ok_bytes_def result_codes)
qed

theorem unknown_message_acknowledged_witness:
  "unknown_messages (metrics (dispatch (sample_env RedisNil) sample_config None 0
     (sample_frame 0x0900 ''12'' []) sample_world)) = 1"
  using unknown_message_acknowledged [of "sample_frame 0x0900 ''12'' []" sample_world 0
      "sample_env RedisNil" sample_config None]
  by (simp add: Let_def msg_name_def msg_ids count_unknown_def count_frame_def new_metrics_def)

text \<open>
  Heartbeat. Past the gate, which a closed session passes too, a heartbeat stamps the session,
  is acknowledged, counted and recorded in the database under the session's phone, and starts the
  refresh of the Redis presence before the keep-alive event; the registry is not consulted.
\<close>

theorem heartbeat_effect:
  assumes "msg_id f = msg_heartbeat" and "\<not> s_state (sessions w sid) < Authenticated"
  shows "let w' = dispatch e cfg st sid f w; p = s_phone (sessions w sid) in
    sessions w' = (sessions w)(sid := (sessions w sid)\<lparr>last_heartbeat := now_nano e,
      out_seq := out_seq (sessions w sid) + 1\<rparr>) \<and>
    tasks w' = tasks w @ [HeartbeatPipe sid, PublishEvent ''heartbeat'' p []] \<and>
    events w' = events w @ [ConnWrite sid (ok_bytes sid f w) (write_timeout cfg) (write_fails e (ok_bytes sid f w))] @
      (case st of None \<Rightarrow> [] | Some c \<Rightarrow> [SqlExec (heartbeat_sql c) [SqlStr p]]) \<and>
    metrics w' = count_heartbeat (count_frame ''heartbeat'' (metrics w)) \<and> registry w' = registry w"
  using assms by (simp add: dispatch_cases handle_heartbeat_def Let_def split_beta do_ack_send
      sent_bytes_def ok_bytes_def msg_name_def touch_def next_seq_def)

theorem heartbeat_effect_witness:
  "tasks (dispatch (sample_env RedisNil) sample_config None 0 (sample_frame msg_heartbeat ''12'' []) sample_world) =
     [HeartbeatPipe 0, PublishEvent ''heartbeat'' ''12'' []]"
  using heartbeat_effect [of "sample_frame msg_heartbeat ''12'' []" sample_world 0
      "sample_env RedisNil" sample_config None]
  by (simp add: Let_def)

end
