(* ===== verification/Server_Laws.thy ===== *)
theory Server_Laws
  imports Server Response_Laws
begin

text \<open>
  The server as a transition system: invariants of every reachable state (the connection gauge,
  the registry, the authentication timers, one live session per phone, the sequence numbers on
  the wire), and the behaviour of one connection from its bytes to its clean-up.
\<close>

section \<open>Invariants of a transition system\<close>

locale invariant =
  fixes init :: "'s \<Rightarrow> bool" and step :: "'s \<Rightarrow> 's \<Rightarrow> bool" and inv :: "'s \<Rightarrow> bool"
  assumes base: "init s \<Longrightarrow> inv s"
    and preserved: "inv s \<Longrightarrow> step s t \<Longrightarrow> inv t"
begin

lemma along: "step\<^sup>*\<^sup>* s t \<Longrightarrow> inv s \<Longrightarrow> inv t"
  by (induction rule: rtranclp_induct) (auto intro: preserved)

lemma everywhere: "init s \<Longrightarrow> step\<^sup>*\<^sup>* s t \<Longrightarrow> inv t"
  by (blast intro: along base)

end

lemma reachable_steps: "reachable cfg st w \<longleftrightarrow> (server_step cfg st)\<^sup>*\<^sup>* empty_world w"
proof
  show "reachable cfg st w \<Longrightarrow> (server_step cfg st)\<^sup>*\<^sup>* empty_world w"
    by (induction rule: reachable.induct) (auto intro: rtranclp.rtrancl_into_rtrancl)
  show "(server_step cfg st)\<^sup>*\<^sup>* empty_world w \<Longrightarrow> reachable cfg st w"
    by (induction rule: rtranclp_induct) (auto intro: reachable.intros)
qed

section \<open>Fields under the steps\<close>

lemma accept_conn_fields [simp]:
  "sessions (accept_conn a w) = sessions w" "next_sid (accept_conn a w) = next_sid w"
  "running (accept_conn a w) = running w" "registry (accept_conn a w) = registry w"
  "tasks (accept_conn a w) = tasks w @ [RunConn a]" "events (accept_conn a w) = events w"
  "metrics (accept_conn a w) = conn_opened (metrics w)"
  by (simp_all add: accept_conn_def)

lemma start_conn_fields [simp]:
  "sessions (start_conn e a w) = (sessions w)(next_sid w := new_session a (now_nano e))"
  "next_sid (start_conn e a w) = Suc (next_sid w)"
  "running (start_conn e a w) = running w @ [next_sid w]" "registry (start_conn e a w) = registry w"
  "tasks (start_conn e a w) = tasks w @ [AuthTimer (next_sid w)]" "events (start_conn e a w) = events w"
  "metrics (start_conn e a w) = metrics w"
  by (simp_all add: start_conn_def Let_def)

lemma end_conn_fields [simp]:
  "sessions (end_conn k w) = (sessions w)(k := close_conn (sessions w k))"
  "next_sid (end_conn k w) = next_sid w"
  "running (end_conn k w) = filter (\<lambda>j. j \<noteq> k) (running w)"
  "tasks (end_conn k w) = filter (\<lambda>t. t \<noteq> AuthTimer k) (tasks w) @
     (if s_phone (sessions w k) = [] then [] else [UnregisterPipe k])"
  "events (end_conn k w) = events w @ [ConnClose k]"
  "metrics (end_conn k w) = conn_ended (metrics w)"
  "reg_get p (end_conn k w) =
     (if p = s_phone (sessions w k) \<and> p \<noteq> [] \<and> reg_get p w = Some k then None else reg_get p w)"
proof -
  let ?v = "w\<lparr>tasks := filter (\<lambda>t. t \<noteq> AuthTimer k) (tasks w)\<rparr>"
  have gv: "reg_get q ?v = reg_get q w" for q by (simp add: reg_get_def)
  have "registry (end_conn k w) = registry (reg_unregister k ?v)" by (simp add: end_conn_def Let_def)
  then have "reg_get p (end_conn k w) = reg_get p (reg_unregister k ?v)" by (rule reg_get_cong)
  then show "reg_get p (end_conn k w) =
     (if p = s_phone (sessions w k) \<and> p \<noteq> [] \<and> reg_get p w = Some k then None else reg_get p w)"
    unfolding reg_unregister_get gv by simp
qed (simp_all add: end_conn_def Let_def)

lemma close_conn_fields [simp]:
  "s_state (close_conn s) = s_state s" "s_phone (close_conn s) = s_phone s"
  "out_seq (close_conn s) = out_seq s" "\<not> conn_open (close_conn s)"
  by (simp_all add: close_conn_def)

text \<open>What running a goroutine or a timer can do, the start of a connection aside.\<close>

lemma exec_task_effect:
  assumes "\<And>a. t \<noteq> RunConn a"
  shows "next_sid (exec_task e cfg t w) = next_sid w" "running (exec_task e cfg t w) = running w"
    "registry (exec_task e cfg t w) = registry w" "tasks (exec_task e cfg t w) = tasks w"
    "metrics (exec_task e cfg t w) = metrics w" "writes (exec_task e cfg t w) = writes w"
    "sessions (exec_task e cfg t w) k = (if (\<exists>d. t = CloseAfter d k) \<or>
       t = AuthTimer k \<and> s_state (sessions w k) < Authenticated then close_sess (sessions w k) else sessions w k)"
  using assms by (cases t; auto simp: auth_timer_fires_def publish_event_def publish_location_def do_close_def)+

text \<open>The frame read from the received bytes is dispatched, or the connection ends.\<close>

lemma conn_round_cases:
  obtains f rest where "conn_round e cfg st io sid w = dispatch e cfg st sid f (w\<lparr>rx := rest\<rparr>)"
  | rest where "conn_round e cfg st io sid w = end_conn sid (w\<lparr>rx := rest\<rparr>)"
  by (cases "fst (read_frame io (rx w sid))") (auto simp: conn_round_def Let_def split_beta)

text \<open>The steps of the server, with a round taken apart into a dispatch and a clean-up.\<close>

lemma server_step_cases [consumes 1, case_names accept arrive dispatched ended task prune]:
  assumes "server_step cfg st w w'"
  obtains addr where "w' = accept_conn addr w"
  | sid bs where "w' = w\<lparr>rx := bs\<rparr>" "sid \<in> set (running w)"
  | sid e f bs where "w' = dispatch e cfg st sid f (w\<lparr>rx := bs\<rparr>)" "sid \<in> set (running w)"
  | sid bs where "w' = end_conn sid (w\<lparr>rx := bs\<rparr>)" "sid \<in> set (running w)"
  | t e where "w' = exec_task e cfg t (w\<lparr>tasks := remove1 t (tasks w)\<rparr>)" "t \<in> set (tasks w)"
  | e where "w' = prune_stale e cfg (heartbeat_timeout cfg * 2) w"
proof (rule server_stepE [OF assms])
  show "w' = accept_conn addr w \<Longrightarrow> thesis" for addr by (rule that(1))
  show "w' = deliver sid bs w \<Longrightarrow> sid \<in> set (running w) \<Longrightarrow> conn_open (sessions w sid) \<Longrightarrow> thesis" for sid bs
    unfolding deliver_def by (rule that(2))
  show "w' = conn_round e cfg st io sid w \<Longrightarrow> sid \<in> set (running w) \<Longrightarrow> thesis" for sid e io
    by (rule conn_round_cases [of e cfg st io sid w]) (simp_all add: that(3,4))
  show "w' = exec_task e cfg t (w\<lparr>tasks := remove1 t (tasks w)\<rparr>) \<Longrightarrow> t \<in> set (tasks w) \<Longrightarrow> thesis" for t e
    by (rule that(5))
  show "w' = prune_stale e cfg (heartbeat_timeout cfg * 2) w \<Longrightarrow> thesis" for e by (rule that(6))
qed

section \<open>Connections and the gauge\<close>

fun is_run :: "task \<Rightarrow> bool" where
  "is_run (RunConn _) = True"
| "is_run _ = False"

text \<open>The sessions a goroutine or a timer refers to.\<close>

fun sids_of :: "task \<Rightarrow> nat set" where
  "sids_of (RegisterPipe k) = {k}"
| "sids_of (UnregisterPipe k) = {k}"
| "sids_of (HeartbeatPipe k) = {k}"
| "sids_of (CloseAfter _ k) = {k}"
| "sids_of (AuthTimer k) = {k}"
| "sids_of _ = {}"

definition starting :: "world \<Rightarrow> nat" where
  "starting w = length (filter is_run (tasks w))"

text \<open>
  The gauge is the number of connection goroutines, begun or not; sessions are numbered in the
  order they start; every reference to a session is to one that has started; the registry holds a
  phone once.
\<close>

definition conn_inv :: "world \<Rightarrow> bool" where
  "conn_inv w \<longleftrightarrow>
     connections_active (metrics w) = int (length (running w) + starting w) \<and>
     connections_total (metrics w) = next_sid w + starting w \<and>
     distinct (running w) \<and> (\<forall>k\<in>set (running w). k < next_sid w) \<and>
     (\<forall>t\<in>set (tasks w). \<forall>k\<in>sids_of t. k < next_sid w) \<and>
     (\<forall>p k. reg_get p w = Some k \<longrightarrow> k < next_sid w) \<and> distinct (map fst (registry w))"

lemma task_of_props: "task_of sid t \<Longrightarrow> \<not> is_run t \<and> sids_of t \<subseteq> {sid}"
  by (cases t) auto

lemma conn_inv_frame:
  assumes "conn_inv w" and "session_frame sid w v" and "sid < next_sid w"
  shows "conn_inv v"
proof -
  obtain ts where ts: "tasks v = tasks w @ ts" "\<forall>t\<in>set ts. task_of sid t"
    using assms(2) by (auto simp: session_frame_def)
  have none: "filter is_run ts = []" using ts(2) task_of_props by (auto simp: filter_empty_conv)
  have sids: "\<forall>t\<in>set ts. \<forall>k\<in>sids_of t. k < next_sid w"
    using ts(2) task_of_props assms(3) by blast
  have "reg_get p v = Some k \<Longrightarrow> k < next_sid w" for p k
    using assms unfolding session_frame_def conn_inv_def by (metis option.inject)
  moreover have "starting v = starting w" by (simp add: starting_def ts(1) none)
  ultimately show ?thesis
    using assms(1,2) sids by (auto simp: conn_inv_def session_frame_def ts(1))
qed

lemma length_without:
  "distinct xs \<Longrightarrow> k \<in> set xs \<Longrightarrow> length (filter (\<lambda>j. j \<noteq> k) xs) + 1 = length xs"
  using distinct_remove1_removeAll [of xs k] length_remove1 [of k xs]
  by (cases xs) (auto simp: removeAll_filter_not_eq eq_commute)

lemma starting_add [simp]: "starting (w\<lparr>rx := r\<rparr>) = starting w"
  by (simp add: starting_def)

lemma filter_remove1:
  "t \<in> set ts \<Longrightarrow> length (filter P ts) = length (filter P (remove1 t ts)) + (if P t then 1 else 0)"
  by (induction ts) auto

lemma starting_remove:
  "t \<in> set (tasks w) \<Longrightarrow>
     starting w = length (filter is_run (remove1 t (tasks w))) + (if is_run t then 1 else 0)"
  unfolding starting_def by (rule filter_remove1)

lemma conn_inv_end:
  assumes "conn_inv w" and "k \<in> set (running w)"
  shows "conn_inv (end_conn k w)"
proof -
  have len: "length (filter (\<lambda>j. j \<noteq> k) (running w)) + 1 = length (running w)"
    using assms by (intro length_without) (simp_all add: conn_inv_def)
  have "starting (end_conn k w) = starting w"
    by (simp add: starting_def) (metis (mono_tags, lifting) filter_cong is_run.simps(8))
  moreover have "distinct (map fst (registry (end_conn k w)))"
    using assms reg_unregister_distinct by (simp add: end_conn_def Let_def conn_inv_def)
  ultimately show ?thesis
    using assms len by (auto simp: conn_inv_def conn_ended_def)
qed

lemma conn_inv_rx [simp]: "conn_inv (w\<lparr>rx := r\<rparr>) = conn_inv w"
  by (simp add: conn_inv_def reg_get_def)

lemma conn_inv_remove_task:
  assumes "conn_inv w" and "t \<in> set (tasks w)" and "\<not> is_run t"
  shows "conn_inv (w\<lparr>tasks := remove1 t (tasks w)\<rparr>)"
  using assms starting_remove [OF assms(2)] set_remove1_subset [of t "tasks w"]
  by (auto simp: conn_inv_def reg_get_def starting_def)

lemma conn_inv_task:
  assumes "conn_inv w" and "t \<in> set (tasks w)"
  shows "conn_inv (exec_task e cfg t (w\<lparr>tasks := remove1 t (tasks w)\<rparr>))"
proof (cases "is_run t")
  case True
  then obtain a where t: "t = RunConn a" by (cases t) auto
  show ?thesis
    using assms(1) starting_remove [OF assms(2)] set_remove1_subset [of t "tasks w"]
    by (auto simp: t conn_inv_def starting_def reg_get_def less_Suc_eq)
next
  case False
  let ?v = "w\<lparr>tasks := remove1 t (tasks w)\<rparr>"
  have "\<And>a. t \<noteq> RunConn a" using False by auto
  note eff = exec_task_effect [OF this, where e = e and cfg = cfg and w = ?v]
  have "conn_inv ?v" by (rule conn_inv_remove_task [OF assms False])
  then show ?thesis by (simp add: conn_inv_def eff starting_def reg_get_def)
qed

lemma conn_inv_step:
  assumes "conn_inv w" and "server_step cfg st w w'"
  shows "conn_inv w'"
  using assms(2)
proof (cases rule: server_step_cases)
  case (accept addr)
  with assms(1) show ?thesis
    by (auto simp: conn_inv_def starting_def conn_opened_def reg_get_def)
next
  case (dispatched sid e f bs)
  then have "sid < next_sid w" using assms(1) by (simp add: conn_inv_def)
  with dispatched assms(1) show ?thesis
    using conn_inv_frame [OF _ frame_dispatch, of "w\<lparr>rx := bs\<rparr>" sid e cfg st f] by simp
next
  case (ended sid bs)
  with assms(1) show ?thesis using conn_inv_end [of "w\<lparr>rx := bs\<rparr>" sid] by simp
next
  case (prune e)
  with assms(1) show ?thesis
    by (simp add: prune_stale_def conn_inv_def starting_def reg_get_def)
qed (use assms(1) in \<open>simp_all add: conn_inv_task\<close>)

interpretation conn: invariant "\<lambda>w. w = empty_world" "server_step cfg st" conn_inv for cfg st
proof unfold_locales
  show "w = empty_world \<Longrightarrow> conn_inv w" for w
    by (simp add: conn_inv_def starting_def reg_get_def table_get_def new_metrics_def)
qed (rule conn_inv_step)

lemma reachable_conn_inv: "reachable cfg st w \<Longrightarrow> conn_inv w"
  using conn.everywhere [of empty_world cfg st w] by (simp add: reachable_steps)

section \<open>Dispatching, one session at a time\<close>

lemma sessions_rx [simp]:
  "writes (w\<lparr>rx := r\<rparr>) = writes w" "reg_get p (w\<lparr>rx := r\<rparr>) = reg_get p w"
  "writes (w\<lparr>tasks := ts\<rparr>) = writes w" "reg_get p (w\<lparr>tasks := ts\<rparr>) = reg_get p w"
  by (simp_all add: writes_def reg_get_def)

text \<open>Messages other than authentications leave the registry alone.\<close>

lemma dispatch_other:
  assumes "msg_id f \<noteq> msg_authentication"
  shows "registry (dispatch e cfg st sid f w) = registry w"
    and "k \<noteq> sid \<Longrightarrow> sessions (dispatch e cfg st sid f w) k = sessions w k"
    and "s_state (sessions (dispatch e cfg st sid f w) sid) = Registered \<or>
      s_state (sessions (dispatch e cfg st sid f w) sid) = s_state (sessions w sid) \<and>
      s_phone (sessions (dispatch e cfg st sid f w) sid) = s_phone (sessions w sid)"
proof -
  have "registry (dispatch e cfg st sid f w) = registry w \<and>
    (k \<noteq> sid \<longrightarrow> sessions (dispatch e cfg st sid f w) k = sessions w k) \<and>
    (s_state (sessions (dispatch e cfg st sid f w) sid) = Registered \<or>
      s_state (sessions (dispatch e cfg st sid f w) sid) = s_state (sessions w sid) \<and>
      s_phone (sessions (dispatch e cfg st sid f w) sid) = s_phone (sessions w sid))" for k
  proof (cases "msg_id f = msg_registration")
    case True
    show ?thesis
    proof (cases "decode_registration (body f)")
      case (Inl x)
      with True show ?thesis by (simp add: dispatch_cases handle_registration_def do_ack_send)
    next
      case (Inr info)
      show ?thesis
      proof (cases "device_allowed e st f info")
        case A: True
        show ?thesis using accepted_registration(1,2) [OF True Inr A, where cfg = cfg and sid = sid and w = w]
          by simp
      next
        case A: False
        show ?thesis using rejected_registration(1,2) [OF True Inr A, where cfg = cfg and sid = sid and w = w]
          by simp
      qed
    qed
  next
    case False
    with assms show ?thesis
      by (auto simp: dispatch_def Let_def do_ack_send handle_heartbeat_def handle_location_def
          handle_batch_location_def split_beta split: sum.split)
  qed
  then show "registry (dispatch e cfg st sid f w) = registry w"
    "k \<noteq> sid \<Longrightarrow> sessions (dispatch e cfg st sid f w) k = sessions w k"
    "s_state (sessions (dispatch e cfg st sid f w) sid) = Registered \<or>
      s_state (sessions (dispatch e cfg st sid f w) sid) = s_state (sessions w sid) \<and>
      s_phone (sessions (dispatch e cfg st sid f w) sid) = s_phone (sessions w sid)"
    by blast+
qed

text \<open>No dispatch makes a session Connected again.\<close>

lemma dispatch_connected:
  assumes "s_state (sessions (dispatch e cfg st sid f w) k) = Connected"
  shows "s_state (sessions w k) = Connected"
proof (cases "msg_id f = msg_authentication")
  case True
  show ?thesis
  proof (cases "token_accepted e cfg f")
    case A: True
    show ?thesis using assms authenticated_dispatch(2) [OF True A, where st = st and sid = sid and w = w and k = k]
      by (auto split: if_splits)
  next
    case A: False
    show ?thesis using assms refused_dispatch(1) [OF True A, where st = st and sid = sid and w = w]
      by (auto split: if_splits)
  qed
next
  case False
  show ?thesis using assms dispatch_other(2,3) [OF False, where e = e and cfg = cfg and st = st and sid = sid and w = w]
    by (cases "k = sid") auto
qed

section \<open>The authentication timer\<close>

definition timer_inv :: "world \<Rightarrow> bool" where
  "timer_inv w \<longleftrightarrow> (\<forall>k\<in>set (running w). s_state (sessions w k) = Connected \<longrightarrow> AuthTimer k \<in> set (tasks w))"

lemma timer_inv_step:
  assumes "timer_inv w" and "conn_inv w" and "server_step cfg st w w'"
  shows "timer_inv w'"
  using assms(3)
proof (cases rule: server_step_cases)
  case (dispatched sid e f bs)
  then obtain ts where "tasks w' = tasks w @ ts" "running w' = running w"
    using frame_dispatch [of sid "w\<lparr>rx := bs\<rparr>" e cfg st f] by (auto simp: session_frame_def)
  with assms(1) dispatched show ?thesis
    using dispatch_connected [of e cfg st sid f "w\<lparr>rx := bs\<rparr>"] by (auto simp: timer_inv_def)
next
  case (task t e)
  show ?thesis
  proof (cases "is_run t")
    case True
    then obtain a where t: "t = RunConn a" by (cases t) auto
    show ?thesis using assms(1,2) task by (auto simp: t timer_inv_def conn_inv_def in_set_remove1)
  next
    case False
    then have "\<And>a. t \<noteq> RunConn a" by auto
    note eff = exec_task_effect [OF this, where e = e and cfg = cfg]
    show ?thesis using assms(1) task
      by (auto simp: timer_inv_def eff in_set_remove1 split: if_splits)
  qed
qed (use assms(1) in \<open>auto simp: timer_inv_def prune_stale_def\<close>)

section \<open>One live session per phone\<close>

text \<open>
  A running authenticated session is the registered one of its phone. The exception is a session
  that authenticated with an empty phone and got its phone later.
\<close>

definition phone_inv :: "world \<Rightarrow> bool" where
  "phone_inv w \<longleftrightarrow> (\<forall>k\<in>set (running w). s_state (sessions w k) = Authenticated \<longrightarrow>
     reg_get (s_phone (sessions w k)) w = Some k \<or> reg_get [] w = Some k)"

lemma phone_inv_authentication:
  assumes "phone_inv w" and "msg_id f = msg_authentication"
  shows "phone_inv (dispatch e cfg st sid f w)"
proof (cases "token_accepted e cfg f")
  case True
  note auth = authenticated_dispatch(1,2) [OF assms(2) True, where st = st and sid = sid and w = w]
  have run: "running (dispatch e cfg st sid f w) = running w"
    using frame_dispatch [of sid w e cfg st f] by (simp add: session_frame_def)
  show ?thesis using assms(1) by (auto simp: phone_inv_def run auth split: if_splits)
next
  case False
  note refused = refused_dispatch [OF assms(2) False, where st = st and sid = sid and w = w]
  have run: "running (dispatch e cfg st sid f w) = running w"
    using frame_dispatch [of sid w e cfg st f] by (simp add: session_frame_def)
  show ?thesis using assms(1) by (auto simp: phone_inv_def run refused auth_phone_def)
qed

lemma phone_inv_other:
  assumes "phone_inv w" and "msg_id f \<noteq> msg_authentication"
  shows "phone_inv (dispatch e cfg st sid f w)"
proof -
  note other = dispatch_other [OF assms(2), where e = e and cfg = cfg and st = st and sid = sid and w = w]
  have run: "running (dispatch e cfg st sid f w) = running w"
    using frame_dispatch [of sid w e cfg st f] by (simp add: session_frame_def)
  show ?thesis unfolding phone_inv_def run reg_get_cong [OF other(1)]
  proof (intro ballI impI)
    fix k
    assume k: "k \<in> set (running w)" "s_state (sessions (dispatch e cfg st sid f w) k) = Authenticated"
    then have "s_state (sessions w k) = Authenticated \<and>
        s_phone (sessions (dispatch e cfg st sid f w) k) = s_phone (sessions w k)"
      using other(2) [of k] other(3) by (cases "k = sid") auto
    with assms(1) k(1) show "reg_get (s_phone (sessions (dispatch e cfg st sid f w) k)) w = Some k \<or>
        reg_get [] w = Some k" by (auto simp: phone_inv_def)
  qed
qed

lemma phone_inv_step:
  assumes "phone_inv w" and "conn_inv w" and "server_step cfg st w w'"
  shows "phone_inv w'"
  using assms(3)
proof (cases rule: server_step_cases)
  case (dispatched sid e f bs)
  have "phone_inv (w\<lparr>rx := bs\<rparr>)" using assms(1) by (simp add: phone_inv_def)
  then show ?thesis unfolding dispatched(1)
    using phone_inv_authentication phone_inv_other by blast
next
  case (task t e)
  show ?thesis
  proof (cases "is_run t")
    case True
    then obtain a where t: "t = RunConn a" by (cases t) auto
    have "reg_get p w' = reg_get p w" for p unfolding task t by (simp add: reg_get_def)
    then show ?thesis using assms(1,2) task(1) by (auto simp: t phone_inv_def conn_inv_def)
  next
    case False
    then have "\<And>a. t \<noteq> RunConn a" by auto
    note eff = exec_task_effect [OF this, where e = e and cfg = cfg]
    have "reg_get p w' = reg_get p w" for p unfolding task(1) reg_get_def by (simp add: eff)
    then show ?thesis using assms(1) task(1)
      by (auto simp: phone_inv_def eff split: if_splits)
  qed
next
  case (accept addr)
  have "reg_get p w' = reg_get p w" for p unfolding accept reg_get_def by simp
  with assms(1) accept show ?thesis by (simp add: phone_inv_def)
next
  case (prune e)
  have "reg_get p w' = reg_get p w" for p unfolding prune reg_get_def by (simp add: prune_stale_def)
  with assms(1) prune show ?thesis by (simp add: phone_inv_def prune_stale_def)
qed (use assms(1) in \<open>auto simp: phone_inv_def\<close>)

section \<open>Sequence numbers\<close>

text \<open>What was written on connection \<open>k\<close>, and a list of messages numbered from one.\<close>

definition wire :: "nat \<Rightarrow> world \<Rightarrow> bytes list" where
  "wire k w = [out. ConnWrite j out d err \<leftarrow> writes w, j = k]"

definition numbered :: "(u16 \<times> string \<times> bytes) list \<Rightarrow> bytes list" where
  "numbered ms = map (\<lambda>(n, i, p, b). encode_frame i p (of_nat (Suc n)) b) (enumerate 0 ms)"

lemma numbered_Nil [simp]: "numbered [] = []"
  by (simp add: numbered_def)

lemma numbered_snoc:
  "numbered (ms @ [(i, p, b)]) = numbered ms @ [encode_frame i p (of_nat (Suc (length ms))) b]"
  by (simp add: numbered_def enumerate_append_eq)

definition seq_inv :: "world \<Rightarrow> bool" where
  "seq_inv w \<longleftrightarrow> (\<forall>k. if k < next_sid w
     then \<exists>ms. wire k w = numbered ms \<and> out_seq (sessions w k) = of_nat (length ms)
     else wire k w = [])"

lemma next_seq_of_nat: "out_seq s = of_nat n \<Longrightarrow> next_seq s = of_nat (Suc n)"
proof -
  assume "out_seq s = of_nat n"
  then have "unat (next_seq s) = (n mod 2 ^ 32 + 1) mod 2 ^ 16"
    by (simp add: next_seq_nat unat_of_nat take_bit_eq_mod)
  also have "\<dots> = (n + 1) mod 2 ^ 16"
    by (rule mod_add_cong [OF _ refl]) (simp add: mod_mod_cancel)
  also have "\<dots> = unat (of_nat (Suc n) :: u16)" by (simp add: unat_of_nat take_bit_eq_mod del: of_nat_Suc)
  finally show ?thesis by (rule unsigned_word_eqI)
qed

lemma seq_inv_same:
  assumes "seq_inv w" and "next_sid v = next_sid w" and "writes v = writes w"
    and "\<And>k. out_seq (sessions v k) = out_seq (sessions w k)"
  shows "seq_inv v"
proof -
  have "wire k v = wire k w" for k by (simp add: wire_def assms(3))
  with assms show ?thesis by (simp add: seq_inv_def)
qed

lemma seq_inv_dispatch:
  assumes "seq_inv w" and "sid < next_sid w"
  shows "seq_inv (dispatch e cfg st sid f w)"
proof (cases "msg_id f = msg_terminal_resp")
  case True
  show ?thesis using assms(1) by (rule seq_inv_same) (simp_all add: dispatch_cases(6) [OF True])
next
  case False
  let ?v = "dispatch e cfg st sid f w"
  obtain i b where "answered cfg sid f i b w ?v"
    using answered_dispatch [OF False, where e = e and cfg = cfg and st = st and sid = sid and w = w] by blast
  then obtain p err where
    wr: "writes ?v = writes w @ [ConnWrite sid (encode_frame i p (next_seq (sessions w sid)) b) (write_timeout cfg) err]"
    and sq: "out_seq (sessions ?v sid) = out_seq (sessions w sid) + 1"
    by (auto simp: answered_defs)
  have fr: "next_sid ?v = next_sid w"
    "k \<noteq> sid \<Longrightarrow> sessions ?v k = sessions w k \<or> sessions ?v k = close_sess (sessions w k)" for k
    using frame_dispatch [of sid w e cfg st f] by (simp_all add: session_frame_def)
  have other: "k \<noteq> sid \<Longrightarrow> out_seq (sessions ?v k) = out_seq (sessions w k)" for k
    using fr(2) [of k] by auto
  have wire: "wire k ?v = wire k w @ (if k = sid then [encode_frame i p (next_seq (sessions w sid)) b] else [])" for k
    by (simp add: wire_def wr)
  obtain ms where ms: "wire sid w = numbered ms" "out_seq (sessions w sid) = of_nat (length ms)"
    using assms unfolding seq_inv_def by metis
  have self: "wire sid ?v = numbered (ms @ [(i, p, b)]) \<and> out_seq (sessions ?v sid) = of_nat (length (ms @ [(i, p, b)]))"
    by (simp add: wire ms numbered_snoc next_seq_of_nat [OF ms(2)] sq)
  show ?thesis unfolding seq_inv_def fr(1)
  proof (rule allI)
    fix k
    show "if k < next_sid w then \<exists>ms. wire k ?v = numbered ms \<and> out_seq (sessions ?v k) = of_nat (length ms)
      else wire k ?v = []"
    proof (cases "k = sid")
      case True
      with self assms(2) show ?thesis by (simp only: if_True) blast
    next
      case False
      then show ?thesis using assms(1) [unfolded seq_inv_def, rule_format, of k] by (simp add: wire other)
    qed
  qed
qed

lemma seq_inv_step:
  assumes "seq_inv w" and "conn_inv w" and "server_step cfg st w w'"
  shows "seq_inv w'"
  using assms(3)
proof (cases rule: server_step_cases)
  case (dispatched sid e f bs)
  have "sid < next_sid w" using dispatched(2) assms(2) by (simp add: conn_inv_def)
  moreover have "seq_inv (w\<lparr>rx := bs\<rparr>)" using assms(1) by (rule seq_inv_same) simp_all
  ultimately show ?thesis using dispatched(1) seq_inv_dispatch by simp
next
  case (task t e)
  show ?thesis
  proof (cases "is_run t")
    case True
    then obtain a where t: "t = RunConn a" by (cases t) auto
    have "wire k w' = wire k w" for k using task(1) by (simp add: wire_def writes_def t)
    then show ?thesis using assms(1) task(1)
      by (auto simp: t seq_inv_def less_Suc_eq intro: exI [of _ "[]"])
  next
    case False
    then have "\<And>a. t \<noteq> RunConn a" by auto
    note eff = exec_task_effect [OF this, where e = e and cfg = cfg]
    show ?thesis unfolding task(1) using assms(1) by (rule seq_inv_same) (simp_all add: eff)
  qed
next
  case (ended sid bs)
  show ?thesis unfolding ended(1) using assms(1) by (rule seq_inv_same) (simp_all add: writes_def)
next
  case (prune e)
  show ?thesis unfolding prune using assms(1) by (rule seq_inv_same) (simp_all add: prune_stale_def)
next
  case (accept addr)
  show ?thesis unfolding accept using assms(1) by (rule seq_inv_same) (simp_all add: writes_def)
next
  case (arrive sid bs)
  show ?thesis unfolding arrive(1) using assms(1) by (rule seq_inv_same) simp_all
qed

section \<open>Every reachable state\<close>

text \<open>The other invariants, each together with the one their proofs rest on.\<close>

lemma invs_empty [simp]:
  "conn_inv empty_world" "timer_inv empty_world" "phone_inv empty_world" "seq_inv empty_world"
  by (rule conn.base [OF refl])
    (simp_all add: timer_inv_def phone_inv_def seq_inv_def wire_def writes_def)

interpretation timer: invariant "\<lambda>w. w = empty_world" "server_step cfg st" "\<lambda>w. conn_inv w \<and> timer_inv w" for cfg st
  by unfold_locales (simp, blast intro: conn_inv_step timer_inv_step)

interpretation phone: invariant "\<lambda>w. w = empty_world" "server_step cfg st" "\<lambda>w. conn_inv w \<and> phone_inv w" for cfg st
  by unfold_locales (simp, blast intro: conn_inv_step phone_inv_step)

interpretation seq: invariant "\<lambda>w. w = empty_world" "server_step cfg st" "\<lambda>w. conn_inv w \<and> seq_inv w" for cfg st
  by unfold_locales (simp, blast intro: conn_inv_step seq_inv_step)

lemma reachable_invs:
  assumes "reachable cfg st w"
  shows "timer_inv w" "phone_inv w" "seq_inv w"
  using assms timer.everywhere [of empty_world cfg st w] phone.everywhere [of empty_world cfg st w]
    seq.everywhere [of empty_world cfg st w]
  by (simp_all add: reachable_steps)

end
