(* ===== verification/Frame_Laws.thy ===== *)
theory Frame_Laws
  imports Frame
begin

text \<open>
  The laws of the wire format: what \<open>ReadFrame\<close> returns on what \<open>WriteFrame\<close> wrote, on any
  delimited segment, on truncated and on corrupted input, and when the BCD phone number
  survives the two conversions.
\<close>

section \<open>Nibbles\<close>

text \<open>The nibbles of a BCD field, high before low, and the packing that inverts it.\<close>

definition hi_nibble :: "u8 \<Rightarrow> u8" where
  "hi_nibble v = drop_bit 4 v AND 0x0f"

definition lo_nibble :: "u8 \<Rightarrow> u8" where
  "lo_nibble v = v AND 0x0f"

definition pack_byte :: "u8 \<Rightarrow> u8 \<Rightarrow> u8" where
  "pack_byte x y = push_bit 4 x OR y"

fun nibbles :: "bytes \<Rightarrow> bytes" where
  "nibbles [] = []"
| "nibbles (v # b) = hi_nibble v # lo_nibble v # nibbles b"

fun pack_bcd :: "bytes \<Rightarrow> bytes" where
  "pack_bcd [] = []"
| "pack_bcd [x] = [pack_byte x 0x0f]"
| "pack_bcd (x # y # ns) = pack_byte x y # pack_bcd ns"

text \<open>The runes of a phone number whose characters are the given nibbles.\<close>

fun rune_run :: "nat \<Rightarrow> bytes \<Rightarrow> (nat \<times> u32) list" where
  "rune_run i [] = []"
| "rune_run i (n # ns) = (i, ucast (0x30 + n)) # rune_run (Suc i) ns"

text \<open>The characters a decoded phone number can have: '0' to '9' and the five after them.\<close>

definition phone_char :: "char \<Rightarrow> bool" where
  "phone_char c \<longleftrightarrow> 0x30 \<le> byte_of_char c \<and> byte_of_char c < 0x3f"

definition nibble_of_char :: "char \<Rightarrow> u8" where
  "nibble_of_char c = byte_of_char c - 0x30"

lemma nibble_less_16: "(v :: u8) AND 0x0f < 0x10"
proof -
  have "v AND 0x0f \<le> 0x0f" by (rule word_and_le1)
  then show ?thesis by (rule order_le_less_trans) simp
qed

lemma nibble_cases:
  assumes "(n :: u8) < 0x10"
  shows "n \<in> {0, 1, 2, 3, 4, 5, 6, 7, 8, 9, 10, 11, 12, 13, 14, 15}"
proof -
  have "unat n < 16" using assms by (simp add: word_less_nat_alt)
  then have "unat n \<in> {0..<16}" by simp
  then have "unat n \<in> {0, 1, 2, 3, 4, 5, 6, 7, 8, 9, 10, 11, 12, 13, 14, 15}"
    by (simp add: atLeastLessThan_nat_numeral insert_commute) 
  then have "of_nat (unat n) \<in> {0, 1, 2, 3, 4, 5, 6, 7, 8, 9, 10, 11, 12, 13, 14, 15 :: u8}"
    by (elim insertE) simp_all
  then show ?thesis by simp
qed

lemma bit_nibble: "(n :: u8) < 0x10 \<Longrightarrow> bit n k \<Longrightarrow> k < 4"
proof (rule ccontr)
  assume "n < 0x10" "bit n k" "\<not> k < 4"
  then have "bit (drop_bit 4 n) (k - 4)" by (simp add: bit_drop_bit_eq)
  then have "drop_bit 4 n \<noteq> 0" by auto
  with nibble_cases [OF \<open>n < 0x10\<close>] show False by (elim insertE) simp_all
qed

lemma bit_0f: "bit (0x0f :: int) k \<longleftrightarrow> k < 4"
proof -
  have "(0x0f :: int) = mask 4" by (simp add: mask_eq_exp_minus_1)
  then show ?thesis by (simp only: bit_mask_iff possible_bit_int) auto
qed

lemma bit_f0: "bit (0xf0 :: int) k \<longleftrightarrow> 4 \<le> k \<and> k < 8"
proof -
  have "(0xf0 :: int) = push_bit 4 (mask 4)" by (simp add: mask_eq_exp_minus_1 push_bit_eq_mult)
  then show ?thesis by (simp only: bit_push_bit_iff bit_mask_iff possible_bit_int) auto
qed

lemmas bit_u8 = bit_0f bit_f0 bit_simps hi_nibble_def lo_nibble_def pack_byte_def

lemma bits_high_nibble: "push_bit 4 x OR y = pack_byte x y"
  by (simp add: pack_byte_def)

lemma hi_pack [simp]:
  assumes "x < 0x10" "y < 0x10"
  shows "hi_nibble (pack_byte x y) = x"
proof (rule bit_word_eqI)
  fix n assume "n < LENGTH(8)"
  have "\<not> bit y (4 + n)" "bit x n \<Longrightarrow> n < 4"
    using bit_nibble [OF assms(2)] bit_nibble [OF assms(1)] by force+
  with \<open>n < LENGTH(8)\<close> show "bit (hi_nibble (pack_byte x y)) n = bit x n"
    by (auto simp: bit_u8)
qed

lemma lo_pack [simp]:
  assumes "y < 0x10"
  shows "lo_nibble (pack_byte x y) = y"
proof (rule bit_word_eqI)
  fix n assume "n < LENGTH(8)"
  have "bit y n \<Longrightarrow> n < 4" using bit_nibble [OF assms] .
  with \<open>n < LENGTH(8)\<close> show "bit (lo_nibble (pack_byte x y)) n = bit y n"
    by (auto simp: bit_u8)
qed

lemma repack_low [simp]:
  assumes "y < 0x10"
  shows "(pack_byte x 0x0f AND 0xf0) OR y = pack_byte x y"
proof (rule bit_word_eqI)
  fix n assume "n < LENGTH(8)"
  have "bit y n \<Longrightarrow> n < 4" using bit_nibble [OF assms] .
  with \<open>n < LENGTH(8)\<close> show "bit ((pack_byte x 0x0f AND 0xf0) OR y) n = bit (pack_byte x y) n"
    by (auto simp: bit_u8)
qed

lemma pack_nibbles [simp]: "pack_byte (hi_nibble v) (lo_nibble v) = v"
  by (rule bit_word_eqI) (auto simp: bit_u8)

lemma length_nibbles [simp]: "length (nibbles b) = 2 * length b"
  by (induction b) auto

lemma nibbles_less: "n \<in> set (nibbles b) \<Longrightarrow> n < 0x10"
  by (induction b) (auto simp: hi_nibble_def lo_nibble_def nibble_less_16)

lemma nibbles_append [simp]: "nibbles (a @ b) = nibbles a @ nibbles b"
  by (induction a) auto

lemma nibbles_replicate_ff: "nibbles (replicate k 0xff) = replicate (2 * k) 0x0f"
  by (induction k) (auto simp: hi_nibble_def lo_nibble_def)

lemma pack_bcd_nibbles: "pack_bcd (nibbles b) = b"
  by (induction b) simp_all

lemma nibbles_pack_bcd:
  "\<forall>n\<in>set ns. n < 0x10 \<Longrightarrow>
     nibbles (pack_bcd ns) = ns @ (if even (length ns) then [] else [0x0f])"
  by (induction ns rule: pack_bcd.induct) auto

lemma length_pack_bcd: "length (pack_bcd ns) = (length ns + 1) div 2"
  by (induction ns rule: pack_bcd.induct) auto

lemma take_nibbles: "nibbles (take k b) = take (2 * k) (nibbles b)"
proof (induction b arbitrary: k)
  case (Cons v b)
  then show ?case by (cases k) auto
qed simp

lemma less_0x10_cases: "(n :: u8) < 0x10 \<Longrightarrow> n \<noteq> 0x0f \<Longrightarrow> n < 0x0f"
  by (drule nibble_cases) (elim insertE; simp)

lemma decode_bcd_nibbles: "decode_bcd b = map nibble_char (filter (\<lambda>n. n \<noteq> 0x0f) (nibbles b))"
  by (induction b) (auto simp: Let_def hi_nibble_def lo_nibble_def)

section \<open>The encoder on phone characters\<close>

lemma nibble_of_nibble_char [simp]: "nibble_of_char (nibble_char n) = n"
  by (simp add: nibble_of_char_def nibble_char_def)

lemma nibble_char_of_char [simp]: "nibble_char (nibble_of_char c) = c"
  by (simp add: nibble_of_char_def nibble_char_def)

lemma phone_char_nibble: "phone_char c \<Longrightarrow> nibble_of_char c < 0x0f"
  unfolding phone_char_def nibble_of_char_def by unat_arith

lemma nibble_phone_char: "n < 0x0f \<Longrightarrow> phone_char (nibble_char n)"
  unfolding phone_char_def nibble_char_def by (simp, unat_arith, simp)

lemma decode_rune_ascii: "(0x30 :: u8) + n < 0x80 \<Longrightarrow> decode_rune ((0x30 + n) # r) = (ucast (0x30 + n), 1)"
  by simp

lemma range_string_nibbles:
  "\<forall>n\<in>set ns. n < 0x10 \<Longrightarrow> range_string i (map (\<lambda>n. 0x30 + n) ns) = rune_run i ns"
proof (induction ns arbitrary: i)
  case Nil
  then show ?case by (simp add: range_string.simps)
next
  case (Cons n ns)
  then have "n < 0x10" by simp
  then have "0x30 + n < 0x80" by unat_arith
  with Cons show ?case
    by (subst range_string.simps) (simp add: decode_rune_ascii del: decode_rune.simps)
qed

lemma rune_nibble: "n < 0x10 \<Longrightarrow> (ucast (ucast ((0x30 :: u8) + n) - (0x30 :: u32)) :: u8) = n"
  by (drule nibble_cases) (elim insertE; simp)

lemma length_bcd_put [simp]: "length (bcd_put i n b) = length b"
  by (simp add: bcd_put_def)

lemma length_encode_bcd_loop [simp]: "length (encode_bcd_loop xs b) = length b"
  by (induction xs b rule: encode_bcd_loop.induct) auto

lemma length_encode_bcd [simp]: "length (encode_bcd p) = 6"
  by (simp add: encode_bcd_def)

lemma encode_bcd_loop_run:
  assumes "\<forall>n\<in>set ns. n < 0x10" and "length pre + k = 6"
  shows "encode_bcd_loop (rune_run (2 * length pre) ns) (pre @ replicate k 0xff) =
           pre @ take k (pack_bcd ns @ replicate k 0xff)"
  using assms
proof (induction ns arbitrary: pre k rule: pack_bcd.induct)
  case 1
  then show ?case by simp
next
  case (2 x)
  moreover have "take n (replicate n a) = take n (a # replicate n a)" for n and a :: u8
    by (cases n) (simp_all add: replicate_append_same [symmetric])
  ultimately show ?case
    by (cases k) (auto simp: bcd_put_def rune_nibble bits_high_nibble list_update_append)
next
  case (3 x y ns)
  show ?case
  proof (cases k)
    case 0
    with 3 show ?thesis by simp
  next
    case (Suc k')
    have "encode_bcd_loop (rune_run (2 * length (pre @ [pack_byte x y])) ns)
        ((pre @ [pack_byte x y]) @ replicate k' 0xff) =
        (pre @ [pack_byte x y]) @ take k' (pack_bcd ns @ replicate k' 0xff)"
      by (rule "3.IH") (use 3 Suc in auto)
    moreover have "take k' (pack_bcd ns @ 0xff # replicate k' 0xff) = take k' (pack_bcd ns @ replicate k' 0xff)"
      by (simp add: replicate_append_same [symmetric] take_append)
    ultimately show ?thesis
      using 3 Suc by (auto simp: bcd_put_def rune_nibble bits_high_nibble list_update_append nth_append)
  qed
qed

lemma encode_bcd_nibbles:
  assumes "\<forall>n\<in>set ns. n < 0x0f"
  shows "encode_bcd (map nibble_char ns) = take 6 (pack_bcd ns @ replicate 6 0xff)"
proof -
  have ns: "\<forall>n\<in>set ns. n < 0x10"
    using assms by (auto intro: order_less_trans [where y = "0x0f"])
  have "bytes_of_string (map nibble_char ns) = map (\<lambda>n. 0x30 + n) ns"
    by (simp add: bytes_of_string_def nibble_char_def)
  with encode_bcd_loop_run [OF ns, of "[]" 6] ns show ?thesis
    by (simp add: encode_bcd_def range_string_nibbles)
qed

lemma nibbles_encode_bcd:
  assumes "\<forall>n\<in>set ns. n < 0x0f"
  shows "nibbles (encode_bcd (map nibble_char ns)) = take 12 (ns @ replicate 12 0x0f)"
proof -
  have ns: "\<forall>n\<in>set ns. n < 0x10"
    using assms by (auto intro: order_less_trans [where y = "0x0f"])
  have "nibbles (encode_bcd (map nibble_char ns)) =
      take (2 * 6) ((ns @ (if even (length ns) then [] else [0x0f])) @ replicate (2 * 6) 0x0f)"
    by (simp only: encode_bcd_nibbles [OF assms] take_nibbles nibbles_append nibbles_pack_bcd [OF ns]
        nibbles_replicate_ff)
  also have "\<dots> = take 12 (ns @ replicate 12 0x0f)"
  proof -
    have "(0x0f :: u8) # replicate (11 - k) 0x0f = replicate (12 - k) 0x0f" if "k < 12" for k
    proof -
      from that have "12 - k = Suc (11 - k)" by simp
      then show ?thesis by (simp only: replicate_Suc)
    qed
    then show ?thesis by (auto simp: take_Cons' not_le)
  qed
  finally show ?thesis .
qed

section \<open>Parsing what was written\<close>

lemma length_frame_header [simp]: "length (frame_header i p q n) = 12"
  by (simp add: frame_header_def)

lemma attrs_not_sub: "(of_nat n AND 0x03FF) AND 0x2000 = (0 :: u16)"
  by (simp add: and.assoc)

lemma parse_payload_header:
  "parse_payload (frame_header i p q n @ bdy) =
     \<lparr>msg_id = i, phone = decode_bcd (encode_bcd p), seq_num = q, body = bdy,
      is_subpackage = False, total_pkg = 0, pkg_seq = 0\<rparr>"
  by (simp add: parse_payload_def frame_header_def codec_simps attrs_not_sub Let_def)

lemma check_raw_written:
  "check_raw (frame_header i p q n @ bdy @ [xor_checksum (frame_header i p q n @ bdy)]) =
     Inr \<lparr>msg_id = i, phone = decode_bcd (encode_bcd p), seq_num = q, body = bdy,
          is_subpackage = False, total_pkg = 0, pkg_seq = 0\<rparr>"
proof -
  define x where "x = frame_header i p q n @ bdy"
  have "12 \<le> length x" by (simp add: x_def)
  then have "check_raw (x @ [xor_checksum x]) = Inr (parse_payload x)"
    by (simp add: check_raw_Inr)
  then show ?thesis by (simp only: x_def parse_payload_header append_assoc)
qed

lemma encode_frame_alt:
  "encode_frame i p q bdy =
     flag_byte # escape (frame_header i p q (length bdy) @ bdy @
       [xor_checksum (frame_header i p q (length bdy) @ bdy)]) @ [flag_byte]"
  by (simp add: encode_frame_def Let_def)

lemma read_frame_written:
  assumes "flag_byte \<notin> set garbage"
  shows "read_frame e (garbage @ encode_frame i p q bdy @ rest) =
    (Inr \<lparr>msg_id = i, phone = decode_bcd (encode_bcd p), seq_num = q, body = bdy,
          is_subpackage = False, total_pkg = 0, pkg_seq = 0\<rparr>, rest)"
  using assms read_frame_segment [OF _ stuffing.flag_free stuffing.unstuff_stuff] check_raw_written
  by (simp add: encode_frame_alt)

lemma decode_encode_bcd:
  assumes "\<forall>c\<in>set p. phone_char c"
  shows "decode_bcd (encode_bcd p) = take 12 p"
proof -
  define ns where "ns = map nibble_of_char p"
  have p: "p = map nibble_char ns" by (simp add: ns_def comp_def)
  have ns: "\<forall>n\<in>set ns. n < 0x0f" using assms by (auto simp: ns_def phone_char_nibble)
  have "filter (\<lambda>n. n \<noteq> 0x0f) (nibbles (encode_bcd p)) = take 12 ns"
    using ns by (auto simp: p nibbles_encode_bcd filter_id_conv take_append dest: in_set_takeD)
  then show ?thesis by (simp add: decode_bcd_nibbles p take_map)
qed

section \<open>Properties\<close>

text \<open>
  C5 (round trip). Whatever flag-free garbage precedes it and whatever follows it, a frame
  written by \<open>WriteFrame\<close> is read back by \<open>ReadFrame\<close> with its message id, sequence number and
  body, of any length and content, as an unfragmented frame, and the reader stops exactly
  behind it. The phone is the one that survives the BCD field.
\<close>

theorem read_frame_encode_frame:
  assumes "flag_byte \<notin> set garbage"
  shows "read_frame e (garbage @ encode_frame i p q bdy @ rest) =
    (Inr \<lparr>msg_id = i, phone = decode_bcd (encode_bcd p), seq_num = q, body = bdy,
          is_subpackage = False, total_pkg = 0, pkg_seq = 0\<rparr>, rest)"
  using assms by (rule read_frame_written)

theorem read_frame_encode_frame_witness:
  "read_frame EOF ([0x01] @ encode_frame 0x0002 ''013987654321'' 7 [0x7e, 0x7d] @ [0x55]) =
    (Inr \<lparr>msg_id = 0x0002, phone = decode_bcd (encode_bcd ''013987654321''), seq_num = 7,
          body = [0x7e, 0x7d], is_subpackage = False, total_pkg = 0, pkg_seq = 0\<rparr>, [0x55])"
  by (rule read_frame_encode_frame) (simp add: flag_byte_def)

text \<open>
  C37 (phone round trip). A phone number whose characters are digits (or one of the five
  characters that decoding can produce for the nibbles 10 to 14) survives the BCD field up to
  its first 12 characters.
\<close>

theorem phone_roundtrip:
  assumes "\<forall>c\<in>set p. phone_char c"
  shows "decode_bcd (encode_bcd p) = take 12 p"
  using assms by (rule decode_encode_bcd)

theorem phone_roundtrip_witness:
  "decode_bcd (encode_bcd ''8613987654321'') = ''861398765432''"
  using phone_roundtrip [of "''8613987654321''"]
  by (simp add: phone_char_def byte_of_char_def)

text \<open>
  Canonical phones. Encoding a decoded 6-byte phone field gives the field back exactly
  when its 0xf nibbles are all at the end; an 0xf nibble inside is dropped by decoding and
  lost.
\<close>

theorem phone_field_canonical:
  assumes "length b = 6"
  shows "encode_bcd (decode_bcd b) = b \<longleftrightarrow>
    (\<exists>ds k. nibbles b = ds @ replicate k 0x0f \<and> 0x0f \<notin> set ds)"
proof -
  define ds where "ds = filter (\<lambda>n. n \<noteq> 0x0f) (nibbles b)"
  have ds15: "\<forall>n\<in>set ds. n < 0x0f"
    using nibbles_less by (fastforce simp: ds_def dest: less_0x10_cases)
  have "length ds \<le> 12" using assms length_filter_le [of _ "nibbles b"] by (simp add: ds_def)
  with nibbles_encode_bcd [OF ds15]
  have nib: "nibbles (encode_bcd (decode_bcd b)) = ds @ replicate (12 - length ds) 0x0f"
    by (simp add: decode_bcd_nibbles ds_def)
  have inj: "encode_bcd (decode_bcd b) = b \<longleftrightarrow> nibbles (encode_bcd (decode_bcd b)) = nibbles b"
    by (metis pack_bcd_nibbles)
  show ?thesis
  proof
    assume "encode_bcd (decode_bcd b) = b"
    with nib have "nibbles b = ds @ replicate (12 - length ds) 0x0f" by simp
    moreover have "0x0f \<notin> set ds" by (simp add: ds_def)
    ultimately show "\<exists>ds k. nibbles b = ds @ replicate k 0x0f \<and> 0x0f \<notin> set ds" by blast
  next
    assume "\<exists>ds k. nibbles b = ds @ replicate k 0x0f \<and> 0x0f \<notin> set ds"
    then obtain ds' k where *: "nibbles b = ds' @ replicate k 0x0f" "0x0f \<notin> set ds'" by blast
    then have "ds = ds'" by (auto simp: ds_def filter_id_conv)
    moreover have "length (nibbles b) = 12" using assms by simp
    with * have "k = 12 - length ds'" by simp
    ultimately show "encode_bcd (decode_bcd b) = b" using nib inj * by simp
  qed
qed

theorem phone_field_canonical_witness:
  "encode_bcd (decode_bcd [0x01, 0x39, 0x87, 0x65, 0x43, 0xff]) = [0x01, 0x39, 0x87, 0x65, 0x43, 0xff]"
proof -
  have "nibbles [0x01, 0x39, 0x87, 0x65, 0x43, 0xff] =
      [0x0, 0x1, 0x3, 0x9, 0x8, 0x7, 0x6, 0x5, 0x4, 0x3] @ replicate (Suc (Suc 0)) 0x0f"
    by (simp add: hi_nibble_def lo_nibble_def)
  moreover have "0x0f \<notin> set [0x0, 0x1, 0x3, 0x9, 0x8, 0x7, 0x6, 0x5, 0x4, 0x3 :: u8]" by simp
  ultimately have ex: "\<exists>ds k. nibbles [0x01, 0x39, 0x87, 0x65, 0x43, 0xff] = ds @ replicate k 0x0f \<and>
      0x0f \<notin> set ds"
    by blast
  show ?thesis
    by (rule phone_field_canonical [THEN iffD2, OF _ ex]) simp
qed

text \<open>
  Phones collide. The comment of \<open>decodeBCD\<close> speaks of trailing padding only, but an 0xf
  nibble is dropped wherever it stands: two different phone fields decode to one phone number.
\<close>

lemma phone_fields_collide:
  "\<exists>b b'. length b = 6 \<and> length b' = 6 \<and> b \<noteq> b' \<and> decode_bcd b = decode_bcd b'"
proof (intro exI conjI)
  show "decode_bcd [0xf1, 0x23, 0x45, 0x67, 0x89, 0x01] = decode_bcd [0x12, 0x34, 0x56, 0x78, 0x90, 0x1f]"
    by (simp add: Let_def)
qed simp_all

text \<open>
  C25 (segments). On any stream with a flag-free prefix and a flag-free segment between two flags,
  \<open>ReadFrame\<close> is the reference: unescape the segment and check it, leaving the reader behind the
  closing flag; if the segment does not unescape, the error names a byte that may not follow an
  escape byte.
\<close>

theorem read_frame_refines_segment:
  assumes "flag_byte \<notin> set garbage" and "flag_byte \<notin> set seg"
  shows "case unescape seg of
      Some raw \<Rightarrow> read_frame e (garbage @ flag_byte # seg @ flag_byte # rest) = (check_raw raw, rest)
    | None \<Rightarrow> (\<exists>c r. read_frame e (garbage @ flag_byte # seg @ flag_byte # rest) =
        (Inl (InvalidEscape c), r) \<and> c \<noteq> 0x01 \<and> c \<noteq> 0x02)"
proof (cases "unescape seg")
  case None
  obtain c r where "collect e [] (seg @ flag_byte # rest) = (Inl (InvalidEscape c), r)"
    "c \<noteq> 0x01" "c \<noteq> 0x02"
    using collect_bad [OF assms(2) None] by blast
  with None assms show ?thesis by (auto simp: read_frame_def skip_to_flag_garbage)
next
  case (Some raw)
  with assms show ?thesis by (simp add: read_frame_segment)
qed

theorem read_frame_refines_segment_witness:
  "\<exists>c r. read_frame EOF ([0x00] @ flag_byte # [0x01, 0x7d, 0x05] @ flag_byte # [0x09]) =
     (Inl (InvalidEscape c), r) \<and> c \<noteq> 0x01 \<and> c \<noteq> 0x02"
  using read_frame_refines_segment [of "[0x00]" "[0x01, 0x7d, 0x05]" EOF "[0x09]"]
  by (simp add: flag_byte_def unescape.simps(2))

text \<open>
  C26 (corruption). If a frame is accepted, the same frame with one byte of its unescaped content
  changed, header, body or checksum, is refused with a checksum mismatch.
\<close>

theorem single_byte_corruption_detected:
  assumes "read_frame e (flag_byte # escape raw @ flag_byte # rest) = (Inr f, rest)"
    and "i < length raw" and "b \<noteq> raw ! i"
  shows "\<exists>got want. got \<noteq> want \<and>
    read_frame e (flag_byte # escape (raw[i := b]) @ flag_byte # rest) =
      (Inl (ChecksumMismatch got want), rest)"
proof -
  have read: "read_frame e (flag_byte # escape xs @ flag_byte # rest) = (check_raw xs, rest)" for xs
    using read_frame_segment [of "[]", OF _ stuffing.flag_free stuffing.unstuff_stuff] by simp
  from assms(1) have "13 \<le> length raw" and "xor_checksum raw = 0"
    by (simp_all add: read check_raw_Inr)
  moreover from this have "xor_checksum (raw[i := b]) \<noteq> 0"
    using assms(2,3) by (simp add: xor_checksum_update xor_eq_0_iff)
  ultimately have chk: "check_raw (raw[i := b]) =
      Inl (ChecksumMismatch (xor_checksum (butlast (raw[i := b]))) (last (raw[i := b])))"
    by (simp add: check_raw_alt)
  then have "xor_checksum (butlast (raw[i := b])) \<noteq> last (raw[i := b])"
    using \<open>13 \<le> length raw\<close> by (auto simp: check_raw_def Let_def split: if_splits)
  with chk show ?thesis by (auto simp: read)
qed

theorem single_byte_corruption_detected_witness:
  "\<exists>got want. got \<noteq> want \<and>
    read_frame EOF (flag_byte # escape ([1, 2, 1, 2, 1, 2, 1, 2, 1, 2, 1, 2, 0][3 := 0x7e]) @
      flag_byte # []) = (Inl (ChecksumMismatch got want), [])"
proof -
  have "read_frame EOF (flag_byte # escape [1, 2, 1, 2, 1, 2, 1, 2, 1, 2, 1, 2, 0] @ flag_byte # []) =
      (Inr (parse_payload [1, 2, 1, 2, 1, 2, 1, 2, 1, 2, 1, 2]), [])"
    using read_frame_segment [of "[]", OF _ stuffing.flag_free stuffing.unstuff_stuff]
    by (simp add: check_raw_Inr del: escape.simps)
  then show ?thesis
    by (rule single_byte_corruption_detected) simp_all
qed

text \<open>
  Truncation. A frame cut before its closing flag is never accepted and never misread: the
  reader reports the I/O error that ended the stream, as one of the three errors of an
  unfinished frame.
\<close>

theorem truncated_frame_reports_io_error:
  assumes "k < length (encode_frame i p q bdy)"
  shows "fst (read_frame e (take k (encode_frame i p q bdy))) \<in>
    {Inl (SkipError e), Inl (MidFrame e), Inl (EscapeRead e)}"
proof (cases k)
  case 0
  then show ?thesis by (simp add: read_frame_def)
next
  case (Suc j)
  define raw where "raw = frame_header i p q (length bdy) @ bdy @
    [xor_checksum (frame_header i p q (length bdy) @ bdy)]"
  have enc: "encode_frame i p q bdy = flag_byte # escape raw @ [flag_byte]"
    by (simp add: encode_frame_alt raw_def)
  with assms Suc have "take k (encode_frame i p q bdy) = flag_byte # take j (escape raw)"
    by simp
  moreover have "fst (collect e [] (take j (escape raw))) \<in> {Inl (MidFrame e), Inl (EscapeRead e)}"
    by (rule collect_truncated [of raw _ "drop j (escape raw)"]) simp
  ultimately show ?thesis
    by (auto simp: read_frame_def split: prod.splits sum.splits)
qed

theorem truncated_frame_reports_io_error_witness:
  "fst (read_frame Timeout (take 9 (encode_frame 0x0002 ''013987654321'' 1 []))) \<in>
    {Inl (SkipError Timeout), Inl (MidFrame Timeout), Inl (EscapeRead Timeout)}"
proof (rule truncated_frame_reports_io_error)
  show "9 < length (encode_frame 0x0002 ''013987654321'' 1 [])"
    using length_escape_ge [of "frame_header 0x0002 ''013987654321'' 1 0 @
        [xor_checksum (frame_header 0x0002 ''013987654321'' 1 0)]"]
    by (simp add: encode_frame_alt)
qed

text \<open>
  Prefix stability. What \<open>ReadFrame\<close> decides on the bytes received so far, a frame or a
  protocol error, it decides however the stream goes on; the later bytes are left to read.
\<close>

theorem read_frame_prefix_stable:
  assumes "read_frame e r = (res, rest)" and "decided res"
  shows "read_frame e' (r @ later) = (res, rest @ later)"
  using assms by (rule read_frame_append)

theorem read_frame_prefix_stable_witness:
  "read_frame Timeout ([0x7e, 0x7e, 0x05] @ [0x06]) = (Inl (TooShort 0), [0x05] @ [0x06])"
proof (rule read_frame_prefix_stable)
  show "read_frame EOF [0x7e, 0x7e, 0x05] = (Inl (TooShort 0), [0x05])"
    by (simp add: read_frame_def flag_byte_def collect.simps(2) check_raw_def)
qed simp

text \<open>
  Header layout. For every attribute word and every 6-byte phone field the header fields are
  read from their places, and the four fragmentation bytes exactly when bit 13 is set; the
  declared body length (bits 0 to 9) plays no role.
\<close>

theorem parse_payload_layout:
  assumes "length ph = 6"
  shows "parse_payload (put16 i @ put16 a @ ph @ put16 q @
      (if a AND 0x2000 \<noteq> 0 then put16 t @ put16 n else []) @ bdy) =
    \<lparr>msg_id = i, phone = decode_bcd ph, seq_num = q, body = bdy,
     is_subpackage = (a AND 0x2000 \<noteq> 0),
     total_pkg = (if a AND 0x2000 \<noteq> 0 then t else 0),
     pkg_seq = (if a AND 0x2000 \<noteq> 0 then n else 0)\<rparr>"
  using assms by (simp add: parse_payload_def codec_simps Let_def)

theorem parse_payload_layout_witness:
  "parse_payload (put16 0x0704 @ put16 0x2001 @ replicate 6 0x12 @ put16 9 @
      (if (0x2001 :: u16) AND 0x2000 \<noteq> 0 then put16 3 @ put16 2 else []) @ [0xaa, 0xbb]) =
    \<lparr>msg_id = 0x0704, phone = decode_bcd (replicate 6 0x12), seq_num = 9, body = [0xaa, 0xbb],
     is_subpackage = ((0x2001 :: u16) AND 0x2000 \<noteq> 0),
     total_pkg = (if (0x2001 :: u16) AND 0x2000 \<noteq> 0 then 3 else 0),
     pkg_seq = (if (0x2001 :: u16) AND 0x2000 \<noteq> 0 then 2 else 0)\<rparr>"
  by (rule parse_payload_layout) simp

text \<open>
  Self-delimiting. The wire form determines the message: two written frames that start one
  stream agree in message id, sequence number, phone field and body, and in what follows.
\<close>

lemma encode_frame_prefix_free:
  assumes "encode_frame i p q bdy @ r = encode_frame i' p' q' bdy' @ s"
  shows "i = i' \<and> q = q' \<and> encode_bcd p = encode_bcd p' \<and> bdy = bdy' \<and> r = s"
proof -
  from assms have "escape (frame_header i p q (length bdy) @ bdy @
        [xor_checksum (frame_header i p q (length bdy) @ bdy)]) @ flag_byte # r =
      escape (frame_header i' p' q' (length bdy') @ bdy' @
        [xor_checksum (frame_header i' p' q' (length bdy') @ bdy')]) @ flag_byte # s"
    by (simp add: encode_frame_alt)
  note split = stuffing.delimited_unique [OF this]
  have hdr: "frame_header i p q (length bdy) = frame_header i' p' q' (length bdy')"
    using split [THEN conjunct1] by (auto simp: append_eq_append_conv simp del: xor_checksum_append)
  have "bdy = bdy'"
    using split [THEN conjunct1] by (auto simp: append_eq_append_conv simp del: xor_checksum_append)
  from hdr have "put16 i = put16 i'" "encode_bcd p = encode_bcd p'" "put16 q = put16 q'"
    by (simp_all add: frame_header_def append_eq_append_conv)
  with \<open>bdy = bdy'\<close> split [THEN conjunct2] show ?thesis by (auto dest: u16c.enc_inj)
qed

end
