(* ===== verification/Connection_Laws.thy ===== *)
theory Connection_Laws
  imports Server_Laws Frame_Laws
begin

text \<open>
  The properties of the server: what holds in every reachable state, and what one connection goes
  through, from the bytes it receives to its clean-up.
\<close>

section \<open>Helper lemmas\<close>

text \<open>A reachable state with one connection, for the instances.\<close>

definition one_connection :: world where
  "one_connection = start_conn (sample_env RedisNil) [] ((accept_conn [] empty_world)\<lparr>tasks := []\<rparr>)"

lemma reachable_accepted: "reachable cfg st (accept_conn [] empty_world)"
  by (rule reachable.step [OF reachable.start server_step.accept])

lemma reachable_one: "reachable cfg st one_connection"
proof -
  have "server_step cfg st (accept_conn [] empty_world) one_connection"
    using server_step.task [of "RunConn []" "accept_conn [] empty_world" cfg st "sample_env RedisNil"]
    by (simp add: one_connection_def)
  then show ?thesis by (rule reachable.step [OF reachable_accepted])
qed

lemma one_connection_fields [simp]:
  "running one_connection = [0]" "next_sid one_connection = 1"
  "sessions one_connection 0 = new_session [] (now_nano (sample_env RedisNil))"
  "tasks one_connection = [AuthTimer 0]" "events one_connection = []"
  "registry one_connection = []" "rx one_connection 0 = []"
  by (simp_all add: one_connection_def start_conn_def Let_def)

text \<open>A frame that reached an open connection as written is dispatched in a next state.\<close>

lemma reachable_frame:
  assumes "reachable cfg st w" and "sid \<in> set (running w)" and "conn_open (sessions w sid)"
    and "rx w sid = []"
  shows "\<exists>v. sessions v = sessions w \<and> registry v = registry w \<and> running v = running w \<and>
    next_sid v = next_sid w \<and> rx v sid = [] \<and> events v = events w \<and>
    reachable cfg st (dispatch e cfg st sid \<lparr>msg_id = i, phone = decode_bcd (encode_bcd p), seq_num = q,
      body = b, is_subpackage = False, total_pkg = 0, pkg_seq = 0\<rparr> v)"
proof -
  let ?u = "deliver sid (encode_frame i p q b) w"
  let ?v = "?u\<lparr>rx := (rx ?u)(sid := [])\<rparr>"
  have u: "reachable cfg st ?u"
    by (rule reachable.step [OF assms(1)]) (rule server_step.arrive [OF assms(2,3)])
  have "read_frame EOF (rx ?u sid) = (Inr \<lparr>msg_id = i, phone = decode_bcd (encode_bcd p), seq_num = q,
      body = b, is_subpackage = False, total_pkg = 0, pkg_seq = 0\<rparr>, [])"
    using read_frame_written [of "[]" EOF i p q b "[]"] assms(4) by (simp add: deliver_def)
  then have "conn_round e cfg st EOF sid ?u = dispatch e cfg st sid \<lparr>msg_id = i,
      phone = decode_bcd (encode_bcd p), seq_num = q, body = b, is_subpackage = False, total_pkg = 0,
      pkg_seq = 0\<rparr> ?v"
    by (simp add: conn_round_def Let_def)
  moreover have "server_step cfg st ?u (conn_round e cfg st EOF sid ?u)"
    by (rule server_step.round) (use assms(2) in \<open>simp add: deliver_def\<close>)
  ultimately have "reachable cfg st (dispatch e cfg st sid \<lparr>msg_id = i, phone = decode_bcd (encode_bcd p),
      seq_num = q, body = b, is_subpackage = False, total_pkg = 0, pkg_seq = 0\<rparr> ?v)"
    using reachable.step [OF u] by metis
  then show ?thesis by (intro exI [of _ ?v]) (simp add: deliver_def)
qed

text \<open>The frame loop always ends in the clean-up, having changed only its own session.\<close>

lemma conn_loop_ends:
  "\<exists>u. conn_loop es n cfg st io sid r w = end_conn sid u \<and> session_frame sid w u"
proof (induction es n cfg st io sid r w rule: conn_loop.induct)
  case (1 es n cfg st io sid r w)
  show ?case
  proof (cases "read_frame io r")
    case (Pair res rest)
    show ?thesis
    proof (cases res)
      case (Inl x)
      then show ?thesis using Pair by (auto simp: conn_loop.simps [of es n] intro: session_frame_refl)
    next
      case (Inr f)
      from 1 [OF Pair [symmetric] Inr]
      obtain u where "conn_loop es (Suc n) cfg st io sid rest (dispatch (es n) cfg st sid f w) = end_conn sid u"
        "session_frame sid (dispatch (es n) cfg st sid f w) u" by blast
      then show ?thesis using Pair Inr session_frame_trans [OF frame_dispatch]
        by (auto simp: conn_loop.simps [of es n])
    qed
  qed
qed

section \<open>Properties: every reachable state\<close>

text \<open>
  Connection gauge. In every reachable state the active-connections gauge is the number of
  connection goroutines that have not ended, so never negative, and the total counts them and the
  ended ones.
\<close>

theorem connections_gauge:
  assumes "reachable cfg st w"
  shows "connections_active (metrics w) = int (length (running w) + starting w) \<and>
    connections_total (metrics w) = next_sid w + starting w \<and>
    connections_active (metrics w) \<le> int (connections_total (metrics w))"
proof -
  have inv: "conn_inv w" using assms by (rule reachable_conn_inv)
  then have "set (running w) \<subseteq> {..<next_sid w}" by (auto simp: conn_inv_def)
  then have "card (set (running w)) \<le> next_sid w" by (metis card_lessThan card_mono finite_lessThan)
  with inv show ?thesis by (simp add: conn_inv_def distinct_card)
qed

theorem connections_gauge_witness: "connections_active (metrics one_connection) = 1"
  using connections_gauge [OF reachable_one] by (simp add: starting_def)

text \<open>
  C34 (authentication timeout). In every reachable state a running session that has neither
  registered nor authenticated has its timer pending, and when the timer runs the connection is
  closed.
\<close>

theorem silent_connection_is_closed:
  assumes "reachable cfg st w" and "k \<in> set (running w)" and "s_state (sessions w k) = Connected"
  shows "AuthTimer k \<in> set (tasks w) \<and>
    (\<exists>w'. server_step cfg st w w' \<and> \<not> conn_open (sessions w' k) \<and> last (events w') = ConnClose k)"
proof -
  have t: "AuthTimer k \<in> set (tasks w)" using reachable_invs(1) [OF assms(1)] assms(2,3) by (simp add: timer_inv_def)
  let ?w' = "exec_task undefined cfg (AuthTimer k) (w\<lparr>tasks := remove1 (AuthTimer k) (tasks w)\<rparr>)"
  have "server_step cfg st w ?w'" using t by (rule server_step.task)
  moreover have "\<not> conn_open (sessions ?w' k)" "last (events ?w') = ConnClose k"
    using assms(3) by (simp_all add: auth_timer_fires_def)
  ultimately show ?thesis using t by blast
qed

theorem silent_connection_is_closed_witness:
  "\<exists>w'. server_step sample_config None one_connection w' \<and> \<not> conn_open (sessions w' 0)"
  using silent_connection_is_closed [OF reachable_one, of 0 sample_config None] by auto

text \<open>
  One live session per phone. In every reachable state in which no session is registered
  under the empty phone, a running authenticated session is the registered one of its phone, and
  no other running session is authenticated under that phone.
\<close>

theorem one_session_per_phone:
  assumes "reachable cfg st w" and "reg_get [] w = None"
    and "k \<in> set (running w)" and "s_state (sessions w k) = Authenticated"
  shows "reg_get (s_phone (sessions w k)) w = Some k \<and>
    (\<forall>j\<in>set (running w). j \<noteq> k \<and> s_phone (sessions w j) = s_phone (sessions w k) \<longrightarrow>
       s_state (sessions w j) \<noteq> Authenticated)"
  using reachable_invs(2) [OF assms(1)] assms(2-4) unfolding phone_inv_def
  by (metis option.distinct(1) option.inject)

lemma reachable_authenticated:
  "\<exists>w. reachable sample_config None w \<and> running w = [0] \<and> reg_get [] w = None \<and> next_sid w = 1 \<and>
     s_state (sessions w 0) = Authenticated \<and> s_phone (sessions w 0) = ''12'' \<and> rx w 0 = [] \<and>
     RegisterPipe 0 \<in> set (tasks w)"
proof -
  let ?f = "\<lparr>msg_id = msg_authentication, phone = decode_bcd (encode_bcd ''12''), seq_num = 1, body = [],
      is_subpackage = False, total_pkg = 0, pkg_seq = 0\<rparr>"
  obtain v where v: "sessions v = sessions one_connection" "registry v = registry one_connection"
    "running v = running one_connection" "next_sid v = next_sid one_connection" "rx v 0 = []"
    "reachable sample_config None (dispatch (sample_env RedisErr) sample_config None 0 ?f v)"
    using reachable_frame [OF reachable_one, where sid = 0 and e = "sample_env RedisErr" and i = msg_authentication
        and p = "''12''" and q = 1 and b = "[]" and cfg = sample_config and st = None] by auto
  have p: "phone ?f = ''12''" using decode_encode_bcd [of "''12''"] by (simp add: phone_char_def byte_of_char_def)
  have "token_accepted (sample_env RedisErr) sample_config ?f" by (simp add: token_accepted_def)
  note auth = authenticated_dispatch(1,2,4) [OF _ this, where st = None and sid = 0 and w = v]
  have "auth_phone 0 ?f v = ''12''" using p by (simp add: auth_phone_def v(1))
  moreover have "reg_get [] v = None" by (simp add: reg_get_def table_get_def v(2))
  moreover have "running (dispatch (sample_env RedisErr) sample_config None 0 ?f v) = [0]"
    "next_sid (dispatch (sample_env RedisErr) sample_config None 0 ?f v) = 1"
    "rx (dispatch (sample_env RedisErr) sample_config None 0 ?f v) 0 = []"
    using frame_dispatch [of 0 v "sample_env RedisErr" sample_config None ?f]
    by (simp_all add: session_frame_def v(3-5))
  ultimately show ?thesis using v(6) auth by (intro exI [of _ "dispatch (sample_env RedisErr) sample_config None 0 ?f v"]) simp
qed

theorem one_session_per_phone_witness:
  "\<exists>w. reachable sample_config None w \<and> reg_get ''12'' w = Some 0"
proof -
  obtain w where "reachable sample_config None w" "running w = [0]" "reg_get [] w = None"
    "s_state (sessions w 0) = Authenticated" "s_phone (sessions w 0) = ''12''"
    using reachable_authenticated by blast
  with one_session_per_phone [of sample_config None w 0] show ?thesis by auto
qed

text \<open>
  Sequence numbers. In every reachable state what has been written on a connection, by all
  handlers, are frames numbered 1, 2, 3 and so on modulo 65536, without gap or repetition.
\<close>

theorem wire_sequence_numbers:
  assumes "reachable cfg st w"
  shows "\<exists>ms. wire k w = map (\<lambda>(n, i, p, b). encode_frame i p (of_nat (Suc n)) b) (enumerate 0 ms)"
proof (cases "k < next_sid w")
  case True
  then obtain ms where "wire k w = numbered ms"
    using reachable_invs(3) [OF assms, unfolded seq_inv_def, rule_format, of k] by auto
  then show ?thesis unfolding numbered_def by blast
next
  case False
  then show ?thesis using reachable_invs(3) [OF assms] unfolding seq_inv_def
    by (intro exI [of _ "[]"]) simp
qed

theorem wire_sequence_numbers_witness:
  "\<exists>ms. wire 0 one_connection = map (\<lambda>(n, i, p, b). encode_frame i p (of_nat (Suc n)) b) (enumerate 0 ms)"
  by (rule wire_sequence_numbers [OF reachable_one])

section \<open>Properties: one connection\<close>

text \<open>
  C28 (clean-up). Whatever bytes a connection receives and however they end, its loop returns, with
  the connection closed and not running, its timer stopped, the gauge decremented once, and no
  registry entry for it under the phone it ended with, unless that is empty. An entry under a phone
  it had earlier is not removed.
\<close>

theorem connection_loop_cleans_up:
  "let v = conn_loop es n cfg st io sid r w; p = s_phone (sessions v sid) in
    \<not> conn_open (sessions v sid) \<and> sid \<notin> set (running v) \<and> last (events v) = ConnClose sid \<and>
    AuthTimer sid \<notin> set (tasks v) \<and>
    connections_active (metrics v) = connections_active (metrics w) - 1 \<and>
    \<not> (p \<noteq> [] \<and> reg_get p v = Some sid)"
proof -
  obtain u where "conn_loop es n cfg st io sid r w = end_conn sid u" "session_frame sid w u"
    using conn_loop_ends by blast
  then show ?thesis by (simp add: Let_def conn_ended_def session_frame_def)
qed

text \<open>
  C27 (frames in order). Frames written one after the other, with flag-free noise before each, are
  dispatched one by one in the order sent, each in its own environment, and then the connection
  ends on whatever error follows them.
\<close>

fun run_frames :: "(nat \<Rightarrow> env) \<Rightarrow> nat \<Rightarrow> config \<Rightarrow> device_store \<Rightarrow> nat \<Rightarrow> frame list \<Rightarrow> world \<Rightarrow> world" where
  "run_frames es n cfg st sid [] w = w"
| "run_frames es n cfg st sid (f # fs) w = run_frames es (Suc n) cfg st sid fs (dispatch (es n) cfg st sid f w)"

fun frame_of :: "u16 \<times> string \<times> u16 \<times> bytes \<Rightarrow> frame" where
  "frame_of (i, p, q, b) = \<lparr>msg_id = i, phone = decode_bcd (encode_bcd p), seq_num = q, body = b,
     is_subpackage = False, total_pkg = 0, pkg_seq = 0\<rparr>"

fun bytes_of :: "bytes \<times> u16 \<times> string \<times> u16 \<times> bytes \<Rightarrow> bytes" where
  "bytes_of (noise, i, p, q, b) = noise @ encode_frame i p q b"

lemma conn_loop_frames:
  assumes "\<forall>m\<in>set ms. flag_byte \<notin> set (fst m)" and "read_frame io tail = (Inl err, r)"
  shows "conn_loop es n cfg st io sid (concat (map bytes_of ms) @ tail) w =
    end_conn sid (run_frames es n cfg st sid (map (frame_of \<circ> snd) ms) w)"
  using assms(1)
proof (induction ms arbitrary: n w)
  case Nil
  then show ?case by (simp add: conn_loop.simps [of es n] assms(2))
next
  case (Cons m ms)
  obtain noise i p q b where m: "m = (noise, i, p, q, b)" by (cases m) auto
  with Cons show ?case
    by (simp add: conn_loop.simps [of es n] read_frame_written)
qed

theorem frames_dispatched_in_order:
  assumes "\<forall>m\<in>set ms. flag_byte \<notin> set (fst m)" and "read_frame io tail = (Inl err, r)"
  shows "conn_loop es n cfg st io sid (concat (map bytes_of ms) @ tail) w =
    end_conn sid (run_frames es n cfg st sid (map (frame_of \<circ> snd) ms) w)"
  using assms by (rule conn_loop_frames)

theorem frames_dispatched_in_order_witness:
  "conn_loop (\<lambda>_. sample_env RedisNil) 0 sample_config None Timeout 0 (concat (map bytes_of [([0x00 :: u8, 0x55], 0x0002, ''12'', 1, []),
       ([], 0x0200, ''12'', 2, [1])]) @ [0x01]) one_connection =
    end_conn 0 (run_frames (\<lambda>_. sample_env RedisNil) 0 sample_config None 0 (map (frame_of \<circ> snd)
      [([0x00 :: u8, 0x55], 0x0002, ''12'', 1, []), ([], 0x0200, ''12'', 2, [1])]) one_connection)"
  by (rule frames_dispatched_in_order [where err = "SkipError Timeout" and r = "[]"])
    (simp_all add: flag_byte_def read_frame_def)

text \<open>
  C32 (late clean-up of an old connection). When the connection of a replaced session ends, the
  local entry of the phone's new session survives, but the clean-up still starts a goroutine that
  deletes the phone's Redis hash and online score: the very key the new session has written.
\<close>

theorem old_connection_erases_presence:
  assumes "p \<noteq> []" and "reg_get p w = Some new" and "old \<noteq> new"
    and "s_phone (sessions w old) = p" and "s_phone (sessions w new) = p"
  shows "let v = end_conn old w; u = exec_task e cfg (UnregisterPipe old) v in
    UnregisterPipe old \<in> set (tasks v) \<and> reg_get p u = Some new \<and>
    last (events u) = Redis [Del (session_prefix cfg @ p), ZRem (online_z_key cfg) p] \<and>
    (\<exists>fields cmds. register_pipe e cfg (sessions u new) = HSet (session_prefix cfg @ p) fields # cmds)"
proof -
  have "reg_get q (emit ev v) = reg_get q v" for q ev v by (simp add: reg_get_def)
  then show ?thesis
    using assms by (simp add: Let_def unregister_pipe_def register_pipe_def)
qed

theorem old_connection_erases_presence_witness:
  "\<exists>w. last (events (exec_task (sample_env RedisNil) sample_config (UnregisterPipe 1) (end_conn 1 w))) =
     Redis [Del (session_prefix sample_config @ ''12''), ZRem (online_z_key sample_config) ''12''] \<and>
     reg_get ''12'' (exec_task (sample_env RedisNil) sample_config (UnregisterPipe 1) (end_conn 1 w)) = Some 0"
proof -
  let ?w = "upd_session 1 (\<lambda>s. (close_sess s)\<lparr>s_phone := ''12''\<rparr>) sample_world"
  have "reg_get ''12'' ?w = Some 0"
    using reg_get_cong [of ?w sample_world "''12''"] by simp
  moreover have "s_phone (sessions ?w 1) = ''12''" "s_phone (sessions ?w 0) = ''12''" by simp_all
  ultimately show ?thesis
    using old_connection_erases_presence [of "''12''" ?w 0 1 "sample_env RedisNil" sample_config]
    unfolding Let_def by blast
qed



end
