(* ===== verification/Float_Ops.thy ===== *)
theory Float_Ops
  imports Float64
begin

text \<open>
  The remaining operations of Go's \<open>float64\<close> the program uses: product, sum, difference,
  comparison and the conversion to an integer, which drops the fraction.
\<close>

section \<open>Definitions\<close>

fun f64_mul :: "f64 \<Rightarrow> f64 \<Rightarrow> f64" where
  "f64_mul (Fin s p) (Fin t q) = f64_round (s \<noteq> t) (p * q)"
| "f64_mul (Inf s) (Fin t q) = (if q = 0 then NaN else Inf (s \<noteq> t))"
| "f64_mul (Fin s p) (Inf t) = (if p = 0 then NaN else Inf (s \<noteq> t))"
| "f64_mul (Inf s) (Inf t) = Inf (s \<noteq> t)"
| "f64_mul _ _ = NaN"

text \<open>An exact zero sum of opposite signs is positive zero; of equal signs it keeps the sign.\<close>

fun f64_add :: "f64 \<Rightarrow> f64 \<Rightarrow> f64" where
  "f64_add (Fin s p) (Fin t q) =
     (if s = t then f64_round s (p + q)
      else if p = q then Fin False 0
      else if q < p then f64_round s (p - q) else f64_round t (q - p))"
| "f64_add (Inf s) (Inf t) = (if s = t then Inf s else NaN)"
| "f64_add (Inf s) (Fin t q) = Inf s"
| "f64_add (Fin s p) (Inf t) = Inf t"
| "f64_add _ _ = NaN"

definition f64_sub :: "f64 \<Rightarrow> f64 \<Rightarrow> f64" where
  "f64_sub x y = f64_add x (f64_neg y)"

text \<open>Comparisons with NaN are false.\<close>

fun f64_less :: "f64 \<Rightarrow> f64 \<Rightarrow> bool" where
  "f64_less NaN _ = False"
| "f64_less _ NaN = False"
| "f64_less (Inf s) (Inf t) = (s \<and> \<not> t)"
| "f64_less (Inf s) (Fin t q) = s"
| "f64_less (Fin s p) (Inf t) = (\<not> t)"
| "f64_less (Fin s p) (Fin t q) = (f64_val (Fin s p) < f64_val (Fin t q))"

text \<open>Towards zero; the conversion of a number out of the integer type's range is not modelled.\<close>

fun f64_trunc :: "f64 \<Rightarrow> int" where
  "f64_trunc (Fin s m) = (if s then - \<lfloor>m\<rfloor> else \<lfloor>m\<rfloor>)"
| "f64_trunc _ = 0"

text \<open>\<open>math.Mod\<close>: the exact remainder, with the sign of the first argument.\<close>

fun f64_mod :: "f64 \<Rightarrow> f64 \<Rightarrow> f64" where
  "f64_mod (Fin s p) (Fin t q) = (if q = 0 then NaN else Fin s (p - of_int \<lfloor>p / q\<rfloor> * q))"
| "f64_mod (Fin s p) (Inf t) = Fin s p"
| "f64_mod _ _ = NaN"

text \<open>A decimal constant of the source.\<close>

definition f64_const :: "rat \<Rightarrow> f64" where
  "f64_const q = f64_round (q < 0) \<bar>q\<bar>"

section \<open>Lemmas\<close>

lemma round_mag_absolute_error:
  assumes "0 \<le> q"
  shows "\<bar>round_mag q - q\<bar> \<le> q / 2 ^ 53 + 1 / 2 ^ 1000"
proof (cases "pow2 (- 1022) \<le> q")
  case True
  moreover have "(0 :: rat) \<le> 1 / 2 ^ 1000" by simp
  ultimately show ?thesis using round_mag_relative_error [of q] by linarith
next
  case False
  show ?thesis
  proof (cases "q = 0")
    case True
    then show ?thesis by simp
  next
    case nz: False
    then have q: "0 < q" using assms by simp
    have "pow2 (ilog2 q) < pow2 (- 1022)"
      using ilog2_bounds(1) [OF q] False by linarith
    then have "ilog2 q < - 1022" using pow2_mono [of "- 1022" "ilog2 q"] by linarith
    then have "ulp_exp q = - 1074" by (simp add: ulp_exp_def)
    then have "\<bar>round_mag q - q\<bar> \<le> pow2 (- 1074) / 2" using round_mag_error [OF q] by simp
    also have "\<dots> \<le> pow2 (- 1000)" using pow2_mono [of "- 1074" "- 1000"] pow2_pos [of "- 1074"] by linarith
    also have "pow2 (- 1000) = 1 / 2 ^ 1000" by (simp add: pow2_def)
    finally show ?thesis using q by (simp add: add_increasing)
  qed
qed

text \<open>Results up to a billion are finite and nearly exact.\<close>

lemma f64_round_small:
  assumes "0 \<le> q" and "q \<le> 1000000000"
  shows "f64_round s q = Fin s (round_mag q)" and "\<bar>round_mag q - q\<bar> \<le> 1 / 1000000" and "0 \<le> round_mag q"
proof -
  have "q / 2 ^ 53 \<le> 1000000000 / 2 ^ 53" using assms(2) by (intro divide_right_mono) simp_all
  moreover have "(1000000000 :: rat) / 2 ^ 53 \<le> 1 / 2000000" by simp
  moreover have "(1 :: rat) / 2 ^ 1000 \<le> 1 / 2 ^ 30"
    by (intro divide_left_mono power_increasing) simp_all
  ultimately show err: "\<bar>round_mag q - q\<bar> \<le> 1 / 1000000"
    using round_mag_absolute_error [OF assms(1)] by simp
  then have "round_mag q \<le> 1000000001" using assms(2) by linarith
  also have "(1000000001 :: rat) < 2 ^ 1024"
    by (rule less_le_trans [of _ "2 ^ 30"]) (simp, rule power_increasing, simp_all)
  finally show "f64_round s q = Fin s (round_mag q)" by (simp add: f64_round_def)
  show "0 \<le> round_mag q" by (rule round_mag_nonneg)
qed

lemma f64_of_int_small:
  assumes "0 \<le> i" and "i < 2 ^ 53"
  shows "f64_of_int i = Fin False (of_int i)"
proof -
  have "nat i < 2 ^ 53" using assms by (simp add: nat_less_iff)
  from f64_of_nat_exact [OF this] show ?thesis
    using assms(1) by (simp add: f64_of_nat_def f64_of_int_def)
qed

text \<open>Sums and products of moderate numbers: finite, and within a millionth of the exact value.\<close>

lemma f64_add_close:
  assumes "0 \<le> p" "p \<le> 1000000" "0 \<le> q" "q \<le> 1000000"
  obtains u r where "f64_add (Fin s p) (Fin t q) = Fin u r" "0 \<le> r"
    "\<bar>f64_val (Fin u r) - (f64_val (Fin s p) + f64_val (Fin t q))\<bar> \<le> 1 / 1000000"
proof (cases "s = t")
  case True
  have q: "0 \<le> p + q" "p + q \<le> 1000000000" using assms by linarith+
  note small = f64_round_small [OF q]
  have "\<bar>f64_val (Fin s (round_mag (p + q))) - (f64_val (Fin s p) + f64_val (Fin t q))\<bar> \<le> 1 / 1000000"
    using small(2) True by (cases t; simp only: f64_val.simps if_True if_False; linarith)
  then show ?thesis using True small by (intro that [of s "round_mag (p + q)"]) simp_all
next
  case st: False
  consider "p = q" | "q < p" | "p < q" by linarith
  then show ?thesis
  proof cases
    case 1
    then show ?thesis by (intro that [of False 0]) (use st in auto)
  next
    case 2
    have q: "0 \<le> p - q" "p - q \<le> 1000000000" using assms 2 by linarith+
    note small = f64_round_small [OF q]
    have "\<bar>f64_val (Fin s (round_mag (p - q))) - (f64_val (Fin s p) + f64_val (Fin t q))\<bar> \<le> 1 / 1000000"
      using small(2) st by (cases s; cases t; simp only: f64_val.simps if_True if_False; linarith)
    then show ?thesis using st 2 small by (intro that [of s "round_mag (p - q)"]) simp_all
  next
    case 3
    have q: "0 \<le> q - p" "q - p \<le> 1000000000" using assms 3 by linarith+
    note small = f64_round_small [OF q]
    have "\<bar>f64_val (Fin t (round_mag (q - p))) - (f64_val (Fin s p) + f64_val (Fin t q))\<bar> \<le> 1 / 1000000"
      using small(2) st by (cases s; cases t; simp only: f64_val.simps if_True if_False; linarith)
    then show ?thesis using st 3 small by (intro that [of t "round_mag (q - p)"]) simp_all
  qed
qed

lemma f64_mul_close:
  assumes "0 \<le> p * q" "p * q \<le> 1000000000"
  obtains r where "f64_mul (Fin s p) (Fin t q) = Fin (s \<noteq> t) r" "0 \<le> r" "\<bar>r - p * q\<bar> \<le> 1 / 1000000"
  using f64_round_small(1) [OF assms, of "s \<noteq> t"] f64_round_small(2,3) [OF assms] that by simp

end
