(* ===== verification/Device.thy ===== *)
theory Device
  imports Frame Decoder Float_Ops
begin

text \<open>
  The P901 device simulator, \<open>device/p901/main.go\<close>: its message bodies, its encoding helpers, and
  its session with the server: registration, authentication, and the loop of location reports and
  heartbeats. The clock, the random draws and the trigonometric functions are parameters; the
  incoming bytes are those the server has sent.
\<close>

section \<open>State and configuration\<close>

text \<open>
  A time as it is written: the fields of its date and clock in some zone, the nanoseconds, and the
  zone's offset from UTC in seconds.
\<close>

record calendar =
  c_year :: nat
  c_month :: nat
  c_day :: nat
  c_hour :: nat
  c_minute :: nat
  c_second :: nat

record time_stamp =
  t_date :: calendar
  t_nano :: nat
  t_offset :: int

record dev_state =
  d_latitude :: f64
  d_longitude :: f64
  d_heading :: f64
  d_speed :: f64
  d_battery :: f64
  d_altitude :: u16
  d_saved_at :: time_stamp

record dev_config =
  d_imei :: string
  d_server_addr :: string
  d_location_interval :: int
  d_heartbeat_interval :: int
  d_state_file :: string
  d_model :: string
  d_initial_lat :: f64
  d_initial_lon :: f64
  d_initial_heading :: f64
  d_initial_speed :: f64
  d_initial_battery :: f64
  d_debug :: bool

definition default_state :: "dev_config \<Rightarrow> time_stamp \<Rightarrow> dev_state" where
  "default_state cfg now = \<lparr>d_latitude = d_initial_lat cfg, d_longitude = d_initial_lon cfg,
     d_heading = d_initial_heading cfg, d_speed = d_initial_speed cfg,
     d_battery = d_initial_battery cfg, d_altitude = 220, d_saved_at = now\<rparr>"

text \<open>The directory of the state file: up to the last slash.\<close>

fun state_dir_below :: "string \<Rightarrow> nat \<Rightarrow> string" where
  "state_dir_below path 0 = ''.''"
| "state_dir_below path (Suc i) = (if path ! i = CHR ''/'' then take i path else state_dir_below path i)"

definition state_dir :: "string \<Rightarrow> string" where
  "state_dir path = state_dir_below path (length path)"

section \<open>Encoding helpers\<close>

definition append_u16 :: "bytes \<Rightarrow> u16 \<Rightarrow> bytes" where
  "append_u16 b v = b @ [ucast (drop_bit 8 v), ucast v]"

definition append_u32 :: "bytes \<Rightarrow> u32 \<Rightarrow> bytes" where
  "append_u32 b v = b @ [ucast (drop_bit 24 v), ucast (drop_bit 16 v), ucast (drop_bit 8 v), ucast v]"

text \<open>\<open>copy\<close> into a zeroed buffer: longer texts are cut.\<close>

definition pad_right :: "string \<Rightarrow> nat \<Rightarrow> bytes" where
  "pad_right s n = take n (bytes_of_string s) @ replicate (n - length s) 0"

definition clamp :: "int \<Rightarrow> int \<Rightarrow> int \<Rightarrow> int" where
  "clamp v lo hi = (if v < lo then lo else if hi < v then hi else v)"

definition clamp_f :: "f64 \<Rightarrow> f64 \<Rightarrow> f64 \<Rightarrow> f64" where
  "clamp_f v lo hi = (if f64_less v lo then lo else if f64_less hi v then hi else v)"

text \<open>A two-digit number as one BCD byte; the fields of a date are never negative.\<close>

definition bcd2 :: "nat \<Rightarrow> u8" where
  "bcd2 n = of_nat (push_bit 4 (n div 10) OR n mod 10)"

definition bcd_timestamp :: "calendar \<Rightarrow> bytes" where
  "bcd_timestamp t = [bcd2 (c_year t mod 100), bcd2 (c_month t), bcd2 (c_day t), bcd2 (c_hour t),
     bcd2 (c_minute t), bcd2 (c_second t)]"

section \<open>Message bodies\<close>

definition build_reg_body :: "dev_config \<Rightarrow> bytes" where
  "build_reg_body cfg =
     (let b = append_u16 [] 6;
          b = append_u16 b 1;
          b = b @ pad_right ''SIMCO'' 5;
          b = b @ pad_right (d_model cfg) 20;
          devID = d_imei cfg;
          devID = (if 7 < length devID then drop (length devID - 7) devID else devID);
          b = b @ pad_right devID 7;
          b = b @ [0x02]
      in b @ bytes_of_string ''P901'')"

text \<open>\<open>csq\<close> is the simulated signal strength, \<open>now\<close> the UTC time.\<close>

definition build_location_body :: "int \<Rightarrow> calendar \<Rightarrow> dev_state \<Rightarrow> bytes" where
  "build_location_body csq now s =
     (let statusFlags = status_located OR status_acc_on;
          lat = d_latitude s; lon = d_longitude s;
          (statusFlags, lat) = (if f64_less lat (f64_of_int 0)
             then (statusFlags OR status_lat_south, f64_neg lat) else (statusFlags, lat));
          (statusFlags, lon) = (if f64_less lon (f64_of_int 0)
             then (statusFlags OR status_lon_west, f64_neg lon) else (statusFlags, lon));
          b = append_u32 [] 0;
          b = append_u32 b statusFlags;
          b = append_u32 b (word_of_int (f64_trunc (f64_mul lat (f64_of_int 1000000))));
          b = append_u32 b (word_of_int (f64_trunc (f64_mul lon (f64_of_int 1000000))));
          b = append_u16 b (d_altitude s);
          b = append_u16 b (word_of_int (f64_trunc (f64_mul (d_speed s) (f64_of_int 10))));
          b = append_u16 b (word_of_int (f64_trunc (d_heading s)));
          b = b @ bcd_timestamp now;
          battPct = word_of_int (clamp (f64_trunc (d_battery s)) 0 100);
          b = b @ [0xEB, 0x01, battPct]
      in b @ [0x30, 0x01, word_of_int csq])"

section \<open>The simulated journey\<close>

text \<open>
  The signal strength from a normally distributed draw, and one step of the state. The draws of
  the random generator are parameters, as are the trigonometric functions, of which the library
  promises no exact values; products and sums are rounded one by one, as on a machine that does
  not fuse them.
\<close>

definition sim_signal :: "f64 \<Rightarrow> int" where
  "sim_signal draw =
     (let base = f64_of_int 18;
          noise = f64_mul draw (f64_of_int 4);
          csq = f64_trunc (f64_add base noise)
      in clamp csq 5 28)"

definition f64_pi :: f64 where
  "f64_pi = Fin False (884279719003555 / 281474976710656)"

text \<open>\<open>Duration.Seconds\<close>, of a duration that is not negative.\<close>

definition seconds :: "int \<Rightarrow> f64" where
  "seconds d = f64_add (f64_of_int (d div 1000000000))
     (f64_div (f64_of_int (d mod 1000000000)) (f64_of_int 1000000000))"

definition advance_state :: "(f64 \<Rightarrow> f64) \<Rightarrow> (f64 \<Rightarrow> f64) \<Rightarrow> f64 \<Rightarrow> f64 \<Rightarrow> nat \<Rightarrow>
    dev_config \<Rightarrow> dev_state \<Rightarrow> dev_state" where
  "advance_state cosf sinf r1 r2 r3 cfg s =
     (let dt = f64_div (seconds (d_location_interval cfg)) (f64_of_int 3600);
          heading = f64_add (d_heading s) (f64_sub (f64_mul r1 (f64_of_int 24)) (f64_of_int 12));
          heading = f64_mod (f64_add heading (f64_of_int 360)) (f64_of_int 360);
          spd = f64_add (d_speed s) (f64_sub (f64_mul r2 (f64_of_int 10)) (f64_of_int 5));
          spd = clamp_f spd (f64_of_int 10) (f64_of_int 90);
          headingRad = f64_div (f64_mul heading f64_pi) (f64_of_int 180);
          distKm = f64_mul spd dt;
          lat = f64_add (d_latitude s) (f64_div (f64_mul distKm (cosf headingRad)) (f64_of_int 111));
          lon = f64_add (d_longitude s) (f64_div (f64_mul distKm (sinf headingRad))
            (f64_mul (f64_of_int 111) (cosf (f64_div (f64_mul lat f64_pi) (f64_of_int 180)))));
          alt = word_of_int (clamp (int (unat (d_altitude s)) + int r3 - 2) 180 300);
          battery = f64_sub (d_battery s) (f64_const (5 / 100));
          battery = (if f64_less battery (f64_of_int 5) then f64_of_int 5 else battery)
      in s\<lparr>d_latitude := lat, d_longitude := lon, d_heading := heading, d_speed := spd,
           d_battery := battery, d_altitude := alt\<rparr>)"

section \<open>The session with the server\<close>

datatype dev_error =
    DialFailed
  | SendFailed
  | ReadFailed read_error
  | UnexpectedRegResponse u16
  | RegistrationRejected u8
  | AuthenticationFailed
  | WrongAckType u16
  | WrongAckMessage u16
  | AckResult u8
  | TickerPanic

text \<open>
  A write succeeds or not as \<open>ok\<close> says for its bytes. The outcome of a step is what was written,
  and an error or the bytes still to be read.
\<close>

definition read_ack :: "io_error \<Rightarrow> u16 \<Rightarrow> bytes \<Rightarrow> dev_error + bytes" where
  "read_ack io forMsg r =
     (case read_frame io r of
        (Inl e, _) \<Rightarrow> Inl (ReadFailed e)
      | (Inr f, rest) \<Rightarrow>
          if msg_id f \<noteq> msg_platform_resp then Inl (WrongAckType (msg_id f))
          else if 5 \<le> length (body f) then
            (let replyMsgID = get16 (body f ! 2) (body f ! 3); result = body f ! 4
             in if replyMsgID \<noteq> forMsg then Inl (WrongAckMessage replyMsgID)
                else if result \<noteq> result_ok then Inl (AckResult result)
                else Inr rest)
          else Inr rest)"

definition device_login ::
    "dev_config \<Rightarrow> (bytes \<Rightarrow> bool) \<Rightarrow> io_error \<Rightarrow> bytes \<Rightarrow> bytes list \<times> (dev_error + bytes)" where
  "device_login cfg ok io r =
     (let reg = encode_frame msg_registration (d_imei cfg) 1 (build_reg_body cfg)
      in if \<not> ok reg then ([reg], Inl SendFailed)
         else case read_frame io r of
           (Inl e, _) \<Rightarrow> ([reg], Inl (ReadFailed e))
         | (Inr regResp, r) \<Rightarrow>
             if msg_id regResp \<noteq> msg_registration_resp \<or> length (body regResp) < 3
             then ([reg], Inl (UnexpectedRegResponse (msg_id regResp)))
             else if body regResp ! 2 \<noteq> reg_success
             then ([reg], Inl (RegistrationRejected (body regResp ! 2)))
             else
               (let token = drop 3 (body regResp);
                    auth = encode_frame msg_authentication (d_imei cfg) 2 token
                in if \<not> ok auth then ([reg, auth], Inl SendFailed)
                   else case read_frame io r of
                     (Inl e, _) \<Rightarrow> ([reg, auth], Inl (ReadFailed e))
                   | (Inr authACK, r) \<Rightarrow>
                       if msg_id authACK \<noteq> msg_platform_resp \<or> length (body authACK) < 5 \<or>
                          body authACK ! 4 \<noteq> result_ok
                       then ([reg, auth], Inl AuthenticationFailed)
                       else ([reg, auth], Inr r)))"

text \<open>
  What a location report takes from outside: the normally distributed draw behind the signal
  strength, the UTC time, and the three draws of the step that follows the report.
\<close>

record draws =
  d_normal :: f64
  d_now :: calendar
  d_turn :: f64
  d_accel :: f64
  d_climb :: nat

definition location_body_of :: "draws \<Rightarrow> dev_state \<Rightarrow> bytes" where
  "location_body_of x s = build_location_body (sim_signal (d_normal x)) (d_now x) s"

definition advance_by :: "(f64 \<Rightarrow> f64) \<Rightarrow> (f64 \<Rightarrow> f64) \<Rightarrow> draws \<Rightarrow> dev_config \<Rightarrow> dev_state \<Rightarrow> dev_state" where
  "advance_by cosf sinf x cfg s = advance_state cosf sinf (d_turn x) (d_accel x) (d_climb x) cfg s"

text \<open>
  The main loop on a sequence of ticks: a location report is followed by its acknowledgement, the
  next position and the saving of the state, a heartbeat by its acknowledgement. The result: what
  was written, the states saved, the state reached, and an error or the bytes still to be read.
\<close>

datatype tick = LocTick draws | HbTick

fun device_loop :: "dev_config \<Rightarrow> (bytes \<Rightarrow> bool) \<Rightarrow> io_error \<Rightarrow> (f64 \<Rightarrow> f64) \<Rightarrow> (f64 \<Rightarrow> f64) \<Rightarrow>
    u16 \<Rightarrow> dev_state \<Rightarrow> tick list \<Rightarrow> bytes \<Rightarrow>
    bytes list \<times> dev_state list \<times> dev_state \<times> (dev_error + bytes)" where
  "device_loop cfg ok io cosf sinf seq s [] r = ([], [], s, Inr r)"
| "device_loop cfg ok io cosf sinf seq s (LocTick x # ts) r =
     (let out = encode_frame msg_location_report (d_imei cfg) seq (location_body_of x s)
      in if \<not> ok out then ([out], [], s, Inl SendFailed)
         else case read_ack io msg_location_report r of
           Inl e \<Rightarrow> ([out], [], s, Inl e)
         | Inr r \<Rightarrow>
             (let s' = advance_by cosf sinf x cfg s;
                  (outs, saved, res) = device_loop cfg ok io cosf sinf (seq + 1) s' ts r
              in (out # outs, s' # saved, res)))"
| "device_loop cfg ok io cosf sinf seq s (HbTick # ts) r =
     (let out = encode_frame msg_heartbeat (d_imei cfg) seq []
      in if \<not> ok out then ([out], [], s, Inl SendFailed)
         else case read_ack io msg_heartbeat r of
           Inl e \<Rightarrow> ([out], [], s, Inl e)
         | Inr r \<Rightarrow>
             (let (outs, res) = device_loop cfg ok io cosf sinf (seq + 1) s ts r in (out # outs, res)))"

text \<open>
  A connected device: login, the two tickers, a first location at once, then the loop. A ticker
  whose interval is not positive panics, which ends the process.
\<close>

definition tickers_panic :: "dev_config \<Rightarrow> bool" where
  "tickers_panic cfg \<longleftrightarrow> d_location_interval cfg \<le> 0 \<or> d_heartbeat_interval cfg \<le> 0"

definition run_device :: "dev_config \<Rightarrow> (bytes \<Rightarrow> bool) \<Rightarrow> io_error \<Rightarrow> (f64 \<Rightarrow> f64) \<Rightarrow> (f64 \<Rightarrow> f64) \<Rightarrow>
    draws \<Rightarrow> dev_state \<Rightarrow> tick list \<Rightarrow> bytes \<Rightarrow>
    bytes list \<times> dev_state list \<times> dev_state \<times> (dev_error + bytes)" where
  "run_device cfg ok io cosf sinf x s ticks r =
     (case device_login cfg ok io r of
        (outs, Inl e) \<Rightarrow> (outs, [], s, Inl e)
      | (outs, Inr r) \<Rightarrow>
          if tickers_panic cfg then (outs, [], s, Inl TickerPanic)
          else (let (more, res) = device_loop cfg ok io cosf sinf 3 s (LocTick x # ticks) r in (outs @ more, res)))"

end
