(* ===== verification/Device_Laws.thy ===== *)
theory Device_Laws
  imports Device Decoder_Laws Location_Laws Frame_Laws
begin

text \<open>
  The simulator against the protocol library: what the server decodes from the bodies the device
  builds, how far a reported position is from the simulated one, and the device's checks of the
  server's answers.
\<close>

section \<open>Helper lemmas\<close>

lemma append_put [simp]: "append_u16 b v = b @ put16 v" "append_u32 b u = b @ put32 u"
  by (simp_all add: append_u16_def append_u32_def put16_def put32_def)

lemma length_pad_right [simp]: "length (pad_right s n) = n"
  by (simp add: pad_right_def)

lemma dropWhile_replicate: "P x \<Longrightarrow> dropWhile P (replicate k x @ ys) = dropWhile P ys"
  by (induction k) simp_all

text \<open>A text that fits and does not end in a blank or NUL survives padding and trimming.\<close>

definition trimmed :: "string \<Rightarrow> bool" where
  "trimmed s \<longleftrightarrow> s = [] \<or> byte_of_char (last s) \<noteq> 0x00 \<and> byte_of_char (last s) \<noteq> 0x20"

lemma null_trimmed_padded:
  assumes "length s \<le> n" and "trimmed s"
  shows "null_trimmed (pad_right s n) = s"
proof (cases s rule: rev_cases)
  case Nil
  then show ?thesis
    using dropWhile_replicate [of "\<lambda>c. c = 0x00 \<or> c = 0x20" "0 :: u8" n "[]"]
    by (simp add: pad_right_def null_trimmed_def string_of_bytes_def bytes_of_string_def)
next
  case (snoc t c)
  let ?P = "\<lambda>c :: u8. c = 0x00 \<or> c = 0x20"
  have "rev (pad_right s n) = replicate (n - length s) 0 @ byte_of_char c # rev (bytes_of_string t)"
    using assms(1) snoc by (simp add: pad_right_def bytes_of_string_def)
  moreover have "\<not> ?P (byte_of_char c)" using assms(2) snoc by (simp add: trimmed_def)
  ultimately have "dropWhile ?P (rev (pad_right s n)) = byte_of_char c # rev (bytes_of_string t)"
    by (simp add: dropWhile_replicate)
  then show ?thesis by (simp add: null_trimmed_def) (simp add: snoc string_of_bytes_def bytes_of_string_def comp_def)
qed

lemma null_trimmed_text: "trimmed s \<Longrightarrow> null_trimmed (bytes_of_string s) = s"
  using null_trimmed_padded [of s "length s"] by (simp add: pad_right_def)

text \<open>The last characters of the identity, as the registration body carries them.\<close>

definition short_id :: "string \<Rightarrow> string" where
  "short_id s = (if 7 < length s then drop (length s - 7) s else s)"

lemma build_reg_body_layout:
  "build_reg_body cfg = registration_body 6 1 (pad_right ''SIMCO'' 5) (pad_right (d_model cfg) 20)
     (pad_right (short_id (d_imei cfg)) 7) 0x02 (bytes_of_string ''P901'')"
  by (simp add: build_reg_body_def registration_body_def short_id_def Let_def)

lemma decode_reg_body:
  assumes "length (d_model cfg) \<le> 20" and "trimmed (d_model cfg)" and "trimmed (d_imei cfg)"
  shows "decode_registration (build_reg_body cfg) =
    Inr \<lparr>province_id = 6, city_id = 1, manuf_id = ''SIMCO'', device_model = d_model cfg,
      device_id = short_id (d_imei cfg), plate_color = 2, plate_number = ''P901''\<rparr>"
proof -
  have id: "trimmed (short_id (d_imei cfg))" "length (short_id (d_imei cfg)) \<le> 7"
    using assms(3) by (auto simp: trimmed_def short_id_def)
  have "null_trimmed (pad_right ''SIMCO'' 5) = ''SIMCO''"
    by (rule null_trimmed_padded) (simp_all add: trimmed_def byte_of_char_def)
  moreover have "null_trimmed (bytes_of_string ''P901'') = ''P901''"
    by (rule null_trimmed_text) (simp add: trimmed_def byte_of_char_def)
  ultimately show ?thesis
    using assms(1,2) id unfolding build_reg_body_layout
    by (subst decode_registration_body) (simp_all add: null_trimmed_padded)
qed

section \<open>Coordinates\<close>

text \<open>What the device sends for a coordinate of magnitude \<open>m\<close>, and what the server makes of it.\<close>

definition sent_raw :: "f64 \<Rightarrow> u32" where
  "sent_raw x = word_of_int (f64_trunc (f64_mul x (f64_of_int 1000000)))"

lemma million: "f64_of_int 1000000 = Fin False 1000000"
  using f64_of_nat_exact [of 1000000] by (simp add: f64_of_int_def f64_of_nat_def)

lemma sent_raw_floor:
  assumes "0 \<le> m" and "m \<le> 180"
  shows "of_nat (unat (sent_raw (Fin False m))) = (of_int \<lfloor>round_mag (m * 1000000)\<rfloor> :: rat)"
    and "\<bar>round_mag (m * 1000000) - m * 1000000\<bar> \<le> 1 / 1000000"
proof -
  define x where "x = round_mag (m * 1000000)"
  have q: "0 \<le> m * 1000000" "m * 1000000 \<le> 1000000000" "m * 1000000 \<le> 180000000" using assms by simp_all
  note small = f64_round_small [OF q(1,2), folded x_def]
  show "\<bar>round_mag (m * 1000000) - m * 1000000\<bar> \<le> 1 / 1000000" using small(2) by (simp add: x_def)
  have x: "0 \<le> x" "x \<le> 180000001" using small(2,3) q(3) by linarith+
  have mul: "f64_mul (Fin False m) (f64_of_int 1000000) = Fin False x"
    by (simp add: million small(1))
  have fl: "0 \<le> \<lfloor>x\<rfloor>" "\<lfloor>x\<rfloor> \<le> 180000001" using x by (simp_all add: floor_le_iff)
  have "uint (word_of_int \<lfloor>x\<rfloor> :: u32) = \<lfloor>x\<rfloor>"
    using fl by (simp add: uint_word_of_int_eq take_bit_eq_mod)
  then have "unat (word_of_int \<lfloor>x\<rfloor> :: u32) = nat \<lfloor>x\<rfloor>" by (simp only: unat_eq_nat_uint)
  then show "of_nat (unat (sent_raw (Fin False m))) = (of_int \<lfloor>round_mag (m * 1000000)\<rfloor> :: rat)"
    using fl by (simp add: sent_raw_def mul x_def [symmetric])
qed

lemma sent_coordinate_error:
  assumes "0 \<le> m" and "m \<le> 180"
  shows "\<bar>f64_val (micro_degrees (sent_raw (Fin False m))) - m\<bar> \<le> 2 / 1000000"
proof -
  define n :: rat where "n = of_nat (unat (sent_raw (Fin False m)))"
  define v where "v = f64_val (micro_degrees (sent_raw (Fin False m)))"
  define x where "x = round_mag (m * 1000000)"
  have n: "n = of_int \<lfloor>x\<rfloor>" using sent_raw_floor(1) [OF assms] by (simp add: n_def x_def)
  have x: "\<bar>x - m * 1000000\<bar> \<le> 1 / 1000000" using sent_raw_floor(2) [OF assms] by (simp add: x_def)
  have "n \<le> x" "x < n + 1" unfolding n by linarith+
  moreover have n0: "0 \<le> n" unfolding n_def by (rule of_nat_0_le_iff)
  ultimately have "n \<le> 180000001" "\<bar>n - m * 1000000\<bar> \<le> 1 + 1 / 1000000" using x assms(2) by linarith+
  note bounds = this
  have "\<bar>v - n / 1000000\<bar> \<le> n / 1000000 / 2 ^ 53"
    using micro_degrees_error [of "sent_raw (Fin False m)"] by (simp add: n_def v_def)
  also have "\<dots> \<le> 180000001 / 1000000 / 2 ^ 53"
    using bounds(1) by (intro divide_right_mono) simp_all
  also have "\<dots> \<le> (1 / 1000000000 :: rat)" by simp
  finally have "\<bar>v - n / 1000000\<bar> \<le> 1 / 1000000000" .
  then have "\<bar>v - m\<bar> \<le> 2 / 1000000" using bounds(2) unfolding abs_le_iff by linarith
  then show ?thesis by (simp add: v_def)
qed

section \<open>The location body\<close>

text \<open>The sign and the magnitude the device splits a coordinate into.\<close>

definition negative :: "f64 \<Rightarrow> bool" where
  "negative x \<longleftrightarrow> f64_less x (f64_of_int 0)"

definition magnitude :: "f64 \<Rightarrow> f64" where
  "magnitude x = (if negative x then f64_neg x else x)"

lemma zero: "f64_of_int 0 = Fin False 0"
  by (simp add: f64_of_int_def f64_round_def)

lemma negative_Fin: "0 \<le> m \<Longrightarrow> negative (Fin sg m) \<longleftrightarrow> sg \<and> m \<noteq> 0"
  by (auto simp: negative_def zero)

lemma sent_raw_zero: "sent_raw (Fin sg 0) = 0"
  by (simp add: sent_raw_def million f64_round_def)

lemma signed_coordinate_error:
  assumes "x = Fin sg m" and "0 \<le> m" and "m \<le> 180"
  shows "\<bar>(if negative x then - 1 else 1) * f64_val (micro_degrees (sent_raw (magnitude x))) - f64_val x\<bar> \<le> 2 / 1000000"
proof (cases "m = 0")
  case True
  then show ?thesis
    using sent_coordinate_error [of 0] assms(1) by (simp add: negative_Fin magnitude_def sent_raw_zero)
next
  case False
  then show ?thesis
    using sent_coordinate_error [OF assms(2,3)] assms by (cases sg) (auto simp: negative_Fin magnitude_def abs_minus_commute)
qed

definition status_word :: "dev_state \<Rightarrow> u32" where
  "status_word s = status_located OR status_acc_on OR (if negative (d_latitude s) then status_lat_south else 0) OR
     (if negative (d_longitude s) then status_lon_west else 0)"

lemma status_word_bits:
  "bit (status_word s) 0" "bit (status_word s) 1"
  "bit (status_word s) 2 = negative (d_latitude s)" "bit (status_word s) 3 = negative (d_longitude s)"
  by (auto simp: status_word_def flag_bits bit_or_iff bit_push_bit_iff)

lemma build_location_body_layout:
  "build_location_body csq now s = location_body 0 (status_word s)
     (sent_raw (magnitude (d_latitude s))) (sent_raw (magnitude (d_longitude s))) (d_altitude s)
     (word_of_int (f64_trunc (f64_mul (d_speed s) (f64_of_int 10)))) (word_of_int (f64_trunc (d_heading s)))
     (bcd_timestamp now) [0xEB, 0x01, word_of_int (clamp (f64_trunc (d_battery s)) 0 100), 0x30, 0x01, word_of_int csq]"
  by (simp add: build_location_body_def location_body_def status_word_def sent_raw_def magnitude_def
      negative_def Let_def or.assoc)

lemma unat_small_int: "0 \<le> i \<Longrightarrow> i < 256 \<Longrightarrow> int (unat (word_of_int i :: u8)) = i"
  by (simp add: uint_word_of_int_eq take_bit_eq_mod)

lemma clamp_bounds: "lo \<le> hi \<Longrightarrow> lo \<le> clamp v lo hi \<and> clamp v lo hi \<le> hi"
  by (simp add: clamp_def)

lemma device_readings:
  assumes "0 \<le> bat" and "bat \<le> 100" and "0 \<le> csq" and "csq \<le> 31"
  defines "ex \<equiv> parse_tlv [0xEB, 0x01, word_of_int bat, 0x30, 0x01, word_of_int csq] []"
  shows "extract_battery ex = bat" and "extract_signal ex = csq * 100 div 31"
proof -
  have ex: "map_of ex 0xEB = Some [word_of_int bat]" "map_of ex 0x30 = Some [word_of_int csq]"
    by (simp_all add: ex_def)
  have "int (unat (word_of_int bat :: u8)) = bat" by (rule unat_small_int) (use assms in simp_all)
  then show "extract_battery ex = bat"
    using assms(2) ex(1) by (simp add: extract_battery_def del: of_nat_unat)
  have "int (unat (word_of_int csq :: u8)) = csq" by (rule unat_small_int) (use assms in simp_all)
  then show "extract_signal ex = csq * 100 div 31"
    using assms(3,4) ex(2) by (simp add: extract_signal_def go_div_nonneg Let_def del: of_nat_unat)
qed

section \<open>The simulated journey\<close>

text \<open>The states of the journey: heading, speed, battery and altitude in their ranges.\<close>

definition on_journey :: "dev_state \<Rightarrow> bool" where
  "on_journey s \<longleftrightarrow>
     (\<exists>h. d_heading s = Fin False h \<and> 0 \<le> h \<and> h < 360) \<and>
     (\<exists>v. d_speed s = Fin False v \<and> 10 \<le> v \<and> v \<le> 90) \<and>
     (\<exists>b. d_battery s = Fin False b \<and> 5 \<le> b \<and> b \<le> 100) \<and>
     180 \<le> unat (d_altitude s) \<and> unat (d_altitude s) \<le> 300"

lemma small_ints:
  "f64_of_int 24 = Fin False 24" "f64_of_int 12 = Fin False 12" "f64_of_int 360 = Fin False 360"
  "f64_of_int 10 = Fin False 10" "f64_of_int 5 = Fin False 5" "f64_of_int 90 = Fin False 90"
  "f64_of_int 18 = Fin False 18" "f64_of_int 4 = Fin False 4"
  by (simp_all add: f64_of_int_small)

lemma positive_Fin: "0 \<le> r \<Longrightarrow> 0 < f64_val (Fin u r) \<Longrightarrow> \<not> u \<and> f64_val (Fin u r) = r"
  by (cases u) simp_all

text \<open>A draw of the unit interval, scaled and centred.\<close>

lemma centred_draw:
  assumes "0 \<le> r" "r < 1" "0 \<le> a" "a \<le> 1000" "0 \<le> c" "c \<le> 1000"
  shows "\<exists>u x. f64_sub (f64_mul (Fin False r) (Fin False a)) (Fin False c) = Fin u x \<and> 0 \<le> x \<and> x \<le> 2001 \<and>
    - c - 1 / 1000 \<le> f64_val (Fin u x)"
proof -
  have ra: "0 \<le> r * a" "r * a \<le> a" using assms by (simp_all add: mult_left_le_one_le)
  obtain y where y: "f64_mul (Fin False r) (Fin False a) = Fin False y" "0 \<le> y" "\<bar>y - r * a\<bar> \<le> 1 / 1000000"
    using f64_mul_close [of r a False False] ra assms(4) by auto
  have y1: "y \<le> a + 1 / 1000000" using y(3) ra(2) by linarith
  obtain u x where x: "f64_add (Fin False y) (Fin True c) = Fin u x" "0 \<le> x"
    "\<bar>f64_val (Fin u x) - (f64_val (Fin False y) + f64_val (Fin True c))\<bar> \<le> 1 / 1000000"
    using f64_add_close [of y c False True] y(2) y1 assms by auto
  have v: "f64_val (Fin False y) = y" "f64_val (Fin True c) = - c" by simp_all
  have "f64_val (Fin u x) \<le> a - c + 1 / 1000" "- c - 1 / 1000 \<le> f64_val (Fin u x)"
    using x(3) y(2) y1 unfolding v by linarith+
  moreover have "x \<le> 2001" using calculation assms(3-6) by (cases u; simp only: f64_val.simps if_True if_False; linarith)
  ultimately show ?thesis using x y(1) by (intro exI [of _ u] exI [of _ x]) (simp add: f64_sub_def)
qed

lemma clamp_f_range:
  assumes "0 \<le> r"
  shows "\<exists>v. clamp_f (Fin u r) (Fin False 10) (Fin False 90) = Fin False v \<and> 10 \<le> v \<and> v \<le> 90"
  using assms by (cases u) (auto simp: clamp_f_def)

lemma mod_range:
  assumes "0 \<le> x"
  shows "\<exists>h. f64_mod (Fin False x) (Fin False 360) = Fin False h \<and> 0 \<le> h \<and> h < 360"
proof -
  have "of_int \<lfloor>x / 360\<rfloor> \<le> x / 360" "x / 360 < of_int \<lfloor>x / 360\<rfloor> + 1" by linarith+
  then show ?thesis by simp
qed

lemma heading_step:
  assumes "0 \<le> h" "h < 360" "0 \<le> r" "r < 1"
  shows "\<exists>h'. f64_mod (f64_add (f64_add (Fin False h) (f64_sub (f64_mul (Fin False r) (Fin False 24)) (Fin False 12)))
    (Fin False 360)) (Fin False 360) = Fin False h' \<and> 0 \<le> h' \<and> h' < 360"
proof -
  obtain u x where x: "f64_sub (f64_mul (Fin False r) (Fin False 24)) (Fin False 12) = Fin u x" "0 \<le> x" "x \<le> 2001"
    "- 12 - 1 / 1000 \<le> f64_val (Fin u x)"
    using centred_draw [OF assms(3,4), of 24 12] by (auto simp del: f64_mul.simps f64_val.simps)
  obtain w y where y: "f64_add (Fin False h) (Fin u x) = Fin w y" "0 \<le> y"
    "\<bar>f64_val (Fin w y) - (f64_val (Fin False h) + f64_val (Fin u x))\<bar> \<le> 1 / 1000000"
    using f64_add_close [of h x False u] x(2,3) assms(1,2) by auto
  have "y \<le> 1000000"
    using y x(2,3) assms(1,2) by (cases w; cases u; simp only: f64_val.simps if_True if_False; linarith)
  then obtain t z where z: "f64_add (Fin w y) (Fin False 360) = Fin t z" "0 \<le> z"
    "\<bar>f64_val (Fin t z) - (f64_val (Fin w y) + f64_val (Fin False 360))\<bar> \<le> 1 / 1000000"
    using f64_add_close [of y 360 w False] y(2) by auto
  have v: "f64_val (Fin False h) = h" "f64_val (Fin False 360) = 360" by simp_all
  have "0 < f64_val (Fin t z)" using z(3) y(3) x(4) assms(1) unfolding v by linarith
  then have "\<not> t" using positive_Fin [OF z(2)] by blast
  then show ?thesis using mod_range [OF z(2)] by (simp only: x(1) y(1) z(1))
qed

lemma speed_step:
  assumes "10 \<le> v" "v \<le> 90" "0 \<le> r" "r < 1"
  shows "\<exists>v'. clamp_f (f64_add (Fin False v) (f64_sub (f64_mul (Fin False r) (Fin False 10)) (Fin False 5)))
    (Fin False 10) (Fin False 90) = Fin False v' \<and> 10 \<le> v' \<and> v' \<le> 90"
proof -
  obtain u x where x: "f64_sub (f64_mul (Fin False r) (Fin False 10)) (Fin False 5) = Fin u x" "0 \<le> x" "x \<le> 2001"
    using centred_draw [OF assms(3,4), of 10 5] by (auto simp del: f64_mul.simps f64_val.simps)
  obtain w y where "f64_add (Fin False v) (Fin u x) = Fin w y" "0 \<le> y"
  proof -
    have "0 \<le> v" "v \<le> 1000000" "x \<le> 1000000" using assms(1,2) x(3) by linarith+
    from f64_add_close [OF this(1,2) x(2) this(3), of False u] show thesis using that by blast
  qed
  then show ?thesis using clamp_f_range by (simp only: x(1))
qed

lemma battery_step:
  assumes "5 \<le> b" "b \<le> 100"
  defines "c \<equiv> f64_sub (Fin False b) (f64_const (5 / 100))"
  shows "\<exists>b'. (if f64_less c (Fin False 5) then Fin False 5 else c) = Fin False b' \<and> 5 \<le> b' \<and> b' \<le> 100"
proof -
  have q: "(0 :: rat) \<le> 5 / 100" "(5 / 100 :: rat) \<le> 1000000000" by simp_all
  note small = f64_round_small [OF q]
  define k where "k = round_mag (5 / 100)"
  have k: "f64_const (5 / 100) = Fin False k" "0 \<le> k" "\<bar>k - 5 / 100\<bar> \<le> 1 / 1000000"
    using small by (simp_all add: f64_const_def k_def)
  have k1: "k \<le> 1000000" using k(3) by linarith
  obtain u x where x: "f64_add (Fin False b) (Fin True k) = Fin u x" "0 \<le> x"
    "\<bar>f64_val (Fin u x) - (f64_val (Fin False b) + f64_val (Fin True k))\<bar> \<le> 1 / 1000000"
    using f64_add_close [of b k False True] assms(1,2) k(2) k1 by auto
  have v: "f64_val (Fin False b) = b" "f64_val (Fin True k) = - k" by simp_all
  have c: "c = Fin u x" by (simp only: c_def k(1) f64_sub_def f64_neg.simps not_False_eq_True x(1))
  have up: "f64_val (Fin u x) \<le> 100" "0 < f64_val (Fin u x)" using x(3) k(3) assms(1,2) unfolding v by linarith+
  have u: "\<not> u" and val: "f64_val (Fin u x) = x" using positive_Fin [OF x(2) up(2)] by blast+
  have "x \<le> 100" using up(1) unfolding val .
  with u show ?thesis by (auto simp: c)
qed

lemma advance_fields:
  "d_heading (advance_state cosf sinf r1 r2 r3 cfg s) =
     f64_mod (f64_add (f64_add (d_heading s) (f64_sub (f64_mul r1 (Fin False 24)) (Fin False 12))) (Fin False 360)) (Fin False 360)"
  "d_speed (advance_state cosf sinf r1 r2 r3 cfg s) =
     clamp_f (f64_add (d_speed s) (f64_sub (f64_mul r2 (Fin False 10)) (Fin False 5))) (Fin False 10) (Fin False 90)"
  "d_battery (advance_state cosf sinf r1 r2 r3 cfg s) =
     (if f64_less (f64_sub (d_battery s) (f64_const (5 / 100))) (Fin False 5) then Fin False 5
      else f64_sub (d_battery s) (f64_const (5 / 100)))"
  "d_altitude (advance_state cosf sinf r1 r2 r3 cfg s) =
     word_of_int (clamp (int (unat (d_altitude s)) + int r3 - 2) 180 300)"
  by (simp_all add: advance_state_def Let_def small_ints del: f64_add.simps f64_mul.simps f64_val.simps f64_mod.simps f64_less.simps)

lemma advance_on_journey:
  assumes "on_journey s" and "r1 = Fin False x1" and "0 \<le> x1" and "x1 < 1"
    and "r2 = Fin False x2" and "0 \<le> x2" and "x2 < 1" and "r3 < 5"
  shows "on_journey (advance_state cosf sinf r1 r2 r3 cfg s)"
proof -
  obtain h v b where s: "d_heading s = Fin False h" "0 \<le> h" "h < 360" "d_speed s = Fin False v" "10 \<le> v" "v \<le> 90"
    "d_battery s = Fin False b" "5 \<le> b" "b \<le> 100"
    using assms(1) by (auto simp: on_journey_def)
  have alt: "180 \<le> clamp a 180 300" "clamp a 180 300 \<le> 300" for a by (simp_all add: clamp_def)
  have w: "180 \<le> unat (word_of_int i :: u16) \<and> unat (word_of_int i :: u16) \<le> 300" if "180 \<le> i" "i \<le> 300" for i
    using that by (simp add: unat_eq_nat_uint uint_word_of_int_eq take_bit_eq_mod le_nat_iff del: nat_uint_eq)
  show ?thesis
    using heading_step [OF s(2,3) assms(3,4)] speed_step [OF s(5,6) assms(6,7)] battery_step [OF s(8,9)]
      w [OF alt]
    unfolding on_journey_def advance_fields assms(2,5) s(1,4,7) by blast
qed

section \<open>Properties\<close>

text \<open>
  Registration of the simulator. The server takes the simulator's registration body for the
  standard layout and decodes it to exactly the model, the last seven characters of the identity,
  and the fixed fields.
\<close>

lemma device_registration_decoded:
  assumes "length (d_model cfg) \<le> 20" and "trimmed (d_model cfg)" and "trimmed (d_imei cfg)"
  shows "decode_registration (build_reg_body cfg) =
    Inr \<lparr>province_id = 6, city_id = 1, manuf_id = ''SIMCO'', device_model = d_model cfg,
      device_id = drop (length (d_imei cfg) - 7) (d_imei cfg), plate_color = 2, plate_number = ''P901''\<rparr>"
  using decode_reg_body [OF assms] by (simp add: short_id_def)

text \<open>A simulator as its defaults configure it, and its first state.\<close>

definition sample_time :: calendar where
  "sample_time = \<lparr>c_year = 2024, c_month = 3, c_day = 15, c_hour = 8, c_minute = 30, c_second = 0\<rparr>"

definition sample_stamp :: time_stamp where
  "sample_stamp = \<lparr>t_date = sample_time, t_nano = 250000000, t_offset = 0\<rparr>"

definition sample_draws :: draws where
  "sample_draws = \<lparr>d_normal = Fin False 0, d_now = sample_time, d_turn = Fin False 0,
     d_accel = Fin False (1 / 2), d_climb = 4\<rparr>"

definition sample_device :: dev_config where
  "sample_device = \<lparr>d_imei = ''013987654321'', d_server_addr = ''jt808:7018'',
     d_location_interval = 30000000000, d_heartbeat_interval = 60000000000,
     d_state_file = ''/data/state.json'', d_model = ''P901'', d_initial_lat = f64_of_nat 31,
     d_initial_lon = f64_neg (f64_of_nat 74), d_initial_heading = f64_of_nat 45,
     d_initial_speed = f64_of_nat 40, d_initial_battery = f64_of_nat 100, d_debug = False\<rparr>"

text \<open>
  C36 (position reports of the simulator). The server decodes the simulator's location body: each
  coordinate within two millionths of a degree of the simulated one and with its sign, fix and
  ignition on, no alarm, and battery and signal published as the clamped simulated values.
\<close>

theorem device_location_decoded:
  assumes "d_latitude s = Fin sa a" and "0 \<le> a" and "a \<le> 90"
    and "d_longitude s = Fin so b" and "0 \<le> b" and "b \<le> 180"
    and "0 \<le> csq" and "csq \<le> 31"
  shows "\<exists>l. decode_location (build_location_body csq now s) = Inr l \<and>
    \<bar>f64_val (latitude l) - f64_val (d_latitude s)\<bar> \<le> 2 / 1000000 \<and>
    \<bar>f64_val (longitude l) - f64_val (d_longitude s)\<bar> \<le> 2 / 1000000 \<and>
    gps_fixed l \<and> acc_on l \<and> alarm_flags l = 0 \<and> altitude l = d_altitude s \<and>
    extract_battery (extras l) = clamp (f64_trunc (d_battery s)) 0 100 \<and>
    extract_signal (extras l) = csq * 100 div 31"
proof -
  have lat: "\<bar>(if negative (d_latitude s) then - 1 else 1) * f64_val (micro_degrees (sent_raw (magnitude (d_latitude s)))) -
      f64_val (d_latitude s)\<bar> \<le> 2 / 1000000"
    using assms(3) by (intro signed_coordinate_error [OF assms(1,2)]) simp
  have lon: "\<bar>(if negative (d_longitude s) then - 1 else 1) * f64_val (micro_degrees (sent_raw (magnitude (d_longitude s)))) -
      f64_val (d_longitude s)\<bar> \<le> 2 / 1000000"
    by (intro signed_coordinate_error [OF assms(4-6)])
  note bat = clamp_bounds [of 0 100 "f64_trunc (d_battery s)", simplified]
  note readings = device_readings [OF bat [THEN conjunct1] bat [THEN conjunct2] assms(7,8)]
  have "length (bcd_timestamp now) = 6" by (simp add: bcd_timestamp_def)
  from decode_location_body [OF this] show ?thesis
    unfolding build_location_body_layout using lat lon readings
    by (cases "negative (d_latitude s)"; cases "negative (d_longitude s)") (simp_all add: status_word_bits
      status_word_bits(2) [unfolded One_nat_def] del: parse_tlv.simps)
qed

theorem device_location_decoded_witness:
  "\<exists>l. decode_location (build_location_body 18 sample_time (default_state sample_device sample_stamp)) = Inr l \<and>
     \<bar>f64_val (longitude l) - f64_val (d_longitude (default_state sample_device sample_stamp))\<bar> \<le> 2 / 1000000 \<and>
     extract_battery (extras l) = 100"
proof -
  have "f64_of_nat 31 = Fin False 31" "f64_of_nat 74 = Fin False 74" "f64_of_nat 100 = Fin False 100"
    using f64_of_nat_exact [of 31] f64_of_nat_exact [of 74] f64_of_nat_exact [of 100] by simp_all
  then have d: "d_latitude (default_state sample_device sample_stamp) = Fin False 31"
    "d_longitude (default_state sample_device sample_stamp) = Fin True 74"
    "d_battery (default_state sample_device sample_stamp) = Fin False 100"
    by (simp_all add: default_state_def sample_device_def)
  have "clamp (f64_trunc (d_battery (default_state sample_device sample_stamp))) 0 100 = 100"
    by (simp add: d clamp_def)
  with device_location_decoded [OF d(1) _ _ d(2), of 18] show ?thesis by fastforce
qed

text \<open>
  C40 (the journey). For all draws of the random generator, one step keeps the simulated device in
  range: heading below a full turn, speed between 10 and 90, battery between 5 and 100, altitude
  between 180 and 300, and the signal it reports is between 5 and 28; no rounding leads out of it.
\<close>

theorem journey_stays_in_range:
  assumes "on_journey s" and "r1 = Fin False x1" and "0 \<le> x1" and "x1 < 1"
    and "r2 = Fin False x2" and "0 \<le> x2" and "x2 < 1" and "r3 < 5"
  shows "on_journey (advance_state cosf sinf r1 r2 r3 cfg s) \<and>
    5 \<le> sim_signal draw \<and> sim_signal draw \<le> 28"
  using advance_on_journey [OF assms] by (simp add: sim_signal_def Let_def clamp_def)

theorem journey_stays_in_range_witness:
  "on_journey (advance_state (\<lambda>x. x) (\<lambda>x. x) (Fin False 0) (Fin False (1 / 2)) 4 sample_device
     (default_state sample_device sample_stamp))"
proof -
  have "f64_of_nat 45 = Fin False 45" "f64_of_nat 40 = Fin False 40" "f64_of_nat 100 = Fin False 100"
    using f64_of_nat_exact [of 45] f64_of_nat_exact [of 40] f64_of_nat_exact [of 100] by simp_all
  then have "on_journey (default_state sample_device sample_stamp)"
    by (simp add: on_journey_def default_state_def sample_device_def)
  from journey_stays_in_range [OF this refl _ _ refl, of 0 "1 / 2" 4] show ?thesis by simp
qed

end
