(* ===== verification/Config_Load.thy ===== *)
theory Config_Load
  imports Config Float_Ops
begin

text \<open>
  Loading the configuration, \<open>server/internal/config/config.go\<close>: the environment readers with
  their defaults, the standard library's parsers of booleans, integers and durations, and \<open>Load\<close>.
  The environment is a parameter that gives the empty string for an unset variable, as
  \<open>os.Getenv\<close> does. A parse error is \<open>None\<close>: the code only asks whether there is one.
\<close>

section \<open>strconv\<close>

definition is_digit :: "char \<Rightarrow> bool" where
  "is_digit c \<longleftrightarrow> 48 \<le> (of_char c :: nat) \<and> (of_char c :: nat) \<le> 57"

definition digit_value :: "char \<Rightarrow> nat" where
  "digit_value c = of_char c - 48"

definition parse_bool :: "string \<Rightarrow> bool option" where
  "parse_bool s =
     (if s \<in> {''1'', ''t'', ''T'', ''true'', ''TRUE'', ''True''} then Some True
      else if s \<in> {''0'', ''f'', ''F'', ''false'', ''FALSE'', ''False''} then Some False
      else None)"

text \<open>\<open>ParseInt(s, 10, 64)\<close>, which \<open>Atoi\<close> is on a 64-bit machine.\<close>

definition parse_nat :: "string \<Rightarrow> nat option" where
  "parse_nat s = (if s \<noteq> [] \<and> list_all is_digit s
     then Some (fold (\<lambda>c n. n * 10 + digit_value c) s 0) else None)"

definition parse_int64 :: "string \<Rightarrow> int option" where
  "parse_int64 s =
     (let neg = (s \<noteq> [] \<and> hd s = CHR ''-'');
          r = (if s \<noteq> [] \<and> (hd s = CHR ''-'' \<or> hd s = CHR ''+'') then tl s else s)
      in case parse_nat r of
           None \<Rightarrow> None
         | Some n \<Rightarrow>
             if neg then (if n \<le> 2 ^ 63 then Some (- int n) else None)
             else (if n < 2 ^ 63 then Some (int n) else None))"

section \<open>time.ParseDuration\<close>

text \<open>The leading integer, with the overflow checks on the unsigned accumulator.\<close>

fun leading_int :: "nat \<Rightarrow> string \<Rightarrow> (nat \<times> string) option" where
  "leading_int x [] = Some (x, [])"
| "leading_int x (c # s) =
     (if \<not> is_digit c then Some (x, c # s)
      else if 2 ^ 63 div 10 < x then None
      else (let x = x * 10 + digit_value c in if 2 ^ 63 < x then None else leading_int x s))"

text \<open>The digits of a fraction; after an overflow the others are read and dropped.\<close>

fun leading_fraction :: "nat \<Rightarrow> f64 \<Rightarrow> bool \<Rightarrow> string \<Rightarrow> nat \<times> f64 \<times> string" where
  "leading_fraction x scale overflow [] = (x, scale, [])"
| "leading_fraction x scale overflow (c # s) =
     (if \<not> is_digit c then (x, scale, c # s)
      else if overflow then leading_fraction x scale True s
      else if (2 ^ 63 - 1) div 10 < x then leading_fraction x scale True s
      else (let y = x * 10 + digit_value c
            in if 2 ^ 63 < y then leading_fraction x scale True s
               else leading_fraction y (f64_mul scale (f64_of_nat 10)) False s))"

definition unit_map :: "(string \<times> nat) list" where
  "unit_map = [(''ns'', 1), (''us'', 1000), ([CHR 0xC2, CHR 0xB5, CHR ''s''], 1000),
     ([CHR 0xCE, CHR 0xBC, CHR ''s''], 1000), (''ms'', 1000000), (''s'', 1000000000),
     (''m'', 60000000000), (''h'', 3600000000000)]"

text \<open>One number with its unit: its nanoseconds and the rest of the text.\<close>

definition duration_item :: "string \<Rightarrow> (nat \<times> string) option" where
  "duration_item s =
     (if \<not> (hd s = CHR ''.'' \<or> is_digit (hd s)) then None
      else case leading_int 0 s of
        None \<Rightarrow> None
      | Some (v, s1) \<Rightarrow>
          (let pre = (length s1 \<noteq> length s);
               (f, scale, s2, post) =
                 (if s1 \<noteq> [] \<and> hd s1 = CHR ''.''
                  then (let (f, scale, s2) = leading_fraction 0 (f64_of_nat 1) False (tl s1)
                        in (f, scale, s2, length s2 \<noteq> length (tl s1)))
                  else (0, f64_of_nat 1, s1, False));
               u = takeWhile (\<lambda>c. \<not> (c = CHR ''.'' \<or> is_digit c)) s2;
               r = dropWhile (\<lambda>c. \<not> (c = CHR ''.'' \<or> is_digit c)) s2
           in if \<not> pre \<and> \<not> post then None
              else if u = [] then None
              else case map_of unit_map u of
                None \<Rightarrow> None
              | Some unit \<Rightarrow>
                  if 2 ^ 63 div unit < v then None
                  else (let v = v * unit;
                            w = (if 0 < f then v + nat (f64_trunc (f64_mul (f64_of_nat f)
                                   (f64_div (f64_of_nat unit) scale))) else v)
                        in if 0 < f \<and> 2 ^ 63 < w then None else Some (w, r))))"

lemma leading_int_length: "leading_int x s = Some (n, r) \<Longrightarrow> length r \<le> length s"
  by (induction x s rule: leading_int.induct) (auto simp: Let_def split: if_splits)

lemma leading_fraction_length: "leading_fraction x sc ov s = (n, sc', r) \<Longrightarrow> length r \<le> length s"
  by (induction x sc ov s rule: leading_fraction.induct) (auto simp: Let_def split: if_splits)

lemma duration_item_shorter:
  assumes "duration_item s = Some (w, r)" and "s \<noteq> []"
  shows "length r < length s"
proof -
  obtain v s1 where s1: "leading_int 0 s = Some (v, s1)"
    using assms(1) by (auto simp: duration_item_def split: if_splits option.splits)
  obtain f scale s2 where f: "leading_fraction 0 (f64_of_nat 1) False (tl s1) = (f, scale, s2)"
    by (metis prod.exhaust)
  have le: "length s1 \<le> length s" "length s2 \<le> length (tl s1)"
    using leading_int_length [OF s1] leading_fraction_length [OF f] by simp_all
  have drop: "length (dropWhile P t) < length t" if "takeWhile P t \<noteq> []" for P and t :: string
    using that takeWhile_dropWhile_id [of P t] by (metis append_Nil length_append length_greater_0_conv less_add_same_cancel2)
  show ?thesis
    using assms(1) le s1 f drop
    by (auto simp: duration_item_def Let_def split: if_splits option.splits)
      (metis le_trans length_tl less_le_trans diff_le_self)+
qed

function duration_loop :: "nat \<Rightarrow> string \<Rightarrow> nat option" where
  "duration_loop d s =
     (if s = [] then Some d
      else case duration_item s of
        None \<Rightarrow> None
      | Some (v, r) \<Rightarrow> (let d = (d + v) mod 2 ^ 64 in if 2 ^ 63 < d then None else duration_loop d r))"
  by pat_completeness auto
termination
  by (relation "measure (length \<circ> snd)") (auto dest: duration_item_shorter)

declare duration_loop.simps [simp del]

definition parse_duration :: "string \<Rightarrow> int option" where
  "parse_duration s =
     (let neg = (s \<noteq> [] \<and> hd s = CHR ''-'');
          s = (if s \<noteq> [] \<and> (hd s = CHR ''-'' \<or> hd s = CHR ''+'') then tl s else s)
      in if s = ''0'' then Some 0
         else if s = [] then None
         else case duration_loop 0 s of
           None \<Rightarrow> None
         | Some d \<Rightarrow>
             if neg then Some (- int d)
             else if 2 ^ 63 - 1 < d then None
             else Some (int d))"

section \<open>The environment\<close>

definition env_str :: "(string \<Rightarrow> string) \<Rightarrow> string \<Rightarrow> string \<Rightarrow> string" where
  "env_str getenv key def = (if getenv key \<noteq> [] then getenv key else def)"

definition env_bool :: "(string \<Rightarrow> string) \<Rightarrow> string \<Rightarrow> bool \<Rightarrow> bool" where
  "env_bool getenv key def =
     (if getenv key = [] then def
      else case parse_bool (getenv key) of None \<Rightarrow> def | Some b \<Rightarrow> b)"

text \<open>\<open>envInt\<close> and \<open>envInt64\<close>.\<close>

definition env_int :: "(string \<Rightarrow> string) \<Rightarrow> string \<Rightarrow> int \<Rightarrow> int" where
  "env_int getenv key def =
     (if getenv key \<noteq> [] then (case parse_int64 (getenv key) of Some n \<Rightarrow> n | None \<Rightarrow> def) else def)"

definition env_duration :: "(string \<Rightarrow> string) \<Rightarrow> string \<Rightarrow> int \<Rightarrow> int" where
  "env_duration getenv key def =
     (if getenv key \<noteq> [] then (case parse_duration (getenv key) of Some d \<Rightarrow> d | None \<Rightarrow> def) else def)"

section \<open>Load\<close>

definition load :: "(string \<Rightarrow> string) \<Rightarrow> string \<Rightarrow> config" where
  "load getenv hostname =
    \<lparr>tcp_addr = env_str getenv ''JT808_TCP_ADDR'' '':7018'',
     redis_addr = env_str getenv ''REDIS_HOST'' ''redis'' @ '':'' @ env_str getenv ''REDIS_PORT'' ''6379'',
     redis_password = env_str getenv ''REDIS_PASSWORD'' [],
     redis_db = env_int getenv ''REDIS_JT808_DB'' 0,
     redis_pool_size = env_int getenv ''REDIS_POOL_SIZE'' 100,
     stream_key = env_str getenv ''STREAM_KEY'' ''jt808:telemetry'',
     stream_max_len = env_int getenv ''STREAM_MAX_LEN'' 100000,
     session_prefix = env_str getenv ''SESSION_PREFIX'' ''jt808:session:'',
     auth_token_prefix = env_str getenv ''AUTH_TOKEN_PREFIX'' ''jt808:authtoken:'',
     online_z_key = env_str getenv ''ONLINE_Z_KEY'' ''jt808:online'',
     cmd_channel = env_str getenv ''CMD_CHANNEL'' ''jt808:cmd:'',
     auth_timeout = env_duration getenv ''AUTH_TIMEOUT'' (30 * 1000000000),
     heartbeat_timeout = env_duration getenv ''HEARTBEAT_TIMEOUT'' (3 * 60000000000),
     write_timeout = env_duration getenv ''WRITE_TIMEOUT'' (10 * 1000000000),
     db_enabled = env_bool getenv ''DB_ENABLED'' (getenv ''DB_HOST'' \<noteq> []),
     db_host = env_str getenv ''DB_HOST'' ''mysql'',
     db_port = env_str getenv ''DB_PORT'' ''3306'',
     db_user = env_str getenv ''DB_USERNAME'' ''laravel'',
     db_password = env_str getenv ''DB_PASSWORD'' [],
     db_name = env_str getenv ''DB_DATABASE'' ''laravel'',
     db_device_type_id = env_int getenv ''DB_DEVICE_TYPE_ID'' 1,
     db_devices_table = env_str getenv ''DB_DEVICES_TABLE'' ''devices'',
     db_imei_column = env_str getenv ''DB_IMEI_COLUMN'' ''imei'',
     db_broadcast_column = env_str getenv ''DB_BROADCAST_COLUMN'' ''broadcast_id'',
     db_status_column = env_str getenv ''DB_STATUS_COLUMN'' ''status'',
     db_type_id_column = env_str getenv ''DB_TYPE_ID_COLUMN'' ''device_type_id'',
     db_name_column = env_str getenv ''DB_NAME_COLUMN'' ''name'',
     db_notes_column = env_str getenv ''DB_NOTES_COLUMN'' ''notes'',
     db_created_at_column = env_str getenv ''DB_CREATED_AT_COLUMN'' ''created_at'',
     db_updated_at_column = env_str getenv ''DB_UPDATED_AT_COLUMN'' ''updated_at'',
     http_addr = env_str getenv ''JT808_HTTP_ADDR'' '':9090'',
     debug = (env_str getenv ''APP_DEBUG'' ''false'' = ''true''),
     server_id = env_str getenv ''SERVER_ID'' hostname\<rparr>"

definition mysql_dsn :: "config \<Rightarrow> string" where
  "mysql_dsn c = db_user c @ '':'' @ db_password c @ ''@tcp('' @ db_host c @ '':'' @ db_port c @
     '')/'' @ db_name c @ ''?parseTime=true&timeout=5s&readTimeout=5s&writeTimeout=5s''"

section \<open>Lemmas\<close>

lemma digit_char_props [simp]:
  "n < 10 \<Longrightarrow> is_digit (digit_char n)" "n < 10 \<Longrightarrow> digit_value (digit_char n) = n"
  by (simp_all add: is_digit_def digit_value_def digit_char_def)

text \<open>Reading a printed number.\<close>

lemma leading_int_dec_nat:
  "n \<le> 2 ^ 63 \<Longrightarrow> leading_int 0 (dec_nat n @ s) = leading_int n s"
proof (induction n arbitrary: s rule: dec_nat.induct)
  case (1 n)
  show ?case
  proof (cases "n < 10")
    case True
    then show ?thesis by (subst dec_nat.simps) simp
  next
    case False
    have le: "n div 10 \<le> 2 ^ 63 div 10" using 1(2) by (rule div_le_mono)
    have "leading_int 0 (dec_nat n @ s) = leading_int 0 (dec_nat (n div 10) @ digit_char (n mod 10) # s)"
      using False by (subst dec_nat.simps) simp
    also have "\<dots> = leading_int (n div 10) (digit_char (n mod 10) # s)"
      using False 1(2) by (intro 1(1)) simp_all
    also have "\<dots> = leading_int n s" using le 1(2) by simp
    finally show ?thesis .
  qed
qed

lemma dec_nat_digits: "list_all is_digit (dec_nat n)"
proof (induction n rule: dec_nat.induct)
  case (1 n)
  then show ?case by (subst dec_nat.simps) simp
qed

lemma fold_dec_nat: "fold (\<lambda>c n. n * 10 + digit_value c) (dec_nat n) 0 = n"
proof (induction n rule: dec_nat.induct)
  case (1 n)
  then show ?case by (subst dec_nat.simps) simp
qed

lemma parse_nat_dec_nat: "parse_nat (dec_nat n) = Some n"
  by (simp add: parse_nat_def dec_nat_digits fold_dec_nat)

lemma dec_nat_head: "is_digit (hd (dec_nat n))"
  using dec_nat_digits [of n] by (cases "dec_nat n") auto

lemma sign_not_digit: "\<not> is_digit CHR ''-''" "\<not> is_digit CHR ''+''" "\<not> is_digit CHR ''.''"
  by (simp_all add: is_digit_def)

lemma dec_nat_no_sign: "hd (dec_nat n) \<noteq> CHR ''-''" "hd (dec_nat n) \<noteq> CHR ''+''"
  using dec_nat_head [of n] sign_not_digit by metis+

text \<open>A duration as a list of counts with units, and its nanoseconds.\<close>

definition duration_text :: "(nat \<times> string) list \<Rightarrow> string" where
  "duration_text ps = concat (map (\<lambda>(n, u). dec_nat n @ u) ps)"

definition duration_ns :: "(nat \<times> string) list \<Rightarrow> nat" where
  "duration_ns ps = (\<Sum>(n, u)\<leftarrow>ps. n * the (map_of unit_map u))"

definition unit_char :: "char \<Rightarrow> bool" where
  "unit_char c \<longleftrightarrow> \<not> (c = CHR ''.'' \<or> is_digit c)"

lemma unit_map_units:
  "map_of unit_map u = Some k \<Longrightarrow> u \<noteq> [] \<and> list_all unit_char u \<and> 0 < k"
  by (auto simp: unit_map_def unit_char_def is_digit_def split: if_splits)

lemma leading_int_stops: "unit_char c \<Longrightarrow> leading_int n (c # s) = Some (n, c # s)"
  by (simp add: unit_char_def)

lemma take_units:
  assumes "list_all unit_char u" and "r = [] \<or> \<not> unit_char (hd r)"
  shows "takeWhile unit_char (u @ r) = u" and "dropWhile unit_char (u @ r) = r"
  using assms by (induction u) (cases r; auto)+

lemma duration_item_text:
  assumes u: "map_of unit_map u = Some k" and n: "n * k < 2 ^ 63"
    and r: "r = [] \<or> \<not> unit_char (hd r)"
  shows "duration_item (dec_nat n @ u @ r) = Some (n * k, r)"
proof -
  obtain c u' where c: "u = c # u'" "unit_char c" "list_all unit_char u" "0 < k"
    using unit_map_units [OF u] by (cases u) auto
  have n63: "n \<le> 2 ^ 63"
    using n c(4) by (metis le_trans less_imp_le_nat mult.commute mult_le_mono2 nat_mult_1 Suc_leI One_nat_def)
  have lead: "leading_int 0 (dec_nat n @ u @ r) = Some (n, u @ r)"
    using leading_int_dec_nat [OF n63] leading_int_stops [OF c(2)] by (simp add: c(1))
  have "hd (dec_nat n @ u @ r) = hd (dec_nat n)" by simp
  moreover have "n \<le> 2 ^ 63 div k" using n c(4) by (simp add: less_eq_div_iff_mult_less_eq)
  moreover have "takeWhile unit_char (u @ r) = u" "dropWhile unit_char (u @ r) = r"
    using take_units [OF c(3) r] by simp_all
  moreover have "c \<noteq> CHR ''.''" using c(2) by (simp add: unit_char_def)
  ultimately show ?thesis
    using lead dec_nat_head [of n] u
    by (simp add: duration_item_def unit_char_def [abs_def] c(1))
qed

lemma duration_text_Cons: "duration_text ((n, u) # ps) = dec_nat n @ u @ duration_text ps"
  by (simp add: duration_text_def)

lemma duration_text_head: "duration_text ps = [] \<or> \<not> unit_char (hd (duration_text ps))"
  using dec_nat_head by (cases ps) (auto simp: duration_text_def unit_char_def)

lemma duration_loop_text:
  assumes "\<forall>(n, u)\<in>set ps. u \<in> fst ` set unit_map" and "d + duration_ns ps < 2 ^ 63"
  shows "duration_loop d (duration_text ps) = Some (d + duration_ns ps)"
  using assms
proof (induction ps arbitrary: d)
  case Nil
  then show ?case by (subst duration_loop.simps) (simp add: duration_text_def duration_ns_def)
next
  case (Cons q ps)
  obtain n u where q: "q = (n, u)" by fastforce
  obtain k where k: "map_of unit_map u = Some k"
    using Cons.prems(1) q by (cases "map_of unit_map u") (auto simp: map_of_eq_None_iff)
  have ns: "duration_ns (q # ps) = n * k + duration_ns ps" by (simp add: duration_ns_def q k)
  have item: "duration_item (dec_nat n @ u @ duration_text ps) = Some (n * k, duration_text ps)"
    using Cons.prems(2) ns by (intro duration_item_text [OF k _ duration_text_head]) simp
  have "duration_loop (d + n * k) (duration_text ps) = Some (d + n * k + duration_ns ps)"
    using Cons.prems ns by (intro Cons.IH) auto
  then show ?case using Cons.prems(2)
    by (subst duration_loop.simps) (simp add: q duration_text_Cons item Let_def ns [unfolded q])
qed

section \<open>Properties\<close>

text \<open>
  Integers. A printed integer is read back exactly when it fits in 64 bits; beyond that the
  reader reports an error, so the variable's default is used.
\<close>

lemma parse_int64_printed:
  "parse_int64 (dec_int i) = (if - (2 ^ 63) \<le> i \<and> i < 2 ^ 63 then Some i else None)"
  by (auto simp: parse_int64_def dec_int_def parse_nat_dec_nat dec_nat_no_sign Let_def)

lemma parse_duration_text:
  assumes "ps \<noteq> []" and "\<forall>(n, u)\<in>set ps. u \<in> fst ` set unit_map" and "duration_ns ps < 2 ^ 63"
  shows "parse_duration (duration_text ps) = Some (int (duration_ns ps))"
    and "parse_duration (CHR ''-'' # duration_text ps) = Some (- int (duration_ns ps))"
    and "duration_text ps \<noteq> []"
proof -
  have loop: "duration_loop 0 (duration_text ps) = Some (duration_ns ps)"
    using duration_loop_text [of ps 0] assms by simp
  obtain n u qs where ps: "ps = (n, u) # qs" using assms(1) by (cases ps) auto
  obtain k where "map_of unit_map u = Some k"
    using assms(2) ps by (cases "map_of unit_map u") (auto simp: map_of_eq_None_iff)
  then have "u \<noteq> []" using unit_map_units by blast
  then have "2 \<le> length (duration_text ps)"
    by (cases "dec_nat n"; cases u) (simp_all add: ps duration_text_Cons)
  then have ne: "duration_text ps \<noteq> ''0''" "duration_text ps \<noteq> []" by auto
  moreover have "hd (duration_text ps) \<noteq> CHR ''-''" "hd (duration_text ps) \<noteq> CHR ''+''"
    using dec_nat_no_sign [of n] by (simp_all add: ps duration_text_Cons)
  ultimately show "parse_duration (duration_text ps) = Some (int (duration_ns ps))"
    "parse_duration (CHR ''-'' # duration_text ps) = Some (- int (duration_ns ps))"
    using loop assms(3) by (simp_all add: parse_duration_def Let_def)
  show "duration_text ps \<noteq> []" by (rule ne(2))
qed

lemma env_duration_text:
  assumes "ps \<noteq> []" and "\<forall>(n, u)\<in>set ps. u \<in> fst ` set unit_map" and "duration_ns ps < 2 ^ 63"
    and "getenv key = (if neg then ''-'' else []) @ duration_text ps"
  shows "env_duration getenv key def = (if neg then - int (duration_ns ps) else int (duration_ns ps))"
  using parse_duration_text [OF assms(1-3)] assms(4) by (simp add: env_duration_def)

definition second_ns :: int where
  "second_ns = 1000000000"

text \<open>The variables that hold durations, the field \<open>Load\<close> sets from each, and its default.\<close>

definition duration_settings :: "(string \<times> (config \<Rightarrow> int) \<times> int) set" where
  "duration_settings = {(''AUTH_TIMEOUT'', auth_timeout, 30 * second_ns),
     (''HEARTBEAT_TIMEOUT'', heartbeat_timeout, 180 * second_ns), (''WRITE_TIMEOUT'', write_timeout, 10 * second_ns)}"

text \<open>
  C39 (durations). Each of the three timeouts is loaded from its own variable, whatever the others
  hold: counts with units, as 1h30m or 250ms, give the sum of their parts in nanoseconds whenever
  that fits in a duration, with a minus sign its negative; an unset variable gives the timeout's
  own default.
\<close>

theorem load_durations:
  assumes "(key, getter, dflt) \<in> duration_settings"
    and "ps \<noteq> []" and "\<forall>(n, u)\<in>set ps. u \<in> fst ` set unit_map" and "duration_ns ps < 2 ^ 63"
    and "getenv key = (if neg then ''-'' else []) @ duration_text ps" and "unset key = []"
  shows "getter (load getenv h) = (if neg then - int (duration_ns ps) else int (duration_ns ps)) \<and>
    getter (load unset h) = dflt"
proof
  show "getter (load getenv h) = (if neg then - int (duration_ns ps) else int (duration_ns ps))"
    using assms(1) env_duration_text [where getenv = getenv and key = key and neg = neg, OF assms(2-5)] by (auto simp: duration_settings_def load_def)
  show "getter (load unset h) = dflt"
    using assms(1,6) by (auto simp: duration_settings_def load_def env_duration_def second_ns_def)
qed

theorem load_durations_witness:
  "heartbeat_timeout (load ((\<lambda>_. ''5s'')(''HEARTBEAT_TIMEOUT'' := duration_text [(1, ''h''), (30, ''m''), (250, ''ms'')])) [])
     = 5400250000000"
  using load_durations [of "''HEARTBEAT_TIMEOUT''" heartbeat_timeout "180 * second_ns" "[(1, ''h''), (30, ''m''), (250, ''ms'')]"
      "(\<lambda>_. ''5s'')(''HEARTBEAT_TIMEOUT'' := duration_text [(1, ''h''), (30, ''m''), (250, ''ms'')])" False "\<lambda>_. []" "[]"]
  by (simp add: duration_settings_def unit_map_def duration_ns_def)

text \<open>
  Database switch. The database is enabled by a true \<open>DB_ENABLED\<close>, disabled by a false one,
  and otherwise enabled exactly when \<open>DB_HOST\<close> is set; an unset host still gets its default.
\<close>

theorem load_database_switch:
  "db_enabled (load getenv h) =
     (case parse_bool (getenv ''DB_ENABLED'') of Some b \<Rightarrow> b | None \<Rightarrow> getenv ''DB_HOST'' \<noteq> []) \<and>
   db_host (load getenv h) = (if getenv ''DB_HOST'' = [] then ''mysql'' else getenv ''DB_HOST'')"
  by (simp add: load_def env_bool_def env_str_def parse_bool_def split: option.split)

text \<open>
  Timeouts. A timeout variable that does not parse, or is unset, leaves the default, but any
  duration that parses is taken as it is: a zero or negative heartbeat timeout is accepted.
\<close>

lemma load_timeouts:
  "heartbeat_timeout (load getenv h) =
     (case parse_duration (getenv ''HEARTBEAT_TIMEOUT'') of Some d \<Rightarrow> d | None \<Rightarrow> 180000000000) \<and>
   auth_timeout (load getenv h) =
     (case parse_duration (getenv ''AUTH_TIMEOUT'') of Some d \<Rightarrow> d | None \<Rightarrow> 30000000000) \<and>
   parse_duration ''0'' = Some 0 \<and> parse_duration ''-5s'' = Some (- 5000000000)"
proof -
  have "dec_nat 5 = ''5''" by code_simp
  then have "parse_duration ''-5s'' = Some (- 5000000000)"
    using duration_loop_text [of "[(5, ''s'')]" 0]
    by (simp add: parse_duration_def duration_text_def duration_ns_def unit_map_def)
  moreover have "parse_duration [] = None" by (simp add: parse_duration_def)
  ultimately show ?thesis
    by (auto simp: load_def env_duration_def parse_duration_def [of "''0''"] split: option.split)
qed

end
