(* ===== verification/Dialogue.thy ===== *)
theory Dialogue
  imports Connection_Laws Device_Laws Config_Load
begin

text \<open>
  The device simulator in dialogue with the server: lemmas on the answers the device accepts and
  on what the server writes while it handles the device's frames.
\<close>

section \<open>Answers as the device reads them\<close>

lemma platform_ack_parts:
  "length (build_platform_ack q i r) = 5" "build_platform_ack q i r ! 4 = r"
  "get16 (build_platform_ack q i r ! 2) (build_platform_ack q i r ! 3) = i"
  by (simp_all add: build_platform_ack_def put16_def get16_put16)

lemma registration_ack_parts:
  "3 \<le> length (build_registration_ack q r t)" "build_registration_ack q r t ! 2 = r"
  "drop 3 (build_registration_ack q r t) = bytes_of_string t"
  by (simp_all add: build_registration_ack_def put16_def)

lemmas read_written = read_frame_written [of "[]", simplified]

lemma read_ack_written:
  "read_ack io i (encode_frame msg_platform_resp p q (build_platform_ack sq i r) @ rest) =
     (if r = result_ok then Inr rest else Inl (AckResult r))"
  by (simp add: read_ack_def read_written platform_ack_parts Let_def)

section \<open>The frames of the device, and the server's writes\<close>

type_synonym message = "u16 \<times> string \<times> u16 \<times> bytes"

definition on_wire :: "message \<Rightarrow> bytes" where
  "on_wire m = bytes_of ([], m)"

lemma on_wire_simp [simp]: "on_wire (i, p, q, b) = encode_frame i p q b"
  by (simp add: on_wire_def)

text \<open>The messages the main loop sends, and the state it ends in.\<close>

fun loop_messages :: "dev_config \<Rightarrow> (f64 \<Rightarrow> f64) \<Rightarrow> (f64 \<Rightarrow> f64) \<Rightarrow> u16 \<Rightarrow>
    dev_state \<Rightarrow> tick list \<Rightarrow> message list" where
  "loop_messages cfg cosf sinf seq s [] = []"
| "loop_messages cfg cosf sinf seq s (LocTick x # ts) =
     (msg_location_report, d_imei cfg, seq, location_body_of x s) #
     loop_messages cfg cosf sinf (seq + 1) (advance_by cosf sinf x cfg s) ts"
| "loop_messages cfg cosf sinf seq s (HbTick # ts) =
     (msg_heartbeat, d_imei cfg, seq, []) # loop_messages cfg cosf sinf (seq + 1) s ts"

text \<open>The states of the journey after each location tick.\<close>

fun loop_saved :: "dev_config \<Rightarrow> (f64 \<Rightarrow> f64) \<Rightarrow> (f64 \<Rightarrow> f64) \<Rightarrow> dev_state \<Rightarrow> tick list \<Rightarrow> dev_state list" where
  "loop_saved cfg cosf sinf s [] = []"
| "loop_saved cfg cosf sinf s (LocTick x # ts) =
     advance_by cosf sinf x cfg s # loop_saved cfg cosf sinf (advance_by cosf sinf x cfg s) ts"
| "loop_saved cfg cosf sinf s (HbTick # ts) = loop_saved cfg cosf sinf s ts"

definition loop_state :: "dev_config \<Rightarrow> (f64 \<Rightarrow> f64) \<Rightarrow> (f64 \<Rightarrow> f64) \<Rightarrow> dev_state \<Rightarrow> tick list \<Rightarrow> dev_state" where
  "loop_state cfg cosf sinf s ts = last (s # loop_saved cfg cosf sinf s ts)"

lemma loop_state_simps [simp]:
  "loop_state cfg cosf sinf s [] = s"
  "loop_state cfg cosf sinf s (LocTick x # ts) = loop_state cfg cosf sinf (advance_by cosf sinf x cfg s) ts"
  "loop_state cfg cosf sinf s (HbTick # ts) = loop_state cfg cosf sinf s ts"
  by (simp_all add: loop_state_def)

text \<open>A location or heartbeat past the gate is answered by one acknowledgement with result 0.\<close>

lemma wire_acked:
  assumes "acked cfg sid f r w v"
  shows "\<exists>p q. wire sid v = wire sid w @ [encode_frame msg_platform_resp p q
    (build_platform_ack (seq_num f) (msg_id f) r)]"
  using assms unfolding answered_defs wire_def by (elim conjE disjE exE; simp; blast)

lemma report_acked:
  assumes "msg_id f \<in> {msg_location_report, msg_heartbeat}" and "\<not> s_state (sessions w sid) < Authenticated"
  shows "acked cfg sid f result_ok w (dispatch e cfg st sid f w)"
    and "s_state (sessions (dispatch e cfg st sid f w) sid) = s_state (sessions w sid)"
  using assms answered_handlers(1,2) [where w = "counted f w" and e = e and cfg = cfg and sid = sid and f = f]
  unfolding answered_counted by (auto simp: dispatch_cases)

lemma loop_dialogue:
  assumes "\<not> s_state (sessions w sid) < Authenticated"
  shows "\<exists>outs. wire sid (run_frames es n cfg st sid (map frame_of (loop_messages dc cosf sinf seq s ts)) w) =
      wire sid w @ outs \<and>
    device_loop dc (\<lambda>_. True) io cosf sinf seq s ts (concat outs @ rest) =
      (map on_wire (loop_messages dc cosf sinf seq s ts), loop_saved dc cosf sinf s ts, loop_state dc cosf sinf s ts, Inr rest)"
  using assms
proof (induction ts arbitrary: w n seq s)
  case Nil
  then show ?case by simp
next
  case (Cons t ts)
  obtain m where m: "loop_messages dc cosf sinf seq s (t # ts) =
      m # loop_messages dc cosf sinf (seq + 1) (loop_state dc cosf sinf s [t]) ts"
    "msg_id (frame_of m) \<in> {msg_location_report, msg_heartbeat}"
    by (cases t) simp_all
  let ?v = "dispatch (es n) cfg st sid (frame_of m) w"
  note step = report_acked [OF m(2) Cons.prems, where e = "es n" and cfg = cfg and st = st]
  obtain p q where out: "wire sid ?v = wire sid w @ [encode_frame msg_platform_resp p q
      (build_platform_ack (seq_num (frame_of m)) (msg_id (frame_of m)) result_ok)]"
    using wire_acked [OF step(1)] by blast
  obtain outs where outs: "wire sid (run_frames es (Suc n) cfg st sid
        (map frame_of (loop_messages dc cosf sinf (seq + 1) (loop_state dc cosf sinf s [t]) ts)) ?v) = wire sid ?v @ outs"
    "device_loop dc (\<lambda>_. True) io cosf sinf (seq + 1) (loop_state dc cosf sinf s [t]) ts (concat outs @ rest) =
      (map on_wire (loop_messages dc cosf sinf (seq + 1) (loop_state dc cosf sinf s [t]) ts),
       loop_saved dc cosf sinf (loop_state dc cosf sinf s [t]) ts,
       loop_state dc cosf sinf (loop_state dc cosf sinf s [t]) ts, Inr rest)"
    using Cons.IH [of ?v "Suc n" "seq + 1" "loop_state dc cosf sinf s [t]"] step(2) Cons.prems by auto
  show ?case
    using m out outs
    by (cases t) (auto simp: Let_def split_beta read_ack_written)
qed

section \<open>Login\<close>

lemma last_write:
  assumes "writes v = writes w @ [x]" and "last (events v) = y" and "is_write y"
  shows "x = y"
proof -
  have "events v \<noteq> []" using assms(1) by (auto simp: writes_def)
  then have "events v = butlast (events v) @ [y]" using assms(2) append_butlast_last_id by metis
  then have "writes v = filter is_write (butlast (events v)) @ [y]"
    using assms(3) unfolding writes_def by (metis filter.simps filter_append)
  with assms(1) show ?thesis by (metis last_snoc)
qed

text \<open>The two messages of the login; the second carries the token of the session.\<close>

definition reg_message :: "dev_config \<Rightarrow> message" where
  "reg_message dc = (msg_registration, d_imei dc, 1, build_reg_body dc)"

definition auth_message :: "dev_config \<Rightarrow> bytes \<Rightarrow> message" where
  "auth_message dc token = (msg_authentication, d_imei dc, 2, token)"

lemma login_dialogue:
  assumes "decode_registration (build_reg_body dc) = Inr info"
    and "device_allowed e1 st (frame_of (reg_message dc)) info"
    and "w1 = dispatch e1 cfg st sid (frame_of (reg_message dc)) w"
    and "w2 = dispatch e2 cfg st sid (frame_of (auth_message dc (bytes_of_string (s_token (sessions w1 sid))))) w1"
    and "redis_get e2 (auth_key cfg (phone (frame_of (reg_message dc)))) =
      redis_holds (auth_key cfg (phone (frame_of (reg_message dc)))) (events w1)"
  shows "\<exists>o1 o2. wire sid w2 = wire sid w @ [o1, o2] \<and>
      device_login dc (\<lambda>_. True) io (o1 @ o2 @ rest) =
        ([on_wire (reg_message dc), on_wire (auth_message dc (bytes_of_string (s_token (sessions w1 sid))))], Inr rest)"
    and "s_state (sessions w2 sid) = Authenticated"
    and "reg_get (phone (frame_of (reg_message dc))) w2 = Some sid"
proof -
  let ?f1 = "frame_of (reg_message dc)"
  let ?tok = "s_token (sessions w1 sid)"
  let ?f2 = "frame_of (auth_message dc (bytes_of_string ?tok))"
  have f1: "msg_id ?f1 = msg_registration" "decode_registration (body ?f1) = Inr info"
    using assms(1) by (simp_all add: reg_message_def)
  have f2: "msg_id ?f2 = msg_authentication" "phone ?f2 = phone ?f1" "body ?f2 = bytes_of_string ?tok"
    by (simp_all add: auth_message_def reg_message_def)
  note reg = accepted_registration [OF f1 assms(2), where cfg = cfg and sid = sid and w = w, folded assms(3)]
  obtain evs err where ev: "events w1 = events w @ evs @
      [Redis [SetEx (auth_key cfg (phone ?f1)) ?tok (24 * 3600 * second)],
       ConnWrite sid (encode_frame msg_registration_resp (phone ?f1) (next_seq (sessions w sid))
         (build_registration_ack (seq_num ?f1) reg_success ?tok)) (write_timeout cfg) err]"
    using reg(3) by (auto simp: reg(1))
  define o1 where "o1 = encode_frame msg_registration_resp (phone ?f1) (next_seq (sessions w sid))
    (build_registration_ack (seq_num ?f1) reg_success ?tok)"
  have "msg_id ?f1 \<noteq> msg_terminal_resp" using f1(1) by (simp add: msg_ids)
  from answered_dispatch [OF this, where cfg = cfg and sid = sid and w = w and e = e1 and st = st]
  have "\<exists>x. writes w1 = writes w @ [x]" unfolding assms(3) [symmetric] answered_defs by blast
  then have "writes w1 = writes w @ [ConnWrite sid o1 (write_timeout cfg) err]"
    using last_write [of w1 w _ "ConnWrite sid o1 (write_timeout cfg) err"] by (auto simp: ev o1_def)
  then have w1: "wire sid w1 = wire sid w @ [o1]" by (simp add: wire_def)
  have "redis_get e2 (auth_key cfg (phone ?f1)) = RedisVal ?tok"
    unfolding assms(5) ev append_assoc [symmetric] by (rule redis_holds_stored)
  then have acc: "token_accepted e2 cfg ?f2" by (simp add: token_accepted_def f2)
  have ph: "auth_phone sid ?f2 w1 = phone ?f1" by (simp add: auth_phone_def reg(1) auth_message_def reg_message_def)
  note auth = authenticated_dispatch(1,2) [OF f2(1) acc, where st = st and sid = sid and w = w1,
    unfolded ph, folded assms(4)]
  show "s_state (sessions w2 sid) = Authenticated" "reg_get (phone ?f1) w2 = Some sid"
    by (simp_all add: auth)
  have "acked cfg sid ?f2 result_ok w1 w2"
    using answered_handlers(4) [where w = "counted ?f2 w1" and e = e2 and cfg = cfg and sid = sid and f = ?f2]
      acc f2(1) unfolding assms(4) answered_counted by (simp add: dispatch_cases)
  then obtain p q where w2: "wire sid w2 = wire sid w1 @ [encode_frame msg_platform_resp p q
      (build_platform_ack (seq_num ?f2) (msg_id ?f2) result_ok)]"
    using wire_acked by blast
  let ?o2 = "encode_frame msg_platform_resp p q (build_platform_ack (seq_num ?f2) (msg_id ?f2) result_ok)"
  have "device_login dc (\<lambda>_. True) io (o1 @ ?o2 @ rest) =
      ([on_wire (reg_message dc), on_wire (auth_message dc (bytes_of_string ?tok))], Inr rest)"
    by (simp add: device_login_def o1_def read_written registration_ack_parts platform_ack_parts
        linorder_not_less Let_def auth_message_def reg_message_def)
  then show "\<exists>o1 o2. wire sid w2 = wire sid w @ [o1, o2] \<and>
      device_login dc (\<lambda>_. True) io (o1 @ o2 @ rest) =
        ([on_wire (reg_message dc), on_wire (auth_message dc (bytes_of_string ?tok))], Inr rest)"
    using w1 w2 by (intro exI [of _ o1] exI [of _ ?o2]) simp
qed

section \<open>The server on the device's bytes\<close>

text \<open>The loop's messages leave the registry and the session's state alone.\<close>

lemma loop_keeps:
  assumes "\<not> s_state (sessions w sid) < Authenticated"
  shows "registry (run_frames es n cfg st sid (map frame_of (loop_messages dc cosf sinf seq s ts)) w) = registry w"
    and "s_state (sessions (run_frames es n cfg st sid (map frame_of (loop_messages dc cosf sinf seq s ts)) w) sid) =
      s_state (sessions w sid)"
proof -
  have "registry (run_frames es n cfg st sid (map frame_of (loop_messages dc cosf sinf seq s ts)) w) = registry w \<and>
    s_state (sessions (run_frames es n cfg st sid (map frame_of (loop_messages dc cosf sinf seq s ts)) w) sid) =
      s_state (sessions w sid)"
    using assms(1)
  proof (induction ts arbitrary: w n seq s)
    case (Cons t ts)
    obtain m where m: "loop_messages dc cosf sinf seq s (t # ts) =
        m # loop_messages dc cosf sinf (seq + 1) (loop_state dc cosf sinf s [t]) ts"
      "msg_id (frame_of m) \<in> {msg_location_report, msg_heartbeat}"
      by (cases t) simp_all
    let ?v = "dispatch (es n) cfg st sid (frame_of m) w"
    note step = report_acked(2) [OF m(2) Cons.prems, where e = "es n" and cfg = cfg and st = st]
    have "registry ?v = registry w" using m(2) by (intro dispatch_other(1)) (auto simp: msg_ids)
    with Cons.IH [of ?v "Suc n" "seq + 1" "loop_state dc cosf sinf s [t]"] step Cons.prems m(1) show ?case by simp
  qed simp
  then show "registry (run_frames es n cfg st sid (map frame_of (loop_messages dc cosf sinf seq s ts)) w) = registry w"
    "s_state (sessions (run_frames es n cfg st sid (map frame_of (loop_messages dc cosf sinf seq s ts)) w) sid) =
      s_state (sessions w sid)"
    by simp_all
qed

lemma conn_loop_messages:
  assumes "read_frame io tail = (Inl err, r)"
  shows "conn_loop es n cfg st io sid (concat (map on_wire ms) @ tail) w =
    end_conn sid (run_frames es n cfg st sid (map frame_of ms) w)"
  using conn_loop_frames [OF _ assms, of "map (Pair []) ms" es n cfg st sid w]
  by (simp add: comp_def on_wire_def [abs_def])

end
