(* ===== verification/Float_Exact.thy ===== *)
theory Float_Exact
  imports Float_Ops
begin

text \<open>
  The binary64 numbers themselves: which magnitudes are representable, that every operation
  returns a representable number, and that a number is recovered from any rational close enough
  to it, which is what printing and reading a number relies on.
\<close>

section \<open>Definitions\<close>

definition f64_mag :: "rat \<Rightarrow> bool" where
  "f64_mag m \<longleftrightarrow> 0 \<le> m \<and> m < 2 ^ 1024 \<and> round_mag m = m"

fun f64_ok :: "f64 \<Rightarrow> bool" where
  "f64_ok (Fin s m) = f64_mag m"
| "f64_ok _ = True"

section \<open>Multiples of a power of two\<close>

lemma pow2_nat: "e \<le> d \<Longrightarrow> pow2 d = of_int (2 ^ nat (d - e)) * pow2 e"
  using pow2_add [of "d - e" e] by (simp add: pow2_def)

lemma multiple_pow2_mono:
  assumes "e \<le> d"
  shows "\<exists>i. of_int j * pow2 d = of_int i * pow2 e"
  by (rule exI [of _ "j * 2 ^ nat (d - e)"]) (simp add: pow2_nat [OF assms])

lemma round_mag_multiple:
  assumes "m = of_int j * pow2 (ulp_exp m)"
  shows "0 < m \<Longrightarrow> round_mag m = m"
proof -
  have "m / pow2 (ulp_exp m) = of_int j" by (subst assms) simp
  then show "0 < m \<Longrightarrow> round_mag m = m" using assms by (simp add: round_mag_def)
qed

lemma ilog2_less: "0 < q \<Longrightarrow> q < pow2 k \<Longrightarrow> ilog2 q < k"
  using ilog2_bounds(1) [of q] pow2_mono [of k "ilog2 q"] by linarith

lemma ilog2_ge: "pow2 k \<le> q \<Longrightarrow> k \<le> ilog2 q"
proof -
  assume k: "pow2 k \<le> q"
  then have q: "0 < q" using pow2_pos [of k] by linarith
  have "k < ilog2 q + 1 \<or> ilog2 q + 1 \<le> k" by linarith
  then show "k \<le> ilog2 q"
    using ilog2_bounds(2) [OF q] pow2_mono [of "ilog2 q + 1" k] k by linarith
qed

lemma representable_below:
  assumes "0 \<le> j" "j < 2 ^ 53" "- 1074 \<le> e"
  shows "round_mag (of_int j * pow2 e) = of_int j * pow2 e"
proof (cases "j = 0")
  case False
  let ?m = "of_int j * pow2 e"
  have m: "0 < ?m" using assms(1) False by simp
  have "(of_int j :: rat) < of_int (2 ^ 53)" using assms(2) by (simp only: of_int_less_iff)
  then have "?m < of_int (2 ^ 53) * pow2 e" by (intro mult_strict_right_mono) simp_all
  also have "\<dots> = pow2 (53 + e)" by (subst pow2_add) (simp add: pow2_def)
  finally have "ilog2 ?m < 53 + e" by (rule ilog2_less [OF m])
  then have "ulp_exp ?m \<le> e" using assms(3) by (simp add: ulp_exp_def)
  from multiple_pow2_mono [OF this, of j] obtain i where "?m = of_int i * pow2 (ulp_exp ?m)" by blast
  from round_mag_multiple [OF this m] show ?thesis .
qed simp

lemma representable:
  assumes "0 \<le> j" "j \<le> 2 ^ 53" "- 1074 \<le> e"
  shows "round_mag (of_int j * pow2 e) = of_int j * pow2 e"
proof (cases "j = 2 ^ 53")
  case True
  have "of_int j * pow2 e = of_int (2 ^ 52) * pow2 (e + 1)"
    by (simp add: True pow2_add) (simp add: pow2_def)
  then show ?thesis using representable_below [of "2 ^ 52" "e + 1"] assms(3) by simp
qed (use assms representable_below in simp)

text \<open>What rounding returns, and that it returns representable numbers.\<close>

lemma round_mag_form:
  assumes "0 < q"
  shows "\<exists>j. round_mag q = of_int j * pow2 (ulp_exp q) \<and> 0 \<le> j \<and> j \<le> 2 ^ 53"
proof -
  define x where "x = q / pow2 (ulp_exp q)"
  have x0: "0 \<le> x" using assms by (simp add: x_def less_imp_le)
  have "q < pow2 (ilog2 q + 1)" using ilog2_bounds(2) [OF assms] .
  also have "\<dots> \<le> pow2 (53 + ulp_exp q)" by (rule pow2_mono) (simp add: ulp_exp_def)
  also have "\<dots> = 2 ^ 53 * pow2 (ulp_exp q)" by (subst pow2_add) (simp add: pow2_def)
  finally have x1: "x < 2 ^ 53" by (simp add: x_def pos_divide_less_eq)
  have err: "\<bar>of_int (round_even x) - x\<bar> \<le> 1 / 2" by (rule round_even_error)
  have "of_int (round_even x) < (2 ^ 53 + 1 :: rat)" "- 1 < (of_int (round_even x) :: rat)"
    using err x0 x1 by linarith+
  moreover have "(2 ^ 53 + 1 :: rat) = of_int (2 ^ 53 + 1)" "(- 1 :: rat) = of_int (- 1)" by simp_all
  ultimately have "round_even x \<le> 2 ^ 53" "0 \<le> round_even x"
    by (simp_all only: of_int_less_iff)
  then show ?thesis using assms by (auto simp: round_mag_def x_def)
qed

lemma ulp_exp_ge: "- 1074 \<le> ulp_exp q"
  by (simp add: ulp_exp_def)

lemma round_mag_idem [simp]: "round_mag (round_mag q) = round_mag q"
proof (cases "0 < q")
  case True
  then obtain j where "round_mag q = of_int j * pow2 (ulp_exp q)" "0 \<le> j" "j \<le> 2 ^ 53"
    using round_mag_form by blast
  then show ?thesis using representable [OF _ _ ulp_exp_ge] by simp
qed (simp add: round_mag_def)

lemma f64_round_ok [simp, intro]: "f64_ok (f64_round s q)"
  by (simp add: f64_round_def Let_def f64_mag_def round_mag_nonneg)

text \<open>A representable magnitude as a multiple of its unit in the last place.\<close>

lemma f64_mag_form:
  assumes "round_mag m = m" "0 < m"
  obtains j where "m = of_int j * pow2 (ulp_exp m)" "0 \<le> j" "j \<le> 2 ^ 53"
  using round_mag_form [OF assms(2)] assms(1) by auto

section \<open>Every operation returns a representable number\<close>

lemma f64_ok_of_int [simp]: "f64_ok (f64_of_int i)" "f64_ok (f64_of_nat n)" "f64_ok (f64_const q)"
  by (simp_all add: f64_of_int_def f64_of_nat_def f64_const_def)

lemma f64_mag_0 [simp]: "f64_mag 0"
  by (simp add: f64_mag_def)

lemma f64_ok_neg [simp]: "f64_ok (f64_neg x) = f64_ok x"
  by (cases x) auto

lemma f64_ok_mul [simp]: "f64_ok (f64_mul x y)"
  by (cases "(x, y)" rule: f64_mul.cases) auto

lemma f64_ok_add [simp]: "f64_ok (f64_add x y)"
  by (cases "(x, y)" rule: f64_add.cases) auto

lemma f64_ok_sub [simp]: "f64_ok (f64_sub x y)"
  by (simp add: f64_sub_def)

lemma f64_ok_div [simp]: "f64_ok (f64_div x y)"
  by (cases "(x, y)" rule: f64_div.cases) auto

text \<open>The remainder is exact: it is a multiple of the smaller unit, and below the divisor.\<close>

lemma remainder_representable:
  assumes p: "f64_mag p" and q: "f64_mag q" "0 < q"
  shows "f64_mag (p - of_int \<lfloor>p / q\<rfloor> * q)"
proof (cases "p < q")
  case True
  moreover have "0 \<le> p" using p by (simp add: f64_mag_def)
  ultimately have "\<lfloor>p / q\<rfloor> = 0" using q(2) by (simp add: floor_eq_iff)
  then show ?thesis using p by simp
next
  case False
  let ?e = "ulp_exp q" and ?r = "p - of_int \<lfloor>p / q\<rfloor> * q"
  have pq: "q \<le> p" "0 < p" using False q(2) by simp_all
  obtain i where i: "p = of_int i * pow2 (ulp_exp p)" using f64_mag_form [of p] p pq(2) by (auto simp: f64_mag_def)
  obtain j where j: "q = of_int j * pow2 ?e" "0 \<le> j" "j \<le> 2 ^ 53"
    using f64_mag_form [of q] q by (auto simp: f64_mag_def)
  have "pow2 (ilog2 q) \<le> p" using ilog2_bounds(1) [OF q(2)] pq(1) by linarith
  then have "?e \<le> ulp_exp p" using ilog2_ge by (fastforce simp: ulp_exp_def)
  from multiple_pow2_mono [OF this, of i] obtain k where k: "p = of_int k * pow2 ?e" using i by auto
  define n where "n = k - \<lfloor>p / q\<rfloor> * j"
  have r: "?r = of_int n * pow2 ?e" by (simp add: n_def k [symmetric] j(1) [symmetric] left_diff_distrib algebra_simps)
  have "of_int \<lfloor>p / q\<rfloor> \<le> p / q" "p / q < of_int \<lfloor>p / q\<rfloor> + 1" by linarith+
  then have "of_int \<lfloor>p / q\<rfloor> * q \<le> p" "p < (of_int \<lfloor>p / q\<rfloor> + 1) * q"
    using q(2) by (simp_all only: pos_le_divide_eq pos_divide_less_eq)
  then have r0: "0 \<le> ?r" "?r < q" by (simp_all add: algebra_simps)
  have n0: "0 \<le> n" using r0(1) by (simp add: r zero_le_mult_iff) (use pow2_pos [of ?e] in linarith)
  have "of_int n * pow2 ?e < of_int j * pow2 ?e" using r0(2) by (simp add: r j(1) [symmetric])
  then have "n < j" by simp
  then have "round_mag ?r = ?r" using representable [OF n0 _ ulp_exp_ge [of q]] j(3) unfolding r by simp
  then show ?thesis using r0 q(1) by (simp add: f64_mag_def)
qed

lemma f64_ok_mod [simp]: "f64_ok x \<Longrightarrow> f64_ok y \<Longrightarrow> f64_ok (f64_mod x y)"
proof (cases "(x, y)" rule: f64_mod.cases)
  case (1 s p t q)
  moreover assume "f64_ok x" "f64_ok y"
  ultimately show ?thesis using remainder_representable [of p q] by (auto simp: f64_mag_def order_le_less)
qed auto

section \<open>Recovering a number from a rational close to it\<close>

text \<open>
  A rational within \<open>m / 2 ^ 54\<close> of a representable \<open>m\<close> rounds to \<open>m\<close>: its unit in the last place
  is not larger than that of \<open>m\<close>, and \<open>m\<close> is at most \<open>2 ^ 53\<close> of its units.
\<close>

definition near :: "rat \<Rightarrow> rat \<Rightarrow> bool" where
  "near q m \<longleftrightarrow> round_mag m = m \<and> 0 < m \<and> \<bar>q - m\<bar> * 2 ^ 54 < m"

lemma nearD:
  assumes "near q m"
  shows "round_mag m = m" "0 < m" "\<bar>q - m\<bar> * 2 ^ 54 < m"
  using assms by (auto simp: near_def)

lemma near_pos:
  assumes "near q m"
  shows "0 < q" "q < 2 * m" "m < 2 * q"
proof -
  note close = nearD(3) [OF assms]
  have "\<bar>q - m\<bar> * 2 \<le> \<bar>q - m\<bar> * 2 ^ 54" by (intro mult_left_mono) simp_all
  then have "\<bar>q - m\<bar> * 2 < m" using close by linarith
  then have "\<bar>q - m\<bar> < m / 2" by simp
  then have "q - m < m / 2" "m - q < m / 2" by (simp_all only: abs_less_iff minus_diff_eq)
  with nearD(2) [OF assms] show "0 < q" "q < 2 * m" "m < 2 * q" by simp_all
qed

lemma near_ilog2:
  assumes "near q m"
  shows "ilog2 q \<le> ilog2 m + 1" "ilog2 m \<le> ilog2 q + 1"
proof -
  note near_pos = near_pos [OF assms] and pos = nearD(2) [OF assms]
  have d: "pow2 (k + 1) = 2 * pow2 k" for k by (subst pow2_add) (simp add: pow2_def)
  have "q < pow2 (ilog2 m + 2)" "m < pow2 (ilog2 q + 2)"
    using near_pos ilog2_bounds(2) [OF pos] ilog2_bounds(2) [OF near_pos(1)]
      d [of "ilog2 m + 1"] d [of "ilog2 q + 1"] by (simp_all add: add.assoc)
  then show "ilog2 q \<le> ilog2 m + 1" "ilog2 m \<le> ilog2 q + 1"
    using ilog2_less [OF near_pos(1)] ilog2_less [OF pos] by force+
qed

text \<open>The gap between multiples of a power of two is larger than the distance.\<close>

lemma near_gap:
  assumes near: "near q m" and "m = of_int i * pow2 e" "ilog2 m - 53 \<le> e" "\<bar>x - m\<bar> \<le> \<bar>q - m\<bar>" "x = of_int j * pow2 e"
  shows "x = m"
proof -
  note assms = assms(2-) and pos = nearD(2) [OF near] and close = nearD(3) [OF near]
  have "m < pow2 (ilog2 m + 1)" using ilog2_bounds(2) [OF pos] .
  also have "\<dots> \<le> pow2 (54 + e)" using assms(2) by (intro pow2_mono) simp
  also have "\<dots> = 2 ^ 54 * pow2 e" by (subst pow2_add) (simp add: pow2_def)
  finally have "\<bar>q - m\<bar> * 2 ^ 54 < 2 ^ 54 * pow2 e" using close by linarith
  then have "\<bar>x - m\<bar> < pow2 e" using assms(3) by simp
  then have "\<bar>of_int (j - i) * pow2 e\<bar> < 1 * pow2 e" by (simp add: assms(1,4) left_diff_distrib)
  then have "\<bar>of_int (j - i) :: rat\<bar> < 1"
    unfolding abs_mult abs_of_pos [OF pow2_pos] by (rule mult_right_less_imp_less) (simp add: less_imp_le)
  then have "j = i" by simp
  then show ?thesis by (simp add: assms(1,4))
qed

lemma near_ulp:
  assumes "near q m"
  shows "ulp_exp q \<le> ulp_exp m"
proof (rule ccontr)
  note near_pos = near_pos [OF assms] and near_ilog2 = near_ilog2 [OF assms] and near_gap = near_gap [OF assms]
    and rep = nearD(1) [OF assms] and pos = nearD(2) [OF assms]
  assume "\<not> ulp_exp q \<le> ulp_exp m"
  then have k: "ilog2 q = ilog2 m + 1" "ulp_exp m = ilog2 m - 52 \<or> ulp_exp m = - 1074 \<and> - 1074 < ilog2 m - 51"
    using near_ilog2 by (auto simp: ulp_exp_def)
  then have e: "ulp_exp m = ilog2 m - 52" by (auto simp: ulp_exp_def)
  obtain i where i: "m = of_int i * pow2 (ulp_exp m)" using f64_mag_form [OF rep pos] by auto
  let ?x = "pow2 (ilog2 m + 1)"
  have x: "m < ?x" "?x \<le> q" using ilog2_bounds [OF pos] ilog2_bounds [OF near_pos(1)] k(1) by simp_all
  have "?x = of_int (2 ^ 53) * pow2 (ulp_exp m)"
    using pow2_nat [of "ilog2 m - 52" "ilog2 m + 1"] by (simp add: e)
  from near_gap [OF i _ _ this] x show False by (simp add: e)
qed

lemma near_units:
  assumes "near q m"
  shows "m \<le> 2 ^ 53 * pow2 (ulp_exp q)"
proof (rule ccontr)
  note near_pos = near_pos [OF assms] and near_ilog2 = near_ilog2 [OF assms] and near_gap = near_gap [OF assms]
    and rep = nearD(1) [OF assms] and pos = nearD(2) [OF assms]
  assume "\<not> m \<le> 2 ^ 53 * pow2 (ulp_exp q)"
  moreover have t: "pow2 (53 + ulp_exp q) = 2 ^ 53 * pow2 (ulp_exp q)" by (subst pow2_add) (simp add: pow2_def)
  ultimately have big: "pow2 (53 + ulp_exp q) < m" by simp
  let ?x = "pow2 (53 + ulp_exp q)"
  have "q < pow2 (ilog2 q + 1)" using ilog2_bounds(2) [OF near_pos(1)] .
  also have "\<dots> \<le> ?x" by (intro pow2_mono) (simp add: ulp_exp_def)
  finally have x: "q < ?x" .
  have le: "53 + ulp_exp q \<le> ilog2 m" using ilog2_ge big by simp
  obtain i where i: "m = of_int i * pow2 (ulp_exp m)" using f64_mag_form [OF rep pos] by auto
  have "ulp_exp m \<le> 53 + ulp_exp q" using near_ilog2 by (auto simp: ulp_exp_def)
  from multiple_pow2_mono [OF this, of 1] obtain j where "?x = of_int j * pow2 (ulp_exp m)" by auto
  moreover have "ilog2 m - 53 \<le> ulp_exp m" by (simp add: ulp_exp_def)
  ultimately show False using near_gap [OF i, of ?x] x big by auto
qed

lemma round_mag_near:
  assumes "near q m"
  shows "round_mag q = m"
proof -
  note near_pos = near_pos [OF assms] and near_ulp = near_ulp [OF assms] and near_units = near_units [OF assms]
    and rep = nearD(1) [OF assms] and pos = nearD(2) [OF assms] and close = nearD(3) [OF assms]
  let ?u = "pow2 (ulp_exp q)"
  obtain j where "m = of_int j * pow2 (ulp_exp m)" using f64_mag_form [OF rep pos] by auto
  with multiple_pow2_mono [OF near_ulp, of j] obtain i where i: "m = of_int i * ?u" by auto
  have "\<bar>q - m\<bar> * 2 ^ 54 < 2 ^ 53 * ?u" using close near_units by linarith
  then have d: "\<bar>q - m\<bar> < 1 / 2 * ?u" by simp
  have "q - m = (q / ?u - of_int i) * ?u" by (simp add: i left_diff_distrib)
  then have "\<bar>q - m\<bar> = \<bar>q / ?u - of_int i\<bar> * ?u" by (simp only: abs_mult abs_of_pos [OF pow2_pos])
  with d have "\<bar>q / ?u - of_int i\<bar> * ?u < 1 / 2 * ?u" by simp
  then have x: "\<bar>q / ?u - of_int i\<bar> < 1 / 2" by (rule mult_right_less_imp_less) (simp add: less_imp_le)
  have "\<bar>of_int (round_even (q / ?u)) - q / ?u\<bar> \<le> 1 / 2" by (rule round_even_error)
  with x have "\<bar>of_int (round_even (q / ?u)) - of_int i\<bar> < (1 :: rat)" by linarith
  then have "\<bar>of_int (round_even (q / ?u) - i)\<bar> < (1 :: rat)" by simp
  then have "round_even (q / ?u) = i" by simp
  then show ?thesis using near_pos(1) i by (simp add: round_mag_def)
qed

end
