(* ===== verification/Float_Text.thy ===== *)
theory Float_Text
  imports Float_Exact Config_Load
begin

unbundle bit_operations_syntax

text \<open>
  Floating-point numbers as text: \<open>strconv.ParseFloat\<close>, which reads the environment and the state
  file, and the shortest decimal that \<open>encoding/json\<close> writes. A parse error, of syntax or of range,
  is \<open>None\<close>, as is a number that JSON cannot write. What is written is read back exactly.
\<close>

section \<open>Powers of ten\<close>

definition pow10 :: "int \<Rightarrow> rat" where
  "pow10 e = (if 0 \<le> e then 10 ^ nat e else 1 / 10 ^ nat (- e))"

section \<open>strconv.ParseFloat\<close>

text \<open>The lower case of a letter by its bit; other characters may change too.\<close>

definition lower :: "char \<Rightarrow> char" where
  "lower c = char_of (of_char c OR 32 :: nat)"

definition to_lower :: "char \<Rightarrow> char" where
  "to_lower c = (if 65 \<le> (of_char c :: nat) \<and> (of_char c :: nat) \<le> 90 then char_of (of_char c + 32 :: nat) else c)"

definition special :: "string \<Rightarrow> f64 option" where
  "special s =
     (let sign = (s \<noteq> [] \<and> (hd s = CHR ''+'' \<or> hd s = CHR ''-''));
          neg = (s \<noteq> [] \<and> hd s = CHR ''-'');
          t = map to_lower (if sign then tl s else s)
      in if t = ''inf'' \<or> t = ''infinity'' then Some (Inf neg)
         else if t = ''nan'' \<and> \<not> sign then Some NaN
         else None)"

definition hex_letter :: "char \<Rightarrow> bool" where
  "hex_letter c \<longleftrightarrow> 97 \<le> (of_char (lower c) :: nat) \<and> (of_char (lower c) :: nat) \<le> 102"

definition digit_in :: "nat \<Rightarrow> char \<Rightarrow> nat option" where
  "digit_in base c =
     (if is_digit c then Some (digit_value c)
      else if base = 16 \<and> hex_letter c then Some (of_char (lower c) - 87)
      else None)"

text \<open>The digits before and after the point, underscores skipped, and the rest of the text.\<close>

fun mantissa :: "nat \<Rightarrow> bool \<Rightarrow> string \<Rightarrow> nat list \<times> nat list \<times> string" where
  "mantissa base dot [] = ([], [], [])"
| "mantissa base dot (c # s) =
     (if c = CHR ''_'' then mantissa base dot s
      else if c = CHR ''.'' then (if dot then ([], [], c # s) else mantissa base True s)
      else case digit_in base c of
        None \<Rightarrow> ([], [], c # s)
      | Some d \<Rightarrow> (let (i, f, r) = mantissa base dot s in if dot then (i, d # f, r) else (d # i, f, r)))"

definition digits_value :: "nat \<Rightarrow> nat list \<Rightarrow> nat" where
  "digits_value base ds = fold (\<lambda>d n. n * base + d) ds 0"

text \<open>The digits of an exponent, which is not accumulated beyond 10000.\<close>

fun exp_digits :: "nat \<Rightarrow> string \<Rightarrow> nat \<times> string" where
  "exp_digits e [] = (e, [])"
| "exp_digits e (c # s) =
     (if c = CHR ''_'' then exp_digits e s
      else if is_digit c then exp_digits (if e < 10000 then e * 10 + digit_value c else e) s
      else (e, c # s))"

definition read_exponent :: "char \<Rightarrow> string \<Rightarrow> (int option \<times> string) option" where
  "read_exponent ch r =
     (if r \<noteq> [] \<and> lower (hd r) = ch then
        (let t = tl r;
             neg = (t \<noteq> [] \<and> hd t = CHR ''-'');
             t = (if t \<noteq> [] \<and> (hd t = CHR ''+'' \<or> hd t = CHR ''-'') then tl t else t)
         in if t = [] \<or> \<not> is_digit (hd t) then None
            else (let (e, r) = exp_digits 0 t in Some (Some (if neg then - int e else int e), r)))
      else Some (None, r))"

text \<open>Underscores stand between digits, or between the base prefix and a digit.\<close>

datatype saw = SawStart | SawDigit | SawUnderscore | SawOther

fun underscores :: "bool \<Rightarrow> saw \<Rightarrow> string \<Rightarrow> bool" where
  "underscores hex saw [] = (saw \<noteq> SawUnderscore)"
| "underscores hex saw (c # s) =
     (if is_digit c \<or> hex \<and> hex_letter c then underscores hex SawDigit s
      else if c = CHR ''_'' then (if saw \<noteq> SawDigit then False else underscores hex SawUnderscore s)
      else if saw = SawUnderscore then False
      else underscores hex SawOther s)"

definition underscore_ok :: "string \<Rightarrow> bool" where
  "underscore_ok s =
     (let s = (if s \<noteq> [] \<and> (hd s = CHR ''-'' \<or> hd s = CHR ''+'') then tl s else s)
      in if 2 \<le> length s \<and> hd s = CHR ''0'' \<and> lower (s ! 1) \<in> {CHR ''b'', CHR ''o'', CHR ''x''}
         then underscores (lower (s ! 1) = CHR ''x'') SawDigit (drop 2 s)
         else underscores False SawStart s)"

definition parse_number :: "string \<Rightarrow> f64 option" where
  "parse_number text =
     (let neg = (text \<noteq> [] \<and> hd text = CHR ''-'');
          s = (if text \<noteq> [] \<and> (hd text = CHR ''-'' \<or> hd text = CHR ''+'') then tl text else text);
          hex = (2 < length s \<and> hd s = CHR ''0'' \<and> lower (s ! 1) = CHR ''x'');
          base = (if hex then 16 else 10);
          (i, f, r) = mantissa base False (if hex then drop 2 s else s)
      in if i @ f = [] then None
         else case read_exponent (if hex then CHR ''p'' else CHR ''e'') r of
           None \<Rightarrow> None
         | Some (x, r) \<Rightarrow>
             if hex \<and> x = None \<or> r \<noteq> [] then None
             else if CHR ''_'' \<in> set text \<and> \<not> underscore_ok text then None
             else
               (let e = (case x of None \<Rightarrow> 0 | Some e \<Rightarrow> e);
                    m = of_nat (digits_value base (i @ f)) / of_nat base ^ length f
                in case f64_round neg (m * (if hex then pow2 e else pow10 e)) of
                     Inf _ \<Rightarrow> None
                   | v \<Rightarrow> Some v))"

definition parse_float :: "string \<Rightarrow> f64 option" where
  "parse_float s = (case special s of Some v \<Rightarrow> Some v | None \<Rightarrow> parse_number s)"

section \<open>The shortest decimal\<close>

text \<open>The position of the decimal point: \<open>10 ^ (k - 1) \<le> q < 10 ^ k\<close>.\<close>

definition dec_exp :: "rat \<Rightarrow> int" where
  "dec_exp q =
     (let (n, d) = quotient_of q;
          k = int (length (dec_nat (nat n))) - int (length (dec_nat (nat d)))
      in if q < pow10 k then k else k + 1)"

text \<open>
  With \<open>n\<close> digits: the nearest decimal, or else the one on the other side, if the number is
  read back from it. Seventeen digits are always enough.
\<close>

definition shortest_at :: "rat \<Rightarrow> nat \<Rightarrow> int option" where
  "shortest_at m n =
     (let sc = pow10 (dec_exp m - int n);
          x = m / sc;
          c = round_even x;
          d = (if of_int c \<le> x then c + 1 else c - 1)
      in if round_mag (of_int c * sc) = m then Some c
         else if round_mag (of_int d * sc) = m then Some d
         else None)"

definition shortest :: "rat \<Rightarrow> nat \<times> int" where
  "shortest m =
     (let n = (case find (\<lambda>n. shortest_at m n \<noteq> None) [1..<18] of Some n \<Rightarrow> n | None \<Rightarrow> 17);
          c = (case shortest_at m n of Some c \<Rightarrow> nat c | None \<Rightarrow> 0)
      in if c = 10 ^ n then (1, dec_exp m) else (c, dec_exp m - int n))"

definition fixed_text :: "nat \<Rightarrow> int \<Rightarrow> string" where
  "fixed_text c e =
     (let ds = dec_nat c; k = nat (- e)
      in if 0 \<le> e then ds @ replicate (nat e) CHR ''0''
         else if k < length ds then take (length ds - k) ds @ ''.'' @ drop (length ds - k) ds
         else ''0.'' @ replicate (k - length ds) CHR ''0'' @ ds)"

definition exp_text :: "nat \<Rightarrow> int \<Rightarrow> string" where
  "exp_text c e =
     (let ds = dec_nat c; x = int (length ds) - 1 + e
      in hd ds # (if tl ds = [] then [] else ''.'' @ tl ds) @ ''e'' @
         (if x < 0 then ''-'' else ''+'') @ dec_nat (nat \<bar>x\<bar>))"

text \<open>The float encoder of \<open>encoding/json\<close>; NaN and the infinities have no text.\<close>

fun json_float :: "f64 \<Rightarrow> string option" where
  "json_float (Fin s m) = Some ((if s then ''-'' else []) @
     (if m = 0 then ''0''
      else (let (c, e) = shortest m
            in if m < round_mag (1 / 10 ^ 6) \<or> 10 ^ 21 \<le> m then exp_text c e else fixed_text c e)))"
| "json_float _ = None"

section \<open>Lemmas on powers of ten and printed digits\<close>

lemma pow10_powi: "pow10 e = 10 powi e"
  by (auto simp: pow10_def power_int_def field_simps)

lemma pow10_pos [simp]: "0 < pow10 e"
  by (simp add: pow10_def)

lemma pow10_nonzero [simp]: "pow10 e \<noteq> 0"
  using pow10_pos [of e] by linarith

lemma pow10_add: "pow10 (a + b) = pow10 a * pow10 b"
  by (simp add: pow10_powi power_int_add)

lemma pow10_diff: "pow10 (a - b) = pow10 a / pow10 b"
  by (simp add: pow10_powi power_int_diff)

lemma pow10_mono: "a \<le> b \<Longrightarrow> pow10 a \<le> pow10 b"
  by (simp add: pow10_powi power_int_increasing)

lemma pow10_of_nat [simp]: "pow10 (int n) = 10 ^ n"
  by (simp add: pow10_def)

lemma pow10_less: "pow10 a < pow10 b \<Longrightarrow> a < b"
  using pow10_mono [of b a] by linarith

lemma dec_nat_length_pos: "1 \<le> length (dec_nat n)"
  by (cases "dec_nat n") simp_all

lemma dec_nat_length: "n < 10 ^ length (dec_nat n)" "0 < n \<Longrightarrow> 10 ^ (length (dec_nat n) - 1) \<le> n"
proof -
  have "n < 10 ^ length (dec_nat n) \<and> (0 < n \<longrightarrow> 10 ^ (length (dec_nat n) - 1) \<le> n)"
  proof (induction n rule: dec_nat.induct)
    case (1 n)
    show ?case
    proof (cases "n < 10")
      case True
      then show ?thesis by (subst (1 2) dec_nat.simps) simp
    next
      case False
      let ?l = "length (dec_nat (n div 10))"
      have l: "length (dec_nat n) = Suc ?l" using False by (subst dec_nat.simps) simp
      have ih: "n div 10 < 10 ^ ?l" "10 ^ (?l - 1) \<le> n div 10" using 1 False by auto
      have "(10 :: nat) ^ ?l = 10 * 10 ^ (?l - 1)" using dec_nat_length_pos [of "n div 10"] by (cases ?l) simp_all
      with ih have "10 ^ ?l \<le> n" "n < 10 * 10 ^ ?l" by linarith+
      then show ?thesis by (simp add: l)
    qed
  qed
  then show "n < 10 ^ length (dec_nat n)" "0 < n \<Longrightarrow> 10 ^ (length (dec_nat n) - 1) \<le> n" by simp_all
qed

lemma dec_nat_length_le: "n < 10 ^ k \<Longrightarrow> 0 < k \<Longrightarrow> length (dec_nat n) \<le> k"
proof (cases "n = 0")
  case False
  assume "n < 10 ^ k" "0 < k"
  with False have "(10 :: nat) ^ (length (dec_nat n) - 1) < 10 ^ k" using dec_nat_length(2) [of n] by linarith
  then have "length (dec_nat n) - 1 < k" by (rule power_less_imp_less_exp [rotated]) simp
  then show ?thesis by simp
qed (simp add: dec_nat.simps)

lemma dec_exp_bounds:
  assumes "0 < q"
  shows "pow10 (dec_exp q - 1) \<le> q" and "q < pow10 (dec_exp q)"
proof -
  obtain n d where nd: "quotient_of q = (n, d)" by (cases "quotient_of q")
  have q: "q = of_int n / of_int d" and d: "0 < d"
    using quotient_of_div [OF nd] quotient_of_denom_pos [OF nd] by auto
  with assms have n: "0 < n" by (simp add: zero_less_divide_iff)
  let ?a = "length (dec_nat (nat n))" and ?b = "length (dec_nat (nat d))"
  have bounds: "pow10 (int (length (dec_nat (nat i))) - 1) \<le> of_int i \<and> of_int i < pow10 (int (length (dec_nat (nat i))))"
    if "0 < i" for i
  proof -
    have "10 ^ (length (dec_nat (nat i)) - 1) \<le> nat i" "nat i < 10 ^ length (dec_nat (nat i))"
      using dec_nat_length [of "nat i"] that by simp_all
    then have "(of_nat (10 ^ (length (dec_nat (nat i)) - 1)) :: rat) \<le> of_nat (nat i)"
      "(of_nat (nat i) :: rat) < of_nat (10 ^ length (dec_nat (nat i)))"
      by (simp_all only: of_nat_le_iff of_nat_less_iff)
    moreover have "int (length (dec_nat (nat i))) - 1 = int (length (dec_nat (nat i)) - 1)"
      using dec_nat_length_pos [of "nat i"] by simp
    ultimately show ?thesis using that by (simp del: of_nat_diff)
  qed
  have dp: "(0 :: rat) < of_int d" using d by simp
  have k: "dec_exp q = (if q < pow10 (int ?a - int ?b) then int ?a - int ?b else int ?a - int ?b + 1)"
    by (simp add: dec_exp_def nd)
  have "pow10 (int ?a - int ?b - 1) * of_int d \<le> pow10 (int ?a - int ?b - 1) * pow10 (int ?b)"
    using bounds [OF d] by (intro mult_left_mono) (auto intro: less_imp_le)
  also have "\<dots> = pow10 (int ?a - 1)" by (simp only: pow10_add [symmetric]) simp
  also have "\<dots> \<le> of_int n" using bounds [OF n] by simp
  finally have lo: "pow10 (int ?a - int ?b - 1) \<le> q" using dp by (simp add: q pos_le_divide_eq)
  have "of_int n < pow10 (int ?a)" using bounds [OF n] by simp
  also have "\<dots> = pow10 (int ?a - int ?b + 1) * pow10 (int ?b - 1)" by (simp only: pow10_add [symmetric]) simp
  also have "\<dots> \<le> pow10 (int ?a - int ?b + 1) * of_int d"
    using bounds [OF d] by (intro mult_left_mono) (auto intro: less_imp_le)
  finally have hi: "q < pow10 (int ?a - int ?b + 1)" using dp by (simp add: q pos_divide_less_eq)
  show "pow10 (dec_exp q - 1) \<le> q" "q < pow10 (dec_exp q)" using k lo hi by auto
qed

section \<open>Seventeen digits are enough\<close>

lemma shortest_at_17:
  assumes "round_mag m = m" "0 < m"
  shows "shortest_at m 17 \<noteq> None"
proof -
  let ?sc = "pow10 (dec_exp m - 17)"
  let ?c = "of_int (round_even (m / ?sc)) :: rat"
  have "\<bar>?c - m / ?sc\<bar> \<le> 1 / 2" by (rule round_even_error)
  then have "\<bar>?c - m / ?sc\<bar> * ?sc \<le> 1 / 2 * ?sc" by (intro mult_right_mono) (simp_all add: less_imp_le)
  moreover have "?c * ?sc - m = (?c - m / ?sc) * ?sc" by (simp add: left_diff_distrib)
  then have "\<bar>?c * ?sc - m\<bar> = \<bar>?c - m / ?sc\<bar> * ?sc" by (simp only: abs_mult abs_of_pos [OF pow10_pos])
  ultimately have err: "\<bar>?c * ?sc - m\<bar> \<le> 1 / 2 * ?sc" by simp
  have "pow10 (dec_exp m - 1) = 10 ^ 16 * ?sc" using pow10_add [of 16 "dec_exp m - 17"] by (simp add: pow10_def [of 16])
  then have "10 ^ 16 * ?sc \<le> m" using dec_exp_bounds(1) [OF assms(2)] by simp
  with err pow10_pos [of "dec_exp m - 17"] have "near (?c * ?sc) m"
    using assms by (simp add: near_def)
  from round_mag_near [OF this] show ?thesis by (simp add: shortest_at_def Let_def)
qed

lemma shortest_at_value:
  "shortest_at m n = Some c \<Longrightarrow> round_mag (of_int c * pow10 (dec_exp m - int n)) = m"
  by (auto simp: shortest_at_def Let_def split: if_splits)

lemma shortest_at_bounds:
  assumes "shortest_at m n = Some c" "0 < m" "0 < n"
  shows "0 \<le> c" "c \<le> 10 ^ n"
proof -
  let ?sc = "pow10 (dec_exp m - int n)"
  let ?x = "m / ?sc"
  have "pow10 (dec_exp m) = 10 ^ n * ?sc" using pow10_add [of "int n" "dec_exp m - int n"] by simp
  then have hi: "?x < 10 ^ n" using dec_exp_bounds(2) [OF assms(2)] by (simp add: pos_divide_less_eq)
  have "pow10 (dec_exp m - 1) = 10 ^ (n - 1) * ?sc"
    using pow10_add [of "int (n - 1)" "dec_exp m - int n"] assms(3)
    by (simp only: pow10_of_nat) (simp add: of_nat_diff algebra_simps)
  then have "10 ^ (n - 1) \<le> ?x" using dec_exp_bounds(1) [OF assms(2)] by (simp add: pos_le_divide_eq)
  moreover have "(1 :: rat) \<le> 10 ^ (n - 1)" by simp
  ultimately have lo: "1 \<le> ?x" by linarith
  let ?r = "round_even ?x"
  have r: "\<bar>of_int ?r - ?x\<bar> \<le> 1 / 2" by (rule round_even_error)
  have int: "i \<le> 10 ^ n" if "of_int i < (10 ^ n + 1 :: rat)" for i :: int
  proof -
    have "(of_int i :: rat) < of_int (10 ^ n + 1)" using that by simp
    then have "i < 10 ^ n + 1" by (simp only: of_int_less_iff)
    then show ?thesis by simp
  qed
  have "(0 :: rat) < of_int ?r" using r lo by linarith
  then have r1: "1 \<le> ?r" by simp
  have r2: "?r \<le> 10 ^ n" using r hi by (intro int) linarith
  have r3: "?r + 1 \<le> 10 ^ n" if "of_int ?r \<le> ?x"
  proof (rule int)
    show "of_int (?r + 1) < (10 ^ n + 1 :: rat)" unfolding of_int_add using that hi by linarith
  qed
  show "0 \<le> c" "c \<le> 10 ^ n"
    using assms(1) r1 r2 r3 by (auto simp: shortest_at_def Let_def split: if_splits)
qed

text \<open>The decimal found denotes a rational that rounds to the number; its exponent is moderate.\<close>

lemma shortest_value:
  assumes "f64_mag m" "0 < m" "shortest m = (c, e)"
  shows "round_mag (of_nat c * pow10 e) = m" and "0 < c"
    and "c \<le> 10 ^ 17" and "dec_exp m - 17 \<le> e" and "e \<le> dec_exp m"
proof -
  have rep: "round_mag m = m" using assms(1) by (simp add: f64_mag_def)
  let ?f = "find (\<lambda>n. shortest_at m n \<noteq> None) [1..<18]"
  define n where "n = (case ?f of Some n \<Rightarrow> n | None \<Rightarrow> 17)"
  have n: "shortest_at m n \<noteq> None \<and> 0 < n \<and> n \<le> 17"
  proof (cases ?f)
    case None
    then show ?thesis using shortest_at_17 [OF rep assms(2)] by (simp add: n_def)
  next
    case (Some k)
    then have "shortest_at m k \<noteq> None \<and> k \<in> set [1..<18]" by (auto simp: find_Some_iff in_set_conv_nth)
    then show ?thesis using Some by (simp add: n_def)
  qed
  then obtain d where d: "shortest_at m n = Some d" by auto
  note b = shortest_at_bounds [OF d assms(2)]
  have r: "(c, e) = (if nat d = 10 ^ n then (1, dec_exp m) else (nat d, dec_exp m - int n))"
    using assms(3) unfolding shortest_def Let_def n_def [symmetric] d option.case by (rule sym)
  have v: "round_mag (of_nat (nat d) * pow10 (dec_exp m - int n)) = m"
    using shortest_at_value [OF d] b n by simp
  have "(10 ^ n :: rat) * pow10 (dec_exp m - int n) = pow10 (dec_exp m)"
    using pow10_add [of "int n" "dec_exp m - int n"] by simp
  with v r show 1: "round_mag (of_nat c * pow10 e) = m" by (auto split: if_splits)
  show "0 < c" using 1 assms(2) by (cases c) auto
  have "d \<le> 10 ^ 17" using b(2) n power_increasing [of n 17 "10 :: int"] by linarith
  then show "c \<le> 10 ^ 17" using r by (auto split: if_splits simp: nat_le_iff)
  show "dec_exp m - 17 \<le> e" "e \<le> dec_exp m" using r n by (auto split: if_splits)
qed

lemma two_ten: "n \<le> 3 * k \<Longrightarrow> (2 :: rat) ^ n \<le> 10 ^ k"
proof -
  assume "n \<le> 3 * k"
  then have "(2 :: rat) ^ n \<le> 2 ^ (3 * k)" by (rule power_increasing) simp
  also have "\<dots> = 8 ^ k" by (simp add: power_mult)
  also have "\<dots> \<le> (10 :: rat) ^ k" by (rule power_mono) simp_all
  finally show ?thesis .
qed

lemma dec_exp_moderate:
  assumes "f64_mag m" "0 < m"
  shows "- 400 < dec_exp m" "dec_exp m < 400"
proof -
  obtain j where j: "m = of_int j * pow2 (ulp_exp m)" "0 \<le> j"
    using f64_mag_form [of m] assms by (auto simp: f64_mag_def)
  then have "1 \<le> j" using assms(2) by (cases "j = 0") auto
  then have "1 * pow2 (ulp_exp m) \<le> of_int j * pow2 (ulp_exp m)" by (intro mult_right_mono) (simp_all add: less_imp_le)
  then have "pow2 (ulp_exp m) \<le> m" using j(1) by simp
  moreover have "pow2 (- 1074) \<le> pow2 (ulp_exp m)" by (intro pow2_mono ulp_exp_ge)
  moreover have "(2 :: rat) ^ 1074 \<le> 10 ^ 400" by (rule two_ten) simp
  then have "pow10 (- 400) \<le> pow2 (- 1074)"
    unfolding pow10_def pow2_def by (simp del: power_numeral) (intro frac_le; simp del: power_numeral)
  ultimately have "pow10 (- 400) < pow10 (dec_exp m)" using dec_exp_bounds(2) [OF assms(2)] by linarith
  then show "- 400 < dec_exp m" by (rule pow10_less)
  have "pow10 (dec_exp m - 1) \<le> m" by (rule dec_exp_bounds(1) [OF assms(2)])
  also have "m < 2 ^ 1024" using assms(1) by (simp add: f64_mag_def)
  also have "(2 :: rat) ^ 1024 \<le> 10 ^ 399" by (rule two_ten) simp
  also have "\<dots> = pow10 (int 399)" by (rule pow10_of_nat [symmetric])
  finally have "pow10 (dec_exp m - 1) < pow10 399" by simp
  then have "dec_exp m - 1 < 399" by (rule pow10_less)
  then show "dec_exp m < 400" by simp
qed

section \<open>Reading printed digits\<close>

lemma digits_value_append: "digits_value b (xs @ ys) = digits_value b xs * b ^ length ys + digits_value b ys"
proof -
  have step: "fold (\<lambda>d n. n * b + d) ys a = a * b ^ length ys + fold (\<lambda>d n. n * b + d) ys 0" for a
  proof (induction ys arbitrary: a)
    case (Cons y ys)
    have "fold (\<lambda>d n. n * b + d) (y # ys) a = (a * b + y) * b ^ length ys + fold (\<lambda>d n. n * b + d) ys 0"
      by (simp only: fold_simps Cons [of "a * b + y"])
    moreover have "fold (\<lambda>d n. n * b + d) (y # ys) 0 = y * b ^ length ys + fold (\<lambda>d n. n * b + d) ys 0"
      by (simp only: fold_simps Cons [of "0 * b + y"]) simp
    ultimately show ?case by (simp add: algebra_simps)
  qed simp
  show ?thesis unfolding digits_value_def fold_append comp_apply by (rule step)
qed

lemma digits_value_dec_nat [simp]: "digits_value 10 (map digit_value (dec_nat n)) = n"
  using fold_dec_nat [of n] by (simp add: digits_value_def fold_map comp_def)

lemma digits_value_zeros [simp]: "digits_value b (replicate k 0) = 0"
  by (induction k) (simp_all add: digits_value_def)

lemma digits_value_Nil [simp]: "digits_value b [] = 0"
  by (simp add: digits_value_def)

lemma digits_value_zero [simp]: "digits_value b (0 # xs) = digits_value b xs"
  by (simp add: digits_value_def)

lemma zero_digit [simp]: "is_digit CHR ''0''" "digit_value CHR ''0'' = 0"
  by (simp_all add: is_digit_def digit_value_def)

lemma digit_chars:
  assumes "is_digit c"
  shows "c \<noteq> CHR ''_''" "c \<noteq> CHR ''.''" "c \<noteq> CHR ''-''" "c \<noteq> CHR ''+''" "digit_in b c = Some (digit_value c)"
  using assms by (auto simp: is_digit_def digit_in_def)

lemma mantissa_digits:
  "list_all is_digit t \<Longrightarrow> mantissa b dot (t @ r) =
     (let (i, f, u) = mantissa b dot r in if dot then (i, map digit_value t @ f, u) else (map digit_value t @ i, f, u))"
  by (induction t) (auto simp: digit_chars split: prod.split)

lemma mantissa_dot [simp]: "mantissa b False (CHR ''.'' # r) = mantissa b True r"
  by simp

lemma exp_digits_fold:
  "list_all is_digit t \<Longrightarrow> fold (\<lambda>c n. n * 10 + digit_value c) t e < 100000 \<Longrightarrow>
     exp_digits e t = (fold (\<lambda>c n. n * 10 + digit_value c) t e, [])"
proof (induction t arbitrary: e)
  case (Cons c t)
  have mono: "n \<le> fold (\<lambda>c n. n * 10 + digit_value c) t n" for n
  proof (induction t arbitrary: n)
    case (Cons d t)
    show ?case using Cons [of "n * 10 + digit_value d"] by simp
  qed simp
  have "e * 10 + digit_value c < 100000" using Cons.prems(2) mono [of "e * 10 + digit_value c"] by simp
  then show ?case using Cons by (auto simp: digit_chars)
qed simp

lemma exp_digits_dec_nat: "n < 100000 \<Longrightarrow> exp_digits 0 (dec_nat n) = (n, [])"
  using exp_digits_fold [of "dec_nat n" 0] dec_nat_digits [of n] fold_dec_nat [of n] by simp

text \<open>The shape of a decimal text: integer part, fraction and exponent.\<close>

definition frac_text :: "string \<Rightarrow> string" where
  "frac_text fr = (if fr = [] then [] else ''.'' @ fr)"

definition power_text :: "int option \<Rightarrow> string" where
  "power_text x = (case x of None \<Rightarrow> [] | Some x \<Rightarrow>
     ''e'' @ (if x < 0 then ''-'' else ''+'') @ dec_nat (nat \<bar>x\<bar>))"

lemma power_text_read:
  assumes "\<forall>e. x = Some e \<longrightarrow> \<bar>e\<bar> < 100000"
  shows "read_exponent CHR ''e'' (power_text x) = Some (x, [])"
proof (cases x)
  case (Some e)
  have l: "lower CHR ''e'' = CHR ''e''" by code_simp
  have "is_digit (hd (dec_nat (nat \<bar>e\<bar>)))" using dec_nat_head [of "nat \<bar>e\<bar>"] by simp
  moreover have "exp_digits 0 (dec_nat (nat \<bar>e\<bar>)) = (nat \<bar>e\<bar>, [])"
    using assms Some by (intro exp_digits_dec_nat) auto
  ultimately show ?thesis using Some l by (cases "e < 0") (simp_all add: power_text_def read_exponent_def Let_def)
qed (simp add: power_text_def read_exponent_def)

text \<open>The characters of a decimal text, by their codes.\<close>

definition decimal_char :: "char \<Rightarrow> bool" where
  "decimal_char c \<longleftrightarrow> is_digit c \<or> (of_char c :: nat) \<in> {43, 45, 46, 101}"

lemma decimal_char_props:
  assumes "decimal_char c"
  shows "lower c \<noteq> CHR ''x''" "c \<noteq> CHR ''_''" "to_lower c \<noteq> CHR ''i''" "to_lower c \<noteq> CHR ''n''"
proof -
  define n :: nat where "n = of_char c"
  have n: "n = 43 \<or> n = 45 \<or> n = 46 \<or> n = 48 \<or> n = 49 \<or> n = 50 \<or> n = 51 \<or> n = 52 \<or> n = 53 \<or> n = 54 \<or>
      n = 55 \<or> n = 56 \<or> n = 57 \<or> n = 101"
    using assms by (simp add: decimal_char_def is_digit_def n_def [symmetric]) arith
  have "(of_char (lower c) :: nat) = (n OR 32) mod 256" "(of_char (to_lower c) :: nat) = n"
    using n by (auto simp: lower_def to_lower_def n_def [symmetric])
  moreover from n have "(n OR 32) mod 256 \<noteq> 120" by (elim disjE) simp_all
  moreover from n have "n \<noteq> 95" "n \<noteq> 105" "n \<noteq> 110" by (elim disjE; simp)+
  moreover have "(of_char (CHR ''x'') :: nat) = 120" "(of_char (CHR ''_'') :: nat) = 95"
    "(of_char (CHR ''i'') :: nat) = 105" "(of_char (CHR ''n'') :: nat) = 110"
    by simp_all
  ultimately show "lower c \<noteq> CHR ''x''" "c \<noteq> CHR ''_''" "to_lower c \<noteq> CHR ''i''" "to_lower c \<noteq> CHR ''n''"
    unfolding n_def by metis+
qed

lemma decimal_text_chars:
  assumes "list_all is_digit ip" "list_all is_digit fr" "c \<in> set (ip @ frac_text fr @ power_text x)"
  shows "decimal_char c"
proof -
  have p: "decimal_char c" if "c \<in> set (dec_nat n)" for c n
    using dec_nat_digits [of n] that by (auto simp: list_all_iff decimal_char_def)
  have "c \<in> set ip \<or> c \<in> set fr \<or> c \<in> set ''.e+-'' \<or> (\<exists>n. c \<in> set (dec_nat n))"
    using assms(3) by (auto simp: frac_text_def power_text_def split: if_splits option.splits)
  then show ?thesis using assms(1,2) p by (auto simp: list_all_iff decimal_char_def)
qed

lemma mantissa_decimal:
  assumes "list_all is_digit ip" "list_all is_digit fr"
  shows "mantissa 10 False (ip @ frac_text fr @ power_text x) = (map digit_value ip, map digit_value fr, power_text x)"
proof -
  have "digit_in 10 CHR ''e'' = None" by code_simp
  then have "mantissa 10 dot (power_text x) = ([], [], power_text x)" for dot
    by (simp add: power_text_def split: option.split)
  then show ?thesis using assms by (simp add: mantissa_digits frac_text_def)
qed

lemma parse_float_decimal:
  assumes "list_all is_digit ip" "ip \<noteq> []" "list_all is_digit fr" "\<forall>e. x = Some e \<longrightarrow> \<bar>e\<bar> < 100000"
  shows "parse_float ((if neg then ''-'' else []) @ ip @ frac_text fr @ power_text x) =
    (case f64_round neg (of_nat (digits_value 10 (map digit_value (ip @ fr))) / 10 ^ length fr *
       pow10 (case x of None \<Rightarrow> 0 | Some e \<Rightarrow> e)) of Inf _ \<Rightarrow> None | v \<Rightarrow> Some v)"
proof -
  define s where "s = ip @ frac_text fr @ power_text x"
  have chars: "lower c \<noteq> CHR ''x'' \<and> c \<noteq> CHR ''_'' \<and> to_lower c \<noteq> CHR ''i'' \<and> to_lower c \<noteq> CHR ''n''"
    if "c \<in> set s" for c
    using decimal_char_props [OF decimal_text_chars [OF assms(1,3) that [unfolded s_def]]] by blast
  have ne: "s \<noteq> []" using assms(2) by (simp add: s_def)
  then have hd: "hd s \<in> set s" "is_digit (hd s)" using assms(1,2) by (simp_all add: s_def list_all_iff)
  note sign = digit_chars(3,4) [OF hd(2)]
  have "map to_lower s \<noteq> CHR ''i'' # t" "map to_lower s \<noteq> CHR ''n'' # t" for t
    using chars [OF hd(1)] ne by (cases s; auto)+
  then have special: "special ((if neg then ''-'' else []) @ s) = None"
    using sign by (cases neg) (simp_all add: special_def Let_def)
  have hex: "(2 < length s \<and> hd s = CHR ''0'' \<and> lower (s ! Suc 0) = CHR ''x'') = False"
    using chars nth_mem [of 1 s] by fastforce
  have us: "CHR ''_'' \<notin> set ((if neg then ''-'' else []) @ s)" using chars by auto
  have "parse_number ((if neg then ''-'' else []) @ s) =
      (case f64_round neg (of_nat (digits_value 10 (map digit_value (ip @ fr))) / 10 ^ length fr *
       pow10 (case x of None \<Rightarrow> 0 | Some e \<Rightarrow> e)) of Inf _ \<Rightarrow> None | v \<Rightarrow> Some v)"
    using us sign ne assms(2)
    by (cases neg) (simp_all add: hex parse_number_def Let_def mantissa_decimal [OF assms(1,3), of x, folded s_def]
        power_text_read [OF assms(4)])
  then show ?thesis using special by (simp add: parse_float_def s_def)
qed

section \<open>What is written is read back\<close>

lemma digit_parts: "list_all is_digit t \<Longrightarrow> list_all is_digit (take k t)" "list_all is_digit t \<Longrightarrow> list_all is_digit (drop k t)"
  by (auto simp: list_all_iff dest: in_set_takeD in_set_dropD)

lemma fixed_text_read:
  "parse_float ((if neg then ''-'' else []) @ fixed_text c e) =
    (case f64_round neg (of_nat c * pow10 e) of Inf _ \<Rightarrow> None | v \<Rightarrow> Some v)"
proof -
  let ?ds = "dec_nat c"
  have ds: "list_all is_digit ?ds" by (rule dec_nat_digits)
  have zeros: "list_all is_digit (replicate k CHR ''0'')" for k by (simp add: list_all_iff)
  consider "0 \<le> e" | k where "e < 0" "k = nat (- e)" "k < length ?ds" | k where "e < 0" "k = nat (- e)" "length ?ds \<le> k"
    by force
  then show ?thesis
  proof cases
    case 1
    then have "pow10 e = 10 ^ nat e" by (simp add: pow10_def)
    then show ?thesis
      using parse_float_decimal [of "?ds @ replicate (nat e) CHR ''0''" "[]" None neg] ds zeros 1
      by (simp add: fixed_text_def frac_text_def power_text_def digits_value_append Let_def pow10_def [of 0])
  next
    case (2 k)
    then have "\<not> length ?ds \<le> length ?ds - nat (- e)" by simp
    moreover have "pow10 e = 1 / 10 ^ k" using 2 by (simp add: pow10_def)
    ultimately show ?thesis
      using parse_float_decimal [of "take (length ?ds - k) ?ds" "drop (length ?ds - k) ?ds" None neg] ds 2
      by (simp add: fixed_text_def frac_text_def power_text_def Let_def digit_parts
          map_append [symmetric] pow10_def [of 0] del: map_append)
  next
    case (3 k)
    then have "pow10 e = 1 / 10 ^ k" by (simp add: pow10_def)
    then show ?thesis
      using parse_float_decimal [of "''0''" "replicate (k - length ?ds) CHR ''0'' @ ?ds" None neg] ds zeros 3
      by (simp add: fixed_text_def frac_text_def power_text_def Let_def digits_value_append pow10_def [of 0])
  qed
qed

lemma exp_text_read:
  assumes "\<bar>int (length (dec_nat c)) - 1 + e\<bar> < 100000"
  shows "parse_float ((if neg then ''-'' else []) @ exp_text c e) =
    (case f64_round neg (of_nat c * pow10 e) of Inf _ \<Rightarrow> None | v \<Rightarrow> Some v)"
proof -
  obtain d t where ds: "dec_nat c = d # t" by (cases "dec_nat c") simp_all
  have digits: "list_all is_digit (d # t)" using dec_nat_digits [of c] by (simp add: ds)
  have v: "digits_value 10 (map digit_value (d # t)) = c" using digits_value_dec_nat [of c] by (simp only: ds)
  have "pow10 (int (length t) + e) / 10 ^ length t = pow10 e" by (simp add: pow10_add)
  then have "of_nat c / 10 ^ length t * pow10 (int (length t) + e) = of_nat c * pow10 e"
    by (metis times_divide_eq_left times_divide_eq_right)
  then show ?thesis
    using parse_float_decimal [of "[d]" t "Some (int (length t) + e)" neg] digits v assms
    by (simp add: exp_text_def ds Let_def frac_text_def power_text_def del: if_split cong: if_cong)
qed

lemma f64_round_mag: "f64_mag m \<Longrightarrow> round_mag q = m \<Longrightarrow> f64_round s q = Fin s m"
  by (simp add: f64_round_def f64_mag_def)

lemma parse_json_float:
  assumes "json_float x = Some t" and "f64_ok x"
  shows "parse_float t = Some x"
proof (cases x)
  case (Fin s m)
  then have m: "f64_mag m" using assms(2) by simp
  show ?thesis
  proof (cases "m = 0")
    case True
    have "list_all is_digit ''0''" by simp
    with parse_float_decimal [of "''0''" "[]" None s] show ?thesis
      using assms(1) True Fin by (simp add: frac_text_def power_text_def f64_round_mag [of 0 0])
  next
    case False
    then have pos: "0 < m" using m by (simp add: f64_mag_def)
    obtain c e where ce: "shortest m = (c, e)" by (cases "shortest m")
    note v = shortest_value [OF m pos ce]
    have "length (dec_nat c) \<le> 18" using v(3) by (intro dec_nat_length_le) simp_all
    then have "\<bar>int (length (dec_nat c)) - 1 + e\<bar> < 100000"
      using v(4,5) dec_exp_moderate [OF m pos] by linarith
    with f64_round_mag [OF m v(1), of s] show ?thesis
      using assms(1) Fin False ce fixed_text_read [of s c e] exp_text_read [of c e s]
      by (auto simp del: if_split split: if_splits)
  qed
qed (use assms(1) in simp_all)

text \<open>Every finite number has a text.\<close>

lemma json_float_finite: "f64_finite x \<longleftrightarrow> json_float x \<noteq> None"
  by (cases x) simp_all

end
