(* ===== verification/Json_Scan.thy ===== *)
theory Json_Scan
  imports Float_Text
begin

text \<open>
  The scanner of \<open>encoding/json\<close>, as the state machine it is: a state, a stack of what is being
  parsed, and for every byte the next state and what the byte meant. From it the validity of a
  text, and the members of an object: the raw texts of its keys and values.
\<close>

section \<open>The state machine\<close>

datatype scan_state =
    BeginValue | BeginValueOrEmpty | BeginString | BeginStringOrEmpty | EndValue | EndTop
  | InString | InEscape | InEscapeU nat
  | AfterMinus | AfterDigits | AfterZero | AfterDot | AfterFraction | AfterE | AfterESign | AfterExponent
  | InWord string
  | ScanFailed

datatype parse_state = ParseObjectKey | ParseObjectValue | ParseArrayValue

datatype scan_op =
    Continue | BeginLiteral | BeginObject | ObjectKey | ObjectValue | EndObject
  | BeginArray | ArrayValue | EndArray | SkipSpace | TopEnd | OpError

type_synonym scan_result = "scan_state \<times> parse_state list \<times> scan_op"

definition is_space :: "char \<Rightarrow> bool" where
  "is_space c \<longleftrightarrow> c \<in> {CHR '' '', CHR 0x09, CHR 0x0D, CHR 0x0A}"

definition max_nesting_depth :: nat where
  "max_nesting_depth = 10000"

definition fails :: "parse_state list \<Rightarrow> scan_result" where
  "fails stk = (ScanFailed, stk, OpError)"

definition push_state :: "parse_state \<Rightarrow> scan_state \<Rightarrow> scan_op \<Rightarrow> parse_state list \<Rightarrow> scan_result" where
  "push_state p st opc stk =
     (if length (p # stk) \<le> max_nesting_depth then (st, p # stk, opc) else fails (p # stk))"

definition pop_state :: "scan_op \<Rightarrow> parse_state list \<Rightarrow> scan_result" where
  "pop_state opc stk = (if tl stk = [] then EndTop else EndValue, tl stk, opc)"

definition end_top :: "parse_state list \<Rightarrow> char \<Rightarrow> scan_result" where
  "end_top stk c = (if is_space c then (EndTop, stk, TopEnd) else fails stk)"

text \<open>A byte after a completed value.\<close>

fun end_value :: "parse_state list \<Rightarrow> char \<Rightarrow> scan_result" where
  "end_value [] c = end_top [] c"
| "end_value (p # stk) c =
     (if is_space c then (EndValue, p # stk, SkipSpace)
      else case p of
        ParseObjectKey \<Rightarrow>
          if c = CHR '':'' then (BeginValue, ParseObjectValue # stk, ObjectKey) else fails (p # stk)
      | ParseObjectValue \<Rightarrow>
          if c = CHR '','' then (BeginString, ParseObjectKey # stk, ObjectValue)
          else if c = CHR ''}'' then pop_state EndObject (p # stk)
          else fails (p # stk)
      | ParseArrayValue \<Rightarrow>
          if c = CHR '','' then (BeginValue, p # stk, ArrayValue)
          else if c = CHR '']'' then pop_state EndArray (p # stk)
          else fails (p # stk))"

definition dquote_char :: char where
  "dquote_char = CHR 0x22"

definition begin_value :: "parse_state list \<Rightarrow> char \<Rightarrow> scan_result" where
  "begin_value stk c =
     (if is_space c then (BeginValue, stk, SkipSpace)
      else if c = CHR ''{'' then push_state ParseObjectKey BeginStringOrEmpty BeginObject stk
      else if c = CHR ''['' then push_state ParseArrayValue BeginValueOrEmpty BeginArray stk
      else if c = dquote_char then (InString, stk, BeginLiteral)
      else if c = CHR ''-'' then (AfterMinus, stk, BeginLiteral)
      else if c = CHR ''0'' then (AfterZero, stk, BeginLiteral)
      else if c = CHR ''t'' then (InWord ''rue'', stk, BeginLiteral)
      else if c = CHR ''f'' then (InWord ''alse'', stk, BeginLiteral)
      else if c = CHR ''n'' then (InWord ''ull'', stk, BeginLiteral)
      else if is_digit c then (AfterDigits, stk, BeginLiteral)
      else fails stk)"

definition begin_string :: "parse_state list \<Rightarrow> char \<Rightarrow> scan_result" where
  "begin_string stk c =
     (if c = dquote_char then (InString, stk, BeginLiteral) else fails stk)"

definition after_zero :: "parse_state list \<Rightarrow> char \<Rightarrow> scan_result" where
  "after_zero stk c =
     (if c = CHR ''.'' then (AfterDot, stk, Continue)
      else if c = CHR ''e'' \<or> c = CHR ''E'' then (AfterE, stk, Continue)
      else end_value stk c)"

definition exponent_digit :: "parse_state list \<Rightarrow> char \<Rightarrow> scan_result" where
  "exponent_digit stk c = (if is_digit c then (AfterExponent, stk, Continue) else fails stk)"

fun scan_step :: "scan_state \<Rightarrow> parse_state list \<Rightarrow> char \<Rightarrow> scan_result" where
  "scan_step BeginValue stk c = begin_value stk c"
| "scan_step BeginValueOrEmpty stk c =
     (if is_space c then (BeginValueOrEmpty, stk, SkipSpace)
      else if c = CHR '']'' then end_value stk c else begin_value stk c)"
| "scan_step BeginString stk c =
     (if is_space c then (BeginString, stk, SkipSpace) else begin_string stk c)"
| "scan_step BeginStringOrEmpty stk c =
     (if is_space c then (BeginStringOrEmpty, stk, SkipSpace)
      else if c = CHR ''}'' then end_value (ParseObjectValue # tl stk) c
      else begin_string stk c)"
| "scan_step EndValue stk c = end_value stk c"
| "scan_step EndTop stk c = end_top stk c"
| "scan_step InString stk c =
     (if c = dquote_char then (EndValue, stk, Continue)
      else if c = CHR 0x5C then (InEscape, stk, Continue)
      else if (of_char c :: nat) < 32 then fails stk
      else (InString, stk, Continue))"
| "scan_step InEscape stk c =
     (if c \<in> set ''bfnrt/'' \<or> c = CHR 0x5C \<or> c = dquote_char then (InString, stk, Continue)
      else if c = CHR ''u'' then (InEscapeU 4, stk, Continue)
      else fails stk)"
| "scan_step (InEscapeU n) stk c =
     (if is_digit c \<or> c \<in> set ''abcdefABCDEF''
      then (if n \<le> 1 then InString else InEscapeU (n - 1), stk, Continue) else fails stk)"
| "scan_step AfterMinus stk c =
     (if c = CHR ''0'' then (AfterZero, stk, Continue)
      else if is_digit c then (AfterDigits, stk, Continue) else fails stk)"
| "scan_step AfterDigits stk c =
     (if is_digit c then (AfterDigits, stk, Continue) else after_zero stk c)"
| "scan_step AfterZero stk c = after_zero stk c"
| "scan_step AfterDot stk c = (if is_digit c then (AfterFraction, stk, Continue) else fails stk)"
| "scan_step AfterFraction stk c =
     (if is_digit c then (AfterFraction, stk, Continue)
      else if c = CHR ''e'' \<or> c = CHR ''E'' then (AfterE, stk, Continue)
      else end_value stk c)"
| "scan_step AfterE stk c =
     (if c = CHR ''+'' \<or> c = CHR ''-'' then (AfterESign, stk, Continue) else exponent_digit stk c)"
| "scan_step AfterESign stk c = exponent_digit stk c"
| "scan_step AfterExponent stk c =
     (if is_digit c then (AfterExponent, stk, Continue) else end_value stk c)"
| "scan_step (InWord w) stk c =
     (case w of
        [] \<Rightarrow> fails stk
      | x # xs \<Rightarrow> if c = x then (if xs = [] then EndValue else InWord xs, stk, Continue) else fails stk)"
| "scan_step ScanFailed stk c = fails stk"

section \<open>Members of the outermost object\<close>

text \<open>
  The scanner with what it has read: the key and the value being read, as they are written, and
  the members completed.
\<close>

record scanner =
  sc_state :: scan_state
  sc_stack :: "parse_state list"
  sc_key :: string
  sc_val :: string
  sc_members :: "(string \<times> string) list"

definition new_scanner :: scanner where
  "new_scanner = \<lparr>sc_state = BeginValue, sc_stack = [], sc_key = [], sc_val = [], sc_members = []\<rparr>"

definition scan_char :: "char \<Rightarrow> scanner \<Rightarrow> scanner" where
  "scan_char c s =
     (let (st, stk, opc) = scan_step (sc_state s) (sc_stack s) c;
          depth = length (sc_stack s);
          s' = s\<lparr>sc_state := st, sc_stack := stk\<rparr>
      in if depth = 1 \<and> (opc = ObjectValue \<or> opc = EndObject) then
           (if sc_key s = [] then s'
            else s'\<lparr>sc_key := [], sc_val := [], sc_members := sc_members s @ [(sc_key s, sc_val s)]\<rparr>)
         else if depth = 0 \<or> depth = 1 \<and> (opc = SkipSpace \<or> opc = ObjectKey) then s'
         else if depth = 1 \<and> hd (sc_stack s) = ParseObjectKey then s'\<lparr>sc_key := sc_key s @ [c]\<rparr>
         else s'\<lparr>sc_val := sc_val s @ [c]\<rparr>)"

definition scan_text :: "string \<Rightarrow> scanner \<Rightarrow> scanner" where
  "scan_text t s = fold scan_char t s"

text \<open>The end of the input counts as one more space.\<close>

definition json_valid :: "string \<Rightarrow> bool" where
  "json_valid t \<longleftrightarrow> sc_state (scan_char CHR '' '' (scan_text t new_scanner)) = EndTop"

definition json_members :: "string \<Rightarrow> (string \<times> string) list" where
  "json_members t = sc_members (scan_text t new_scanner)"

section \<open>Keys\<close>

definition hex_value :: "char \<Rightarrow> nat" where
  "hex_value c = (if is_digit c then digit_value c else of_char (lower c) - 87)"

fun hex4 :: "string \<Rightarrow> nat option" where
  "hex4 (x # u # a # b # c # d # r) =
     (if x = CHR 0x5C \<and> u = CHR ''u'' \<and> list_all (\<lambda>h. is_digit h \<or> hex_letter h) [a, b, c, d]
      then Some (((hex_value a * 16 + hex_value b) * 16 + hex_value c) * 16 + hex_value d) else None)"
| "hex4 _ = None"

definition utf8_encode :: "nat \<Rightarrow> string" where
  "utf8_encode n =
     (if n < 0x80 then [char_of n]
      else if n < 0x800 then [char_of (0xC0 + n div 64), char_of (0x80 + n mod 64)]
      else if n < 0x10000 then
        [char_of (0xE0 + n div 4096), char_of (0x80 + n div 64 mod 64), char_of (0x80 + n mod 64)]
      else [char_of (0xF0 + n div 262144), char_of (0x80 + n div 4096 mod 64),
            char_of (0x80 + n div 64 mod 64), char_of (0x80 + n mod 64)])"

definition escaped :: "char \<Rightarrow> string" where
  "escaped c =
     (if c = CHR ''b'' then [CHR 0x08] else if c = CHR ''f'' then [CHR 0x0C]
      else if c = CHR ''n'' then [CHR 0x0A] else if c = CHR ''r'' then [CHR 0x0D]
      else if c = CHR ''t'' then [CHR 0x09] else [c])"

text \<open>
  The inside of a quoted text that the scanner accepted. A lone surrogate becomes the replacement
  character; bytes beyond ASCII are kept as they are, since no name looked for has any.
\<close>

fun unescape_text :: "string \<Rightarrow> string" where
  "unescape_text [] = []"
| "unescape_text [c] = [c]"
| "unescape_text (c # d # r) =
     (if c \<noteq> CHR 0x5C then c # unescape_text (d # r)
      else if d \<noteq> CHR ''u'' then escaped d @ unescape_text r
      else case hex4 (c # d # r) of
        None \<Rightarrow> []
      | Some n \<Rightarrow>
          if 0xD800 \<le> n \<and> n < 0xE000 then
            (case hex4 (drop 4 r) of
               Some m \<Rightarrow>
                 if n < 0xDC00 \<and> 0xDC00 \<le> m \<and> m < 0xE000
                 then utf8_encode ((n - 0xD800) * 1024 + (m - 0xDC00) + 0x10000) @ unescape_text (drop 10 r)
                 else utf8_encode 0xFFFD @ unescape_text (drop 4 r)
             | None \<Rightarrow> utf8_encode 0xFFFD @ unescape_text (drop 4 r))
          else utf8_encode n @ unescape_text (drop 4 r))"

definition unquote :: "string \<Rightarrow> string" where
  "unquote s = unescape_text (butlast (tl s))"

text \<open>
  Keys are compared ignoring case; beside the letters of ASCII, the long s and the Kelvin sign
  fold to one.
\<close>

fun fold_name :: "string \<Rightarrow> string" where
  "fold_name [] = []"
| "fold_name (c # s) =
     (if c = CHR 0xC5 \<and> s \<noteq> [] \<and> hd s = CHR 0xBF then CHR ''S'' # fold_name (tl s)
      else if c = CHR 0xE2 \<and> 2 \<le> length s \<and> hd s = CHR 0x84 \<and> s ! 1 = CHR 0xAA
      then CHR ''K'' # fold_name (drop 2 s)
      else (if 97 \<le> (of_char c :: nat) \<and> (of_char c :: nat) \<le> 122 then char_of (of_char c - 32 :: nat) else c) #
        fold_name s)"

section \<open>Writing an object\<close>

text \<open>\<open>MarshalIndent\<close> of a structure with no prefix and two spaces: one member a line.\<close>

definition quote :: "string \<Rightarrow> string" where
  "quote t = dquote_char # t @ [dquote_char]"

definition member_text :: "string \<times> string \<Rightarrow> string" where
  "member_text m = ''  '' @ quote (fst m) @ '': '' @ snd m"

fun members_text :: "(string \<times> string) list \<Rightarrow> string" where
  "members_text [] = []"
| "members_text [m] = member_text m"
| "members_text (m # ms) = member_text m @ '','' @ [CHR 0x0A] @ members_text ms"

definition object_text :: "(string \<times> string) list \<Rightarrow> string" where
  "object_text ms = ''{'' @ [CHR 0x0A] @ members_text ms @ [CHR 0x0A] @ ''}''"

section \<open>Scanning what was written\<close>

lemma scan_text_append [simp]: "scan_text (a @ b) s = scan_text b (scan_text a s)"
  by (simp add: scan_text_def)

lemma scan_text_Nil [simp]: "scan_text [] s = s"
  by (simp add: scan_text_def)

lemma scan_text_Cons [simp]: "scan_text (c # t) s = scan_text t (scan_char c s)"
  by (simp add: scan_text_def)

definition plain :: "char \<Rightarrow> bool" where
  "plain c \<longleftrightarrow> 32 \<le> (of_char c :: nat) \<and> c \<noteq> dquote_char \<and> c \<noteq> CHR 0x5C"

lemma scan_string_value:
  "list_all plain t \<Longrightarrow> sc_state s = InString \<Longrightarrow> sc_stack s = [ParseObjectValue] \<Longrightarrow>
   scan_text t s = s\<lparr>sc_val := sc_val s @ t\<rparr>"
  by (induction t arbitrary: s) (auto simp: scan_char_def plain_def)

lemma scan_string_key:
  "list_all plain t \<Longrightarrow> sc_state s = InString \<Longrightarrow> sc_stack s = [ParseObjectKey] \<Longrightarrow>
   scan_text t s = s\<lparr>sc_key := sc_key s @ t\<rparr>"
  by (induction t arbitrary: s) (auto simp: scan_char_def plain_def)

lemma scan_digits:
  "list_all is_digit t \<Longrightarrow> sc_state s \<in> {AfterDigits, AfterFraction, AfterExponent} \<Longrightarrow>
   sc_stack s = [ParseObjectValue] \<Longrightarrow> scan_text t s = s\<lparr>sc_val := sc_val s @ t\<rparr>"
  by (induction t arbitrary: s) (auto simp: scan_char_def)

text \<open>
  A value that the scanner takes whole as the value of a member, and that a comma or a new line
  ends.
\<close>

definition takes :: "string \<Rightarrow> scan_state \<Rightarrow> bool" where
  "takes v st \<longleftrightarrow>
     (\<forall>s. sc_state s = BeginValue \<longrightarrow> sc_stack s = [ParseObjectValue] \<longrightarrow>
        scan_text v s = s\<lparr>sc_state := st, sc_val := sc_val s @ v\<rparr>)"

definition closes :: "scan_state \<Rightarrow> bool" where
  "closes st \<longleftrightarrow> st \<in> {EndValue, AfterZero, AfterDigits, AfterFraction, AfterExponent}"

lemma closes_step:
  assumes "closes st"
  shows "scan_step st stk CHR '','' = end_value stk CHR '',''" "scan_step st stk CHR 0x0A = end_value stk CHR 0x0A"
proof -
  have "\<not> is_digit CHR '',''" "\<not> is_digit CHR 0x0A" by (simp_all add: is_digit_def)
  then show "scan_step st stk CHR '','' = end_value stk CHR '',''" "scan_step st stk CHR 0x0A = end_value stk CHR 0x0A"
    using assms by (auto simp: closes_def after_zero_def)
qed

lemma scan_char_simps:
  "is_space CHR '' ''" "is_space CHR 0x0A" "\<not> is_space dquote_char" "\<not> is_space CHR '':''"
  "\<not> is_space CHR '',''" "\<not> is_space CHR ''}''" "\<not> is_space CHR ''{''" "dquote_char \<noteq> CHR ''}''"
  by (simp_all add: is_space_def dquote_char_def)

text \<open>One member, from the start of a line to the end of its value.\<close>

lemma scan_member:
  assumes "list_all plain k" and "takes v st"
    and "sc_state s = BeginString \<or> sc_state s = BeginStringOrEmpty" and "sc_stack s = [ParseObjectKey]"
    and "sc_key s = []" and "sc_val s = []"
  shows "scan_text (member_text (k, v)) s =
    s\<lparr>sc_state := st, sc_stack := [ParseObjectValue], sc_key := quote k, sc_val := v\<rparr>"
proof -
  let ?s1 = "s\<lparr>sc_state := InString, sc_key := [dquote_char]\<rparr>"
  let ?s2 = "s\<lparr>sc_state := EndValue, sc_key := quote k\<rparr>"
  let ?s3 = "s\<lparr>sc_state := BeginValue, sc_stack := [ParseObjectValue], sc_key := quote k\<rparr>"
  have 1: "scan_text (''  '' @ [dquote_char]) s = ?s1"
    using assms(3-6) by (auto simp: scan_char_def scan_char_simps begin_string_def)
  have 2: "scan_text (k @ [dquote_char]) ?s1 = ?s2"
    using assms(1,4) by (simp add: scan_string_key scan_char_def scan_char_simps quote_def)
  have 3: "scan_text '': '' ?s2 = ?s3"
    using assms(4) by (simp add: scan_char_def scan_char_simps begin_value_def)
  have 4: "scan_text v ?s3 = ?s3\<lparr>sc_state := st, sc_val := v\<rparr>"
    using assms(2,6) by (simp add: takes_def)
  have "scan_text (member_text (k, v)) s = scan_text v (scan_text '': '' (scan_text (k @ [dquote_char])
      (scan_text (''  '' @ [dquote_char]) s)))"
    by (simp add: member_text_def quote_def)
  then show ?thesis by (simp only: 1 2 3 4) simp
qed

text \<open>A written object is valid, and its members are those written.\<close>

definition readable :: "string \<times> string \<Rightarrow> bool" where
  "readable m \<longleftrightarrow> list_all plain (fst m) \<and> (\<exists>st. takes (snd m) st \<and> closes st)"

lemma scan_comma:
  assumes "closes st" and "sc_state s = st" and "sc_stack s = [ParseObjectValue]" and "sc_key s \<noteq> []"
  shows "scan_text ('','' @ [CHR 0x0A]) s = s\<lparr>sc_state := BeginString, sc_stack := [ParseObjectKey],
    sc_key := [], sc_val := [], sc_members := sc_members s @ [(sc_key s, sc_val s)]\<rparr>"
  using assms by (simp add: scan_char_def closes_step scan_char_simps)

lemma scan_members:
  assumes "list_all readable ms" and "ms \<noteq> []"
    and "sc_state s = BeginString \<or> sc_state s = BeginStringOrEmpty" and "sc_stack s = [ParseObjectKey]"
    and "sc_key s = []" and "sc_val s = []"
  shows "\<exists>st. closes st \<and> scan_text (members_text ms) s =
    s\<lparr>sc_state := st, sc_stack := [ParseObjectValue], sc_key := quote (fst (last ms)), sc_val := snd (last ms),
      sc_members := sc_members s @ map (\<lambda>m. (quote (fst m), snd m)) (butlast ms)\<rparr>"
  using assms
proof (induction ms arbitrary: s rule: members_text.induct)
  case (2 m)
  then obtain st where "takes (snd m) st" "closes st" "list_all plain (fst m)" by (auto simp: readable_def)
  with scan_member [of "fst m" "snd m" st s] 2 show ?case by (intro exI [of _ st]) simp
next
  case (3 m m' ms)
  obtain st where st: "takes (snd m) st" "closes st" "list_all plain (fst m)"
    using 3(2) by (auto simp: readable_def)
  let ?s1 = "s\<lparr>sc_state := st, sc_stack := [ParseObjectValue], sc_key := quote (fst m), sc_val := snd m\<rparr>"
  let ?s2 = "s\<lparr>sc_state := BeginString, sc_members := sc_members s @ [(quote (fst m), snd m)]\<rparr>"
  have "scan_text (member_text m) s = ?s1" using scan_member [of "fst m" "snd m" st s] st 3(4-) by simp
  moreover have "scan_text ('','' @ [CHR 0x0A]) ?s1 = ?s2"
    using scan_comma [OF st(2), of ?s1] 3(5-) by (simp add: quote_def)
  ultimately have "scan_text (members_text (m # m' # ms)) s = scan_text (members_text (m' # ms)) ?s2"
    by (simp only: members_text.simps scan_text_append)
  then show ?case using 3(1) [of ?s2] 3(2,5-) by simp
qed simp

lemma scan_object:
  assumes "list_all readable ms" and "ms \<noteq> []"
  shows "scan_text (object_text ms) new_scanner = new_scanner\<lparr>sc_state := EndTop,
    sc_members := map (\<lambda>m. (quote (fst m), snd m)) ms\<rparr>"
proof -
  let ?s1 = "new_scanner\<lparr>sc_state := BeginStringOrEmpty, sc_stack := [ParseObjectKey]\<rparr>"
  have 1: "scan_text (''{'' @ [CHR 0x0A]) new_scanner = ?s1"
    by (simp add: new_scanner_def scan_char_def scan_char_simps begin_value_def push_state_def max_nesting_depth_def)
  obtain st where st: "closes st" "scan_text (members_text ms) ?s1 =
    ?s1\<lparr>sc_state := st, sc_stack := [ParseObjectValue], sc_key := quote (fst (last ms)), sc_val := snd (last ms),
      sc_members := map (\<lambda>m. (quote (fst m), snd m)) (butlast ms)\<rparr>"
    using scan_members [OF assms, of ?s1] by (auto simp: new_scanner_def)
  have "scan_text ([CHR 0x0A] @ ''}'') (scan_text (members_text ms) ?s1) = new_scanner\<lparr>sc_state := EndTop,
      sc_members := map (\<lambda>m. (quote (fst m), snd m)) (butlast ms @ [last ms])\<rparr>"
    unfolding st(2) by (simp add: scan_char_def closes_step(2) [OF st(1)] scan_char_simps new_scanner_def quote_def pop_state_def)
  moreover have "scan_text (object_text ms) new_scanner =
      scan_text ([CHR 0x0A] @ ''}'') (scan_text (members_text ms) (scan_text (''{'' @ [CHR 0x0A]) new_scanner))"
    by (simp only: object_text_def scan_text_append)
  ultimately show ?thesis by (simp only: 1 append_butlast_last_id [OF assms(2)])
qed

lemma object_text_read:
  assumes "list_all readable ms" and "ms \<noteq> []"
  shows "json_valid (object_text ms)" and "json_members (object_text ms) = map (\<lambda>m. (quote (fst m), snd m)) ms"
  by (simp_all add: json_valid_def json_members_def scan_object [OF assms])
    (simp add: scan_char_def new_scanner_def end_top_def scan_char_simps)

section \<open>Numbers and strings as values\<close>

lemma takesI:
  assumes "\<And>s. sc_state s = BeginValue \<Longrightarrow> sc_stack s = [ParseObjectValue] \<Longrightarrow>
    scan_text v s = s\<lparr>sc_state := st, sc_val := sc_val s @ v\<rparr>"
  shows "takes v st"
  using assms by (simp add: takes_def)

lemma takes_string:
  assumes "list_all plain t"
  shows "takes (quote t) EndValue"
proof (rule takesI)
  fix s :: scanner
  assume s: "sc_state s = BeginValue" "sc_stack s = [ParseObjectValue]"
  let ?s = "s\<lparr>sc_state := InString, sc_val := sc_val s @ [dquote_char]\<rparr>"
  have "scan_char dquote_char s = ?s"
    using s by (simp add: scan_char_def begin_value_def scan_char_simps) (simp add: dquote_char_def)
  moreover have "scan_text t ?s = ?s\<lparr>sc_val := sc_val s @ [dquote_char] @ t\<rparr>"
    using scan_string_value [OF assms, of ?s] s by simp
  ultimately show "scan_text (quote t) s = s\<lparr>sc_state := EndValue, sc_val := sc_val s @ quote t\<rparr>"
    using s by (simp add: quote_def scan_char_def)
qed

text \<open>
  A decimal text: an optional minus, an integer part without leading zeros, then perhaps a
  fraction and an exponent. The state after each part is that of a complete number.
\<close>

definition int_part :: "string \<Rightarrow> bool" where
  "int_part ip \<longleftrightarrow> ip = ''0'' \<or> ip \<noteq> [] \<and> list_all is_digit ip \<and> hd ip \<noteq> CHR ''0''"

lemma minus_char: "\<not> is_space CHR ''-''" "dquote_char \<noteq> CHR ''-''" "CHR ''-'' \<noteq> dquote_char" "\<not> is_digit CHR ''-''"
  by (simp_all add: is_space_def dquote_char_def is_digit_def)

lemma digit_not_special:
  assumes "is_digit c"
  shows "\<not> is_space c" "c \<noteq> CHR ''{''" "c \<noteq> CHR ''[''" "c \<noteq> dquote_char" "c \<noteq> CHR ''-''" "c \<noteq> CHR ''t''"
    "c \<noteq> CHR ''f''" "c \<noteq> CHR ''n''"
  using assms by (auto simp: is_digit_def is_space_def dquote_char_def)

lemma scan_first_digit:
  assumes "is_digit c" "sc_state s = BeginValue \<or> sc_state s = AfterMinus" "sc_stack s = [ParseObjectValue]"
  shows "scan_char c s = s\<lparr>sc_state := if c = CHR ''0'' then AfterZero else AfterDigits, sc_val := sc_val s @ [c]\<rparr>"
  using assms by (auto simp: scan_char_def begin_value_def digit_not_special)

lemma scan_int_part:
  assumes "int_part ip" "sc_state s = BeginValue \<or> sc_state s = AfterMinus" "sc_stack s = [ParseObjectValue]"
  shows "scan_text ip s = s\<lparr>sc_state := if ip = ''0'' then AfterZero else AfterDigits, sc_val := sc_val s @ ip\<rparr>"
proof (cases "ip = ''0''")
  case True
  then show ?thesis using assms scan_first_digit [of "CHR ''0''" s] by simp
next
  case False
  then obtain c t where ip: "ip = c # t" "is_digit c" "c \<noteq> CHR ''0''" "list_all is_digit t"
    using assms(1) by (cases ip) (auto simp: int_part_def)
  then show ?thesis using assms scan_first_digit [of c s] by (simp add: scan_digits)
qed

definition whole :: "scan_state \<Rightarrow> bool" where
  "whole st \<longleftrightarrow> st \<in> {AfterZero, AfterDigits, AfterFraction, AfterExponent}"

lemma scan_frac_text:
  assumes "list_all is_digit fr" "sc_state s = AfterZero \<or> sc_state s = AfterDigits" "sc_stack s = [ParseObjectValue]"
  shows "scan_text (frac_text fr) s =
    s\<lparr>sc_state := if fr = [] then sc_state s else AfterFraction, sc_val := sc_val s @ frac_text fr\<rparr>"
proof (cases fr)
  case (Cons c t)
  have dot: "\<not> is_digit CHR ''.''" by (simp add: is_digit_def)
  then have "scan_char CHR ''.'' s = s\<lparr>sc_state := AfterDot, sc_val := sc_val s @ ''.''\<rparr>"
    using assms(2,3) by (auto simp: scan_char_def after_zero_def)
  moreover have "scan_char c (s\<lparr>sc_state := AfterDot, sc_val := sc_val s @ ''.''\<rparr>) =
      s\<lparr>sc_state := AfterFraction, sc_val := sc_val s @ ''.'' @ [c]\<rparr>"
    using assms(1,3) Cons by (simp add: scan_char_def)
  ultimately show ?thesis using assms(1,3) Cons by (simp add: frac_text_def scan_digits)
qed (simp add: frac_text_def)

lemma scan_power_text:
  assumes "whole (sc_state s)" "sc_state s \<noteq> AfterExponent" "sc_stack s = [ParseObjectValue]"
  shows "scan_text (power_text x) s =
    s\<lparr>sc_state := if x = None then sc_state s else AfterExponent, sc_val := sc_val s @ power_text x\<rparr>"
proof (cases x)
  case (Some e)
  have e: "\<not> is_digit CHR ''e''" by (simp add: is_digit_def)
  obtain c t where ds: "dec_nat (nat \<bar>e\<bar>) = c # t" by (cases "dec_nat (nat \<bar>e\<bar>)") simp_all
  have d: "is_digit c" "list_all is_digit t" using dec_nat_digits [of "nat \<bar>e\<bar>"] by (simp_all add: ds)
  let ?sg = "if e < 0 then CHR ''-'' else CHR ''+''"
  have "scan_char CHR ''e'' s = s\<lparr>sc_state := AfterE, sc_val := sc_val s @ ''e''\<rparr>"
    using assms e by (auto simp: scan_char_def after_zero_def whole_def)
  moreover have "scan_char ?sg (s\<lparr>sc_state := AfterE, sc_val := sc_val s @ ''e''\<rparr>) =
      s\<lparr>sc_state := AfterESign, sc_val := sc_val s @ ''e'' @ [?sg]\<rparr>"
    using assms(3) by (simp add: scan_char_def)
  moreover have "scan_char c (s\<lparr>sc_state := AfterESign, sc_val := sc_val s @ ''e'' @ [?sg]\<rparr>) =
      s\<lparr>sc_state := AfterExponent, sc_val := sc_val s @ ''e'' @ [?sg, c]\<rparr>"
    using assms(3) d(1) by (simp add: scan_char_def exponent_digit_def)
  moreover have "power_text x = [CHR ''e'', ?sg, c] @ t" by (simp add: Some power_text_def ds)
  ultimately show ?thesis using assms(3) d(2) Some by (simp only: scan_text_append scan_text_Cons scan_text_Nil)
    (simp add: scan_digits)
qed (simp add: power_text_def)

lemma takes_number:
  assumes "int_part ip" "list_all is_digit fr"
  shows "\<exists>st. takes ((if neg then ''-'' else []) @ ip @ frac_text fr @ power_text x) st \<and> closes st"
proof (intro exI conjI takesI)
  let ?st = "if x \<noteq> None then AfterExponent else if fr \<noteq> [] then AfterFraction
    else if ip = ''0'' then AfterZero else AfterDigits"
  show "closes ?st" by (simp add: closes_def)
  fix s :: scanner
  assume s: "sc_state s = BeginValue" "sc_stack s = [ParseObjectValue]"
  let ?m = "if neg then ''-'' else []"
  define s1 where "s1 = scan_text ?m s"
  have s1: "sc_state s1 = BeginValue \<or> sc_state s1 = AfterMinus" "sc_stack s1 = [ParseObjectValue]"
    "s1 = s\<lparr>sc_state := sc_state s1, sc_val := sc_val s @ ?m\<rparr>"
    using s by (auto simp: s1_def scan_char_def begin_value_def minus_char)
  have v: "sc_val s1 = sc_val s @ ?m" by (subst s1(3)) simp
  have upd: "s1\<lparr>sc_state := a, sc_val := b\<rparr> = s\<lparr>sc_state := a, sc_val := b\<rparr>" for a b by (subst s1(3)) simp
  let ?s2 = "s1\<lparr>sc_state := if ip = ''0'' then AfterZero else AfterDigits, sc_val := sc_val s1 @ ip\<rparr>"
  have "scan_text (frac_text fr) ?s2 = ?s2\<lparr>sc_state := if fr = [] then sc_state ?s2 else AfterFraction,
      sc_val := sc_val ?s2 @ frac_text fr\<rparr>"
    using s1(2) by (intro scan_frac_text [OF assms(2)]) simp_all
  then have "scan_text (ip @ frac_text fr @ power_text x) s1 = scan_text (power_text x)
      (s1\<lparr>sc_state := if fr = [] then if ip = ''0'' then AfterZero else AfterDigits else AfterFraction,
        sc_val := sc_val s1 @ ip @ frac_text fr\<rparr>)"
    using scan_int_part [OF assms(1) s1(1,2)] by simp
  also have "\<dots> = s1\<lparr>sc_state := ?st, sc_val := sc_val s1 @ ip @ frac_text fr @ power_text x\<rparr>"
    using s1(2) by (subst scan_power_text) (auto simp: whole_def)
  finally show "scan_text (?m @ ip @ frac_text fr @ power_text x) s =
      s\<lparr>sc_state := ?st, sc_val := sc_val s @ ?m @ ip @ frac_text fr @ power_text x\<rparr>"
    using v by (simp only: scan_text_append s1_def [symmetric] upd append_assoc)
qed

text \<open>The text of a number is one that the scanner takes.\<close>

lemma dec_nat_no_leading_zero: "0 < n \<Longrightarrow> hd (dec_nat n) \<noteq> CHR ''0''"
proof (induction n rule: dec_nat.induct)
  case (1 n)
  show ?case
  proof (cases "n < 10")
    case True
    have "digit_value (digit_char n) = n" using True by simp
    then have "digit_char n \<noteq> CHR ''0''" using 1(2) by auto
    then show ?thesis using True by (subst dec_nat.simps) simp
  next
    case False
    then show ?thesis using 1 by (subst dec_nat.simps) simp
  qed
qed

lemma int_part_dec_nat:
  assumes "0 < c"
  shows "int_part (dec_nat c @ replicate k CHR ''0'')" "0 < n \<Longrightarrow> int_part (take n (dec_nat c))"
    "int_part [hd (dec_nat c)]"
proof -
  have ds: "list_all is_digit (dec_nat c)" "hd (dec_nat c) \<noteq> CHR ''0''"
    using dec_nat_digits dec_nat_no_leading_zero [OF assms] by simp_all
  obtain d t where dt: "dec_nat c = d # t" by (cases "dec_nat c") simp_all
  show "int_part (dec_nat c @ replicate k CHR ''0'')"
    using ds by (auto simp: int_part_def list_all_iff ball_Un)
  show "int_part [hd (dec_nat c)]" using ds by (simp add: int_part_def dt)
  show "0 < n \<Longrightarrow> int_part (take n (dec_nat c))"
    using ds by (cases n) (auto simp: int_part_def dt digit_parts)
qed

lemma fixed_text_shape:
  assumes "0 < c"
  shows "\<exists>ip fr. fixed_text c e = ip @ frac_text fr \<and> int_part ip \<and> list_all is_digit fr"
proof -
  let ?ds = "dec_nat c" and ?k = "nat (- e)"
  have ds: "list_all is_digit ?ds" by (rule dec_nat_digits)
  consider "0 \<le> e" | "e < 0" "?k < length ?ds" | "e < 0" "length ?ds \<le> ?k" by linarith
  then show ?thesis
  proof cases
    case 1
    then show ?thesis using int_part_dec_nat(1) [OF assms]
      by (intro exI [of _ "?ds @ replicate (nat e) CHR ''0''"] exI [of _ "[]"]) (simp add: fixed_text_def frac_text_def)
  next
    case 2
    then have "int_part (take (length ?ds - ?k) ?ds)" by (intro int_part_dec_nat(2) [OF assms]) simp
    then show ?thesis using 2 ds
      by (intro exI [of _ "take (length ?ds - ?k) ?ds"] exI [of _ "drop (length ?ds - ?k) ?ds"])
        (auto simp: fixed_text_def frac_text_def digit_parts Let_def)
  next
    case 3
    then show ?thesis using ds
      by (intro exI [of _ "''0''"] exI [of _ "replicate (?k - length ?ds) CHR ''0'' @ ?ds"])
        (auto simp: fixed_text_def frac_text_def int_part_def list_all_iff Let_def)
  qed
qed

lemma exp_text_shape:
  assumes "0 < c"
  shows "\<exists>ip fr x. exp_text c e = ip @ frac_text fr @ power_text x \<and> int_part ip \<and> list_all is_digit fr"
proof -
  have "list_all is_digit (tl (dec_nat c))" using dec_nat_digits [of c] by (cases "dec_nat c") simp_all
  then show ?thesis using int_part_dec_nat(3) [OF assms]
    by (intro exI [of _ "[hd (dec_nat c)]"] exI [of _ "tl (dec_nat c)"] exI [of _ "Some (int (length (dec_nat c)) - 1 + e)"])
      (simp add: exp_text_def frac_text_def power_text_def Let_def)
qed

lemma json_float_shape:
  assumes "json_float v = Some t" "f64_ok v"
  shows "\<exists>neg ip fr x. t = (if neg then ''-'' else []) @ ip @ frac_text fr @ power_text x \<and>
    int_part ip \<and> list_all is_digit fr"
proof (cases v)
  case (Fin s m)
  have none: "power_text None = []" "frac_text [] = []" by (simp_all add: power_text_def frac_text_def)
  show ?thesis
  proof (cases "m = 0")
    case True
    have "int_part ''0''" "list_all is_digit []" by (simp_all add: int_part_def)
    moreover have "t = (if s then ''-'' else []) @ ''0'' @ frac_text [] @ power_text None"
      using True Fin assms(1) by (simp add: none)
    ultimately show ?thesis by blast
  next
    case False
    then have m: "f64_mag m" "0 < m" using Fin assms(2) by (auto simp: f64_mag_def)
    obtain c e where ce: "shortest m = (c, e)" by (cases "shortest m")
    note c = shortest_value(2) [OF m ce]
    have "t = (if s then ''-'' else []) @ fixed_text c e \<or> t = (if s then ''-'' else []) @ exp_text c e"
      using False Fin assms(1) ce by (auto split: if_splits)
    then show ?thesis
    proof
      assume t: "t = (if s then ''-'' else []) @ fixed_text c e"
      obtain ip fr where "fixed_text c e = ip @ frac_text fr" "int_part ip" "list_all is_digit fr"
        using fixed_text_shape [OF c] by blast
      then show ?thesis using t none(1) by (metis append_Nil2)
    next
      assume "t = (if s then ''-'' else []) @ exp_text c e"
      then show ?thesis using exp_text_shape [OF c, of e] by metis
    qed
  qed
qed (use assms(1) in simp_all)

section \<open>A text cut short\<close>

text \<open>Without a closing bracket an object is not left.\<close>

lemma scan_stays_inside:
  assumes "sc_stack s \<noteq> []" and "sc_state s \<noteq> EndTop" and "c \<noteq> CHR ''}''" and "c \<noteq> CHR '']''"
  shows "sc_stack (scan_char c s) \<noteq> [] \<and> sc_state (scan_char c s) \<noteq> EndTop"
proof -
  obtain p stk where stk: "sc_stack s = p # stk" using assms(1) by (cases "sc_stack s") auto
  have step: "sc_stack (scan_char c s) = fst (snd (scan_step (sc_state s) (sc_stack s) c))"
    "sc_state (scan_char c s) = fst (scan_step (sc_state s) (sc_stack s) c)"
    by (auto simp: scan_char_def Let_def split: prod.split)
  have e: "fst (snd (end_value (p # stk) c)) \<noteq> [] \<and> fst (end_value (p # stk) c) \<noteq> EndTop"
    using assms(3,4) by (auto simp: fails_def split: parse_state.split)
  have b: "fst (snd (begin_value (p # stk) c)) \<noteq> [] \<and> fst (begin_value (p # stk) c) \<noteq> EndTop"
    by (auto simp: begin_value_def push_state_def fails_def)
  show ?thesis unfolding step stk using assms(2-4) e b
    by (cases "(sc_state s, p # stk, c)" rule: scan_step.cases)
      (auto simp: fails_def begin_string_def after_zero_def exponent_digit_def split: list.split)
qed

lemma scan_text_stays_inside:
  assumes "sc_stack s \<noteq> []" and "sc_state s \<noteq> EndTop" and "CHR ''}'' \<notin> set t" and "CHR '']'' \<notin> set t"
  shows "sc_stack (scan_text t s) \<noteq> [] \<and> sc_state (scan_text t s) \<noteq> EndTop"
  using assms
proof (induction t arbitrary: s)
  case (Cons c t)
  then show ?case using scan_stays_inside [of s c] by auto
qed simp

lemma cut_object_invalid:
  assumes "CHR ''}'' \<notin> set t" and "CHR '']'' \<notin> set t"
  shows "\<not> json_valid (take n (CHR ''{'' # t))"
proof (cases n)
  case 0
  then show ?thesis by (simp add: json_valid_def scan_char_def new_scanner_def begin_value_def scan_char_simps)
next
  case (Suc k)
  let ?s = "scan_char CHR ''{'' new_scanner"
  have s: "sc_stack ?s \<noteq> []" "sc_state ?s \<noteq> EndTop"
    by (simp_all add: new_scanner_def scan_char_def scan_char_simps begin_value_def push_state_def max_nesting_depth_def)
  have "CHR ''}'' \<notin> set (take k t)" "CHR '']'' \<notin> set (take k t)" using assms by (auto dest: in_set_takeD)
  from scan_text_stays_inside [OF s this] have "sc_state (scan_char CHR '' '' (scan_text (take k t) ?s)) \<noteq> EndTop"
    by (intro scan_stays_inside [THEN conjunct2]) simp_all
  then show ?thesis by (simp add: json_valid_def Suc)
qed

end

