(* ===== verification/Time_Text.thy ===== *)
theory Time_Text
  imports Float_Text Device "HOL-Library.Monad_Syntax"
begin

text \<open>
  Times as text, as \<open>time.Time\<close> writes and reads them in JSON: RFC 3339 with nanoseconds, written
  strictly and read with the liberties of \<open>time.Parse\<close>.
\<close>

section \<open>Writing\<close>

text \<open>A number padded with zeros to a width.\<close>

definition pad :: "nat \<Rightarrow> nat \<Rightarrow> string" where
  "pad w n = replicate (w - length (dec_nat n)) CHR ''0'' @ dec_nat n"

definition drop_zeros :: "string \<Rightarrow> string" where
  "drop_zeros s = rev (dropWhile (\<lambda>c. c = CHR ''0'') (rev s))"

definition nano_text :: "nat \<Rightarrow> string" where
  "nano_text n = (if n = 0 then [] else ''.'' @ drop_zeros (pad 9 n))"

definition zone_minutes :: "int \<Rightarrow> int" where
  "zone_minutes offset = (if offset < 0 then - ((- offset) div 60) else offset div 60)"

definition zone_text :: "int \<Rightarrow> string" where
  "zone_text offset =
     (if offset = 0 then ''Z''
      else (let z = zone_minutes offset; m = nat \<bar>z\<bar>
            in (if z < 0 then ''-'' else ''+'') @ pad 2 (m div 60) @ '':'' @ pad 2 (m mod 60)))"

definition rfc3339 :: "time_stamp \<Rightarrow> string" where
  "rfc3339 t =
     (let d = t_date t
      in pad 4 (c_year d) @ ''-'' @ pad 2 (c_month d) @ ''-'' @ pad 2 (c_day d) @ ''T'' @
         pad 2 (c_hour d) @ '':'' @ pad 2 (c_minute d) @ '':'' @ pad 2 (c_second d) @
         nano_text (t_nano t) @ zone_text (t_offset t))"

text \<open>\<open>MarshalJSON\<close> without its quotes: years of four digits and zones below a day only.\<close>

definition marshal_time :: "time_stamp \<Rightarrow> string option" where
  "marshal_time t =
     (if 9999 < c_year (t_date t) then None
      else if t_offset t \<noteq> 0 \<and> 24 \<le> \<bar>zone_minutes (t_offset t)\<bar> div 60 then None
      else Some (rfc3339 t))"

section \<open>Reading\<close>

definition text_nat :: "string \<Rightarrow> nat" where
  "text_nat s = digits_value 10 (map digit_value s)"

definition guard :: "bool \<Rightarrow> unit option" where
  "guard b = (if b then Some () else None)"

fun expect :: "char \<Rightarrow> string \<Rightarrow> string option" where
  "expect c [] = None"
| "expect c (x # s) = (if x = c then Some s else None)"

text \<open>Two digits, or one where the layout does not fix the width.\<close>

fun get_num :: "bool \<Rightarrow> string \<Rightarrow> (nat \<times> string) option" where
  "get_num fixed [] = None"
| "get_num fixed [c] = (if is_digit c \<and> \<not> fixed then Some (digit_value c, []) else None)"
| "get_num fixed (c # d # s) =
     (if \<not> is_digit c then None
      else if is_digit d then Some (digit_value c * 10 + digit_value d, s)
      else if fixed then None
      else Some (digit_value c, d # s))"

definition get_year :: "string \<Rightarrow> (nat \<times> string) option" where
  "get_year s = (if 4 \<le> length s \<and> list_all is_digit (take 4 s) then Some (text_nat (take 4 s), drop 4 s) else None)"

definition get_nano :: "string \<Rightarrow> nat \<times> string" where
  "get_nano s =
     (if 2 \<le> length s \<and> (hd s = CHR ''.'' \<or> hd s = CHR '','') \<and> is_digit (s ! 1)
      then (let ds = take 9 (takeWhile is_digit (tl s))
            in (text_nat ds * 10 ^ (9 - length ds), dropWhile is_digit (tl s)))
      else (0, s))"

definition get_zone :: "string \<Rightarrow> (int \<times> string) option" where
  "get_zone s =
     (if s \<noteq> [] \<and> hd s = CHR ''Z'' then Some (0, tl s)
      else if length s < 6 \<or> s ! 3 \<noteq> CHR '':'' then None
      else do {
        (hr, _) \<leftarrow> get_num True [s ! 1, s ! 2];
        (mm, _) \<leftarrow> get_num True [s ! 4, s ! 5];
        guard (hr \<le> 24 \<and> mm \<le> 60 \<and> (hd s = CHR ''+'' \<or> hd s = CHR ''-''));
        let offset = int ((hr * 60 + mm) * 60);
        Some (if hd s = CHR ''-'' then - offset else offset, drop 6 s)
      })"

definition leap_year :: "nat \<Rightarrow> bool" where
  "leap_year y \<longleftrightarrow> y mod 4 = 0 \<and> (y mod 100 \<noteq> 0 \<or> y mod 400 = 0)"

definition days_in :: "nat \<Rightarrow> nat \<Rightarrow> nat" where
  "days_in m y =
     (if m = 2 then (if leap_year y then 29 else 28)
      else if m = 4 \<or> m = 6 \<or> m = 9 \<or> m = 11 then 30
      else 31)"

definition parse_time :: "string \<Rightarrow> time_stamp option" where
  "parse_time s = do {
     (year, s) \<leftarrow> get_year s;
     s \<leftarrow> expect CHR ''-'' s;
     (month, s) \<leftarrow> get_num True s;
     guard (1 \<le> month \<and> month \<le> 12);
     s \<leftarrow> expect CHR ''-'' s;
     (day, s) \<leftarrow> get_num True s;
     s \<leftarrow> expect CHR ''T'' s;
     (hour, s) \<leftarrow> get_num False s;
     guard (hour < 24);
     s \<leftarrow> expect CHR '':'' s;
     (minute, s) \<leftarrow> get_num True s;
     guard (minute < 60);
     s \<leftarrow> expect CHR '':'' s;
     (sec, s) \<leftarrow> get_num True s;
     guard (sec < 60);
     let (nano, s) = get_nano s;
     (offset, s) \<leftarrow> get_zone s;
     guard (s = [] \<and> 1 \<le> day \<and> day \<le> days_in month year);
     Some \<lparr>t_date = \<lparr>c_year = year, c_month = month, c_day = day, c_hour = hour, c_minute = minute,
         c_second = sec\<rparr>, t_nano = nano, t_offset = offset\<rparr>
   }"

section \<open>What is written is read back\<close>

definition stamp_ok :: "time_stamp \<Rightarrow> bool" where
  "stamp_ok t \<longleftrightarrow>
     (let d = t_date t
      in c_year d \<le> 9999 \<and> 1 \<le> c_month d \<and> c_month d \<le> 12 \<and> 1 \<le> c_day d \<and>
         c_day d \<le> days_in (c_month d) (c_year d) \<and> c_hour d < 24 \<and> c_minute d < 60 \<and> c_second d < 60) \<and>
     t_nano t < 1000000000 \<and> t_offset t mod 60 = 0 \<and> \<bar>t_offset t\<bar> < 86400"

lemma text_nat_pad [simp]: "text_nat (pad w n) = n"
  by (simp add: text_nat_def pad_def digits_value_append)

lemma pad_digits: "list_all is_digit (pad w n)"
  using dec_nat_digits [of n] by (auto simp: pad_def list_all_iff ball_Un)

lemma pad_length: "n < 10 ^ w \<Longrightarrow> 0 < w \<Longrightarrow> length (pad w n) = w"
  using dec_nat_length_le [of n w] by (simp add: pad_def)

lemma pad_2:
  assumes "n < 100"
  shows "\<exists>c d. pad 2 n = [c, d] \<and> is_digit c \<and> is_digit d \<and> digit_value c * 10 + digit_value d = n"
proof -
  have "length (pad 2 n) = 2" using assms by (intro pad_length) simp_all
  then obtain c d where cd: "pad 2 n = [c, d]" by (auto simp: numeral_2_eq_2 length_Suc_conv)
  moreover have "text_nat [c, d] = n" by (metis cd text_nat_pad)
  ultimately show ?thesis using pad_digits [of 2 n] by (simp add: text_nat_def digits_value_def)
qed

lemma get_num_pad:
  assumes "n < 100"
  shows "get_num fixed (pad 2 n @ s) = Some (n, s)"
  using pad_2 [OF assms] by auto

lemma get_year_pad:
  assumes "n \<le> 9999"
  shows "get_year (pad 4 n @ s) = Some (n, s)"
proof -
  have "length (pad 4 n) = 4" using assms by (intro pad_length) simp_all
  then show ?thesis using pad_digits [of 4 n] by (simp add: get_year_def)
qed

lemma drop_zeros_append: "\<exists>k. s = drop_zeros s @ replicate k CHR ''0''"
proof -
  let ?z = "takeWhile (\<lambda>c. c = CHR ''0'') (rev s)"
  have "?z = replicate (length ?z) CHR ''0''" by (intro replicate_eqI) (auto dest: set_takeWhileD)
  then obtain k where z: "?z = replicate k CHR ''0''" by blast
  have "rev s = ?z @ dropWhile (\<lambda>c. c = CHR ''0'') (rev s)" by simp
  then have "rev (rev s) = rev (dropWhile (\<lambda>c. c = CHR ''0'') (rev s)) @ rev ?z" by (metis rev_append)
  then show ?thesis by (auto simp: z drop_zeros_def)
qed

lemma zone_text_head: "\<exists>c t. zone_text z = c # t \<and> \<not> is_digit c \<and> c \<noteq> CHR ''.'' \<and> c \<noteq> CHR '',''"
  by (auto simp: zone_text_def Let_def is_digit_def)

lemma get_nano_text:
  assumes "n < 1000000000"
  shows "get_nano (nano_text n @ zone_text z) = (n, zone_text z)"
proof -
  obtain c t where z: "zone_text z = c # t" "\<not> is_digit c" "c \<noteq> CHR ''.''" "c \<noteq> CHR '',''"
    using zone_text_head by blast
  show ?thesis
  proof (cases "n = 0")
    case True
    then show ?thesis using z by (simp add: nano_text_def get_nano_def)
  next
    case False
    define q where "q = drop_zeros (pad 9 n)"
    obtain k where k: "pad 9 n = q @ replicate k CHR ''0''" unfolding q_def using drop_zeros_append by blast
    have len: "length (pad 9 n) = 9" using assms by (intro pad_length) simp_all
    then have k9: "length q + k = 9" by (metis k length_append length_replicate)
    have q: "list_all is_digit q" using pad_digits [of 9 n] by (metis k list_all_append)
    have "n = text_nat (q @ replicate k CHR ''0'')" by (metis k text_nat_pad)
    then have val: "text_nat q * 10 ^ k = n" by (simp add: text_nat_def digits_value_append)
    then have "q \<noteq> []" using False by (auto simp: text_nat_def)
    then obtain x xs where x: "q = x # xs" by (cases q) auto
    have tw: "takeWhile is_digit (q @ zone_text z) = q" "dropWhile is_digit (q @ zone_text z) = zone_text z"
      using q z by (simp_all add: list_all_iff)
    have k: "9 - length q = k" "take 9 q = q" using k9 by simp_all
    have "is_digit ((q @ zone_text z) ! 0)" "1 \<le> length (q @ zone_text z)" using q by (simp_all add: x)
    moreover have "(''.'' @ q @ zone_text z) ! Suc 0 = (q @ zone_text z) ! 0" by simp
    ultimately show ?thesis using False tw k val
      by (simp add: nano_text_def q_def [symmetric] get_nano_def del: append_Cons)
  qed
qed

lemma get_zone_text:
  assumes "z mod 60 = 0" "\<bar>z\<bar> < 86400"
  shows "get_zone (zone_text z) = Some (z, [])"
proof (cases "z = 0")
  case False
  define m where "m = nat \<bar>zone_minutes z\<bar>"
  obtain k where k: "z = 60 * k" using assms(1) by (metis mod_0_imp_dvd dvdE)
  then have zm: "zone_minutes z = k" by (auto simp: zone_minutes_def)
  have m: "m < 1440" "int m = \<bar>k\<bar>" unfolding m_def zm using assms(2) k by auto
  have "m div 60 < 100" "m mod 60 < 100" "m div 60 \<le> 24" using m(1) by (simp_all add: less_mult_imp_div_less)
  moreover obtain a b where ab: "pad 2 (m div 60) = [a, b]" "is_digit a" "is_digit b" "digit_value a * 10 + digit_value b = m div 60"
    using pad_2 [of "m div 60"] calculation by auto
  moreover obtain c d where cd: "pad 2 (m mod 60) = [c, d]" "is_digit c" "is_digit d" "digit_value c * 10 + digit_value d = m mod 60"
    using pad_2 [of "m mod 60"] calculation by auto
  moreover have "3600 * int (m div 60) + int (m mod 60) * 60 = 60 * int m"
  proof -
    have "int (m div 60 * 60 + m mod 60) = int m" by (simp del: of_nat_add)
    then show ?thesis by (simp only: of_nat_add of_nat_mult of_nat_numeral)
  qed
  moreover have "zone_text z = (if k < 0 then ''-'' else ''+'') @ [a, b] @ '':'' @ [c, d]"
    using False ab(1) cd(1) by (simp add: zone_text_def Let_def zm m_def)
  moreover have "int m = \<bar>k\<bar>" by (rule m(2))
  ultimately show ?thesis using k False by (auto simp: get_zone_def guard_def Let_def)
qed (simp add: zone_text_def get_zone_def)

lemma parse_time_rfc3339:
  assumes "stamp_ok t"
  shows "parse_time (rfc3339 t) = Some t"
proof -
  let ?d = "t_date t"
  note ok = assms [unfolded stamp_ok_def Let_def]
  have "c_day ?d \<le> 31" using ok by (auto simp: days_in_def split: if_splits)
  then have lt: "c_month ?d < 100" "c_day ?d < 100" "c_hour ?d < 100" "c_minute ?d < 100" "c_second ?d < 100"
    using ok by auto
  show ?thesis
    using ok by (simp add: parse_time_def rfc3339_def Let_def get_year_pad get_num_pad [OF lt(1)] get_num_pad [OF lt(2)]
        get_num_pad [OF lt(3)] get_num_pad [OF lt(4)] get_num_pad [OF lt(5)] get_nano_text get_zone_text guard_def)
qed

lemma marshal_time_ok: "stamp_ok t \<Longrightarrow> marshal_time t = Some (rfc3339 t)"
  by (auto simp: stamp_ok_def marshal_time_def zone_minutes_def Let_def)

end
