(* ===== verification/Device_File.thy ===== *)
theory Device_File
  imports Json_Scan Time_Text Device_Laws
begin

text \<open>
  The simulator's state file: \<open>saveState\<close>, \<open>loadState\<close> and the JSON they exchange. The file system
  is a parameter in two places: what a path holds when it is read, and what a write has achieved
  when it returns or the process dies in it.
\<close>

section \<open>Marshalling\<close>

definition state_members :: "dev_state \<Rightarrow> (string \<times> string) list option" where
  "state_members s = do {
     lat \<leftarrow> json_float (d_latitude s);
     lon \<leftarrow> json_float (d_longitude s);
     heading \<leftarrow> json_float (d_heading s);
     spd \<leftarrow> json_float (d_speed s);
     battery \<leftarrow> json_float (d_battery s);
     saved \<leftarrow> marshal_time (d_saved_at s);
     Some [(''latitude'', lat), (''longitude'', lon), (''heading'', heading), (''speed'', spd),
       (''battery'', battery), (''altitude'', dec_nat (unat (d_altitude s))), (''saved_at'', quote saved)]
   }"

definition marshal_state :: "dev_state \<Rightarrow> string option" where
  "marshal_state s = map_option object_text (state_members s)"

section \<open>Unmarshalling\<close>

definition zero_stamp :: time_stamp where
  "zero_stamp = \<lparr>t_date = \<lparr>c_year = 1, c_month = 1, c_day = 1, c_hour = 0, c_minute = 0, c_second = 0\<rparr>,
     t_nano = 0, t_offset = 0\<rparr>"

definition zero_state :: dev_state where
  "zero_state = \<lparr>d_latitude = Fin False 0, d_longitude = Fin False 0, d_heading = Fin False 0,
     d_speed = Fin False 0, d_battery = Fin False 0, d_altitude = 0, d_saved_at = zero_stamp\<rparr>"

text \<open>
  One value into a field of each type: a null leaves it alone, a value of another type is an
  error.
\<close>

definition set_float :: "(f64 \<Rightarrow> dev_state \<Rightarrow> dev_state) \<Rightarrow> string \<Rightarrow> dev_state \<Rightarrow> dev_state option" where
  "set_float upd v s =
     (if hd v = CHR ''n'' then Some s
      else if hd v = CHR ''-'' \<or> is_digit (hd v) then map_option (\<lambda>x. upd x s) (parse_float v)
      else None)"

definition set_altitude :: "string \<Rightarrow> dev_state \<Rightarrow> dev_state option" where
  "set_altitude v s =
     (if hd v = CHR ''n'' then Some s
      else case parse_nat v of
        Some n \<Rightarrow> if n < 65536 then Some (s\<lparr>d_altitude := of_nat n\<rparr>) else None
      | None \<Rightarrow> None)"

definition set_saved_at :: "string \<Rightarrow> dev_state \<Rightarrow> dev_state option" where
  "set_saved_at v s =
     (if v = ''null'' then Some s
      else if length v < 2 \<or> hd v \<noteq> dquote_char \<or> last v \<noteq> dquote_char then None
      else map_option (\<lambda>t. s\<lparr>d_saved_at := t\<rparr>) (parse_time (butlast (tl v))))"

definition set_field :: "string \<times> string \<Rightarrow> dev_state \<Rightarrow> dev_state option" where
  "set_field m s =
     (let name = fold_name (unquote (fst m)); v = snd m
      in if name = ''LATITUDE'' then set_float (\<lambda>x s. s\<lparr>d_latitude := x\<rparr>) v s
         else if name = ''LONGITUDE'' then set_float (\<lambda>x s. s\<lparr>d_longitude := x\<rparr>) v s
         else if name = ''HEADING'' then set_float (\<lambda>x s. s\<lparr>d_heading := x\<rparr>) v s
         else if name = ''SPEED'' then set_float (\<lambda>x s. s\<lparr>d_speed := x\<rparr>) v s
         else if name = ''BATTERY'' then set_float (\<lambda>x s. s\<lparr>d_battery := x\<rparr>) v s
         else if name = ''ALTITUDE'' then set_altitude v s
         else if name = ''SAVED_AT'' then set_saved_at v s
         else Some s)"

fun set_fields :: "(string \<times> string) list \<Rightarrow> dev_state \<Rightarrow> dev_state option" where
  "set_fields [] s = Some s"
| "set_fields (m # ms) s = do { s \<leftarrow> set_field m s; set_fields ms s }"

text \<open>
  The text is checked as a whole first. A null leaves the structure as it is, which is no error;
  anything but an object is one otherwise.
\<close>

definition unmarshal_state :: "string \<Rightarrow> dev_state option" where
  "unmarshal_state data =
     (if \<not> json_valid data then None
      else (let c = hd (dropWhile is_space data)
            in if c = CHR ''{'' then set_fields (json_members data) zero_state
               else if c = CHR ''n'' then Some zero_state
               else None))"

section \<open>The file\<close>

text \<open>
  What \<open>os.WriteFile\<close> has done: all, nothing (the file could not be opened), or the file was
  emptied and only so many bytes have reached it.
\<close>

datatype write_outcome = Written | NotWritten | CutAfter nat

record disk =
  made_dirs :: "string list"
  files :: "string \<Rightarrow> string option"

fun write_file :: "write_outcome \<Rightarrow> string \<Rightarrow> string \<Rightarrow> disk \<Rightarrow> disk" where
  "write_file Written path data d = d\<lparr>files := (files d)(path := Some data)\<rparr>"
| "write_file NotWritten path data d = d"
| "write_file (CutAfter n) path data d = d\<lparr>files := (files d)(path := Some (take n data))\<rparr>"

text \<open>An error of marshalling is ignored: what is written then is empty.\<close>

definition save_state :: "write_outcome \<Rightarrow> time_stamp \<Rightarrow> dev_state \<Rightarrow> string \<Rightarrow> disk \<Rightarrow> disk" where
  "save_state out now s path d =
     (let s = s\<lparr>d_saved_at := now\<rparr>;
          data = (case marshal_state s of Some t \<Rightarrow> t | None \<Rightarrow> []);
          d = d\<lparr>made_dirs := made_dirs d @ [state_dir path]\<rparr>
      in write_file out path data d)"

definition load_state :: "string \<Rightarrow> dev_config \<Rightarrow> time_stamp \<Rightarrow> disk \<Rightarrow> dev_state" where
  "load_state path cfg now d =
     (case files d path of
        None \<Rightarrow> default_state cfg now
      | Some data \<Rightarrow>
          (case unmarshal_state data of
             None \<Rightarrow> default_state cfg now
           | Some s \<Rightarrow> s))"

section \<open>Lemmas\<close>

definition writable :: "dev_state \<Rightarrow> bool" where
  "writable s \<longleftrightarrow> list_all (\<lambda>x. f64_finite x \<and> f64_ok x)
     [d_latitude s, d_longitude s, d_heading s, d_speed s, d_battery s]"

lemma field_names:
  "fold_name (unquote (quote ''latitude'')) = ''LATITUDE''"
  "fold_name (unquote (quote ''longitude'')) = ''LONGITUDE''"
  "fold_name (unquote (quote ''heading'')) = ''HEADING''"
  "fold_name (unquote (quote ''speed'')) = ''SPEED''"
  "fold_name (unquote (quote ''battery'')) = ''BATTERY''"
  "fold_name (unquote (quote ''altitude'')) = ''ALTITUDE''"
  "fold_name (unquote (quote ''saved_at'')) = ''SAVED_AT''"
  by code_simp+

lemma plain_names:
  "list_all plain ''latitude''" "list_all plain ''longitude''" "list_all plain ''heading''"
  "list_all plain ''speed''" "list_all plain ''battery''" "list_all plain ''altitude''" "list_all plain ''saved_at''"
  by code_simp+

lemma plain_digit: "is_digit c \<Longrightarrow> plain c"
  by (auto simp: is_digit_def plain_def dquote_char_def)

lemma plain_rfc3339: "list_all plain (rfc3339 t)"
proof -
  have p: "list_all plain (pad w n)" for w n using pad_digits [of w n] by (auto simp: list_all_iff plain_digit)
  have "list_all plain (drop_zeros u)" if "list_all plain u" for u
    using that set_dropWhileD [of _ _ "rev u"] by (fastforce simp: list_all_iff drop_zeros_def)
  then have n: "list_all plain (nano_text n)" for n
    using p by (simp add: nano_text_def) (simp add: plain_def dquote_char_def)
  have z: "list_all plain (zone_text z)" for z
    using p by (simp add: zone_text_def Let_def) (simp add: plain_def dquote_char_def)
  have "plain CHR ''-''" "plain CHR '':''" "plain CHR ''T''" by (simp_all add: plain_def dquote_char_def)
  then show ?thesis using p n z by (simp add: rfc3339_def Let_def)
qed

lemma float_text_readable:
  assumes "json_float x = Some t" "f64_ok x" "list_all plain k"
  shows "readable (k, t)" and "hd t = CHR ''-'' \<or> is_digit (hd t)"
proof -
  obtain neg ip fr e where t: "t = (if neg then ''-'' else []) @ ip @ frac_text fr @ power_text e"
    "int_part ip" "list_all is_digit fr"
    using json_float_shape [OF assms(1,2)] by blast
  show "readable (k, t)" using takes_number [OF t(2,3)] assms(3) t(1) by (simp add: readable_def)
  have "ip \<noteq> []" "is_digit (hd ip)" using t(2) by (cases ip; auto simp: int_part_def)+
  then show "hd t = CHR ''-'' \<or> is_digit (hd t)" by (simp add: t(1))
qed

lemma altitude_readable: "list_all plain k \<Longrightarrow> readable (k, dec_nat n)"
proof -
  have "dec_nat 0 = ''0''" by code_simp
  then have "int_part (dec_nat n)"
    using int_part_dec_nat(1) [of n 0] by (cases "n = 0") (simp_all add: int_part_def)
  moreover have "dec_nat n = (if False then ''-'' else []) @ dec_nat n @ frac_text [] @ power_text None"
    by (simp add: frac_text_def power_text_def)
  ultimately show "list_all plain k \<Longrightarrow> readable (k, dec_nat n)"
    using takes_number [of "dec_nat n" "[]" False None] by (simp add: readable_def)
qed

lemma saved_at_readable: "list_all plain k \<Longrightarrow> readable (k, quote (rfc3339 t))"
  using takes_string [OF plain_rfc3339, of t] by (auto simp: readable_def closes_def)

lemma set_float_text:
  assumes "json_float x = Some t" "f64_ok x"
  shows "set_float upd t s = Some (upd x s)"
proof -
  have "hd t = CHR ''-'' \<or> is_digit (hd t)" by (rule float_text_readable(2) [OF assms plain_names(1)])
  then show ?thesis using parse_json_float [OF assms] by (auto simp: set_float_def is_digit_def)
qed

text \<open>No closing bracket stands in a value.\<close>

definition unbracketed :: "string \<Rightarrow> bool" where
  "unbracketed t \<longleftrightarrow> CHR ''}'' \<notin> set t \<and> CHR '']'' \<notin> set t"

lemma unbracketed_append [simp]: "unbracketed (a @ b) \<longleftrightarrow> unbracketed a \<and> unbracketed b"
  by (auto simp: unbracketed_def)

lemma list_all_Nil_True: "list_all P [] = True"
  by simp

lemma unbracketed_digits: "list_all is_digit t \<Longrightarrow> unbracketed t"
  by (auto simp: unbracketed_def list_all_iff is_digit_def)

lemma unbracketed_dec_nat: "unbracketed (dec_nat n)"
  by (rule unbracketed_digits [OF dec_nat_digits])

lemma unbracketed_number:
  assumes "json_float x = Some t" "f64_ok x"
  shows "unbracketed t"
proof -
  obtain neg ip fr e where t: "t = (if neg then ''-'' else []) @ ip @ frac_text fr @ power_text e"
    "int_part ip" "list_all is_digit fr"
    using json_float_shape [OF assms] by blast
  have "list_all is_digit ip" using t(2) by (auto simp: int_part_def)
  then have "decimal_char c" if "c \<in> set (ip @ frac_text fr @ power_text e)" for c
    using decimal_text_chars [OF _ t(3) that] by simp
  moreover have "\<not> decimal_char CHR ''}''" "\<not> decimal_char CHR '']''" by (simp_all add: decimal_char_def is_digit_def)
  ultimately have "unbracketed (ip @ frac_text fr @ power_text e)" unfolding unbracketed_def by metis
  then show ?thesis by (simp add: t(1)) (simp add: unbracketed_def)
qed

lemma unbracketed_rfc3339: "unbracketed (quote (rfc3339 t))"
proof -
  have p: "unbracketed (pad w n)" for w n by (rule unbracketed_digits [OF pad_digits])
  have "unbracketed (drop_zeros u)" if "unbracketed u" for u
    using that set_dropWhileD [of _ _ "rev u"] by (fastforce simp: unbracketed_def drop_zeros_def)
  then have "unbracketed (nano_text n)" for n
    using p by (simp add: nano_text_def) (simp add: unbracketed_def)
  moreover have "unbracketed (zone_text z)" for z
    using p by (simp add: zone_text_def Let_def) (simp add: unbracketed_def)
  moreover have "unbracketed ''-''" "unbracketed '':''" "unbracketed ''T''" "unbracketed [dquote_char]"
    by (simp_all add: unbracketed_def dquote_char_def)
  ultimately have "unbracketed ([dquote_char] @ rfc3339 t @ [dquote_char])"
    using p unfolding rfc3339_def Let_def unbracketed_append by blast
  then show ?thesis by (simp add: quote_def)
qed

text \<open>What is marshalled: the members in order, all readable, and their values.\<close>

lemma state_members_written:
  assumes "writable s" and "stamp_ok (d_saved_at s)"
  obtains ms where "state_members s = Some ms" "ms \<noteq> []" "list_all readable ms"
    "set_fields (map (\<lambda>m. (quote (fst m), snd m)) ms) r = Some s"
    "list_all (\<lambda>m. unbracketed (fst m) \<and> unbracketed (snd m)) ms"
proof -
  obtain a b c x e where f: "json_float (d_latitude s) = Some a" "json_float (d_longitude s) = Some b"
    "json_float (d_heading s) = Some c" "json_float (d_speed s) = Some x" "json_float (d_battery s) = Some e"
    using assms(1) by (auto simp: writable_def json_float_finite)
  have ok: "f64_ok (d_latitude s)" "f64_ok (d_longitude s)" "f64_ok (d_heading s)" "f64_ok (d_speed s)"
    "f64_ok (d_battery s)"
    using assms(1) by (simp_all add: writable_def)
  let ?t = "quote (rfc3339 (d_saved_at s))"
  define ms where "ms = [(''latitude'', a), (''longitude'', b), (''heading'', c), (''speed'', x), (''battery'', e),
    (''altitude'', dec_nat (unat (d_altitude s))), (''saved_at'', ?t)]"
  have "state_members s = Some ms"
    using marshal_time_ok [OF assms(2)] by (simp add: state_members_def f ms_def)
  moreover have "list_all readable ms"
    unfolding ms_def list.pred_inject list_all_Nil_True
    by (intro conjI float_text_readable(1) [OF f(1) ok(1)] float_text_readable(1) [OF f(2) ok(2)]
        float_text_readable(1) [OF f(3) ok(3)] float_text_readable(1) [OF f(4) ok(4)]
        float_text_readable(1) [OF f(5) ok(5)] altitude_readable saved_at_readable plain_names TrueI)
  moreover have "set_fields (map (\<lambda>m. (quote (fst m), snd m)) ms) r = Some s"
  proof -
    have alt: "set_altitude (dec_nat (unat (d_altitude s))) r = Some (r\<lparr>d_altitude := d_altitude s\<rparr>)" for r
    proof -
      have "hd (dec_nat (unat (d_altitude s))) \<noteq> CHR ''n''"
        using dec_nat_head [of "unat (d_altitude s)"] by (auto simp: is_digit_def)
      moreover have "unat (d_altitude s) < 65536" using unsigned_less [of "d_altitude s", where 'a = nat] by simp
      ultimately show ?thesis by (simp add: set_altitude_def parse_nat_dec_nat)
    qed
    have sav: "set_saved_at ?t r = Some (r\<lparr>d_saved_at := d_saved_at s\<rparr>)" for r
      using parse_time_rfc3339 [OF assms(2)] by (simp add: set_saved_at_def quote_def dquote_char_def)
    show ?thesis
      by (simp add: ms_def set_field_def field_names Let_def set_float_text [OF f(1) ok(1)] set_float_text [OF f(2) ok(2)]
          set_float_text [OF f(3) ok(3)] set_float_text [OF f(4) ok(4)] set_float_text [OF f(5) ok(5)] alt sav)
  qed
  moreover have "list_all (\<lambda>m. unbracketed (fst m) \<and> unbracketed (snd m)) ms"
    by (simp add: ms_def unbracketed_number [OF f(1) ok(1)] unbracketed_number [OF f(2) ok(2)]
        unbracketed_number [OF f(3) ok(3)] unbracketed_number [OF f(4) ok(4)] unbracketed_number [OF f(5) ok(5)]
        unbracketed_dec_nat unbracketed_rfc3339) (simp add: unbracketed_def)
  ultimately show thesis using that [of ms] by (simp add: ms_def)
qed

lemma unbracketed_members:
  "list_all (\<lambda>m. unbracketed (fst m) \<and> unbracketed (snd m)) ms \<Longrightarrow> unbracketed (members_text ms)"
proof (induction ms rule: members_text.induct)
  have q: "unbracketed (quote t)" if "unbracketed t" for t
    using that by (auto simp: quote_def unbracketed_def dquote_char_def)
  have s: "unbracketed ''  ''" "unbracketed '': ''" "unbracketed '',''" "unbracketed [CHR 0x0A]"
    by (simp_all add: unbracketed_def)
  {
    case (2 m)
    then show ?case using q s by (simp only: members_text.simps unbracketed_append member_text_def list.pred_inject)
  next
    case (3 m m' ms)
    then show ?case using q s by (simp only: members_text.simps unbracketed_append member_text_def list.pred_inject)
  }
qed (simp add: unbracketed_def)

text \<open>A written object is unmarshalled member by member; names the state does not have are skipped.\<close>

definition state_names :: "string list" where
  "state_names = [''LATITUDE'', ''LONGITUDE'', ''HEADING'', ''SPEED'', ''BATTERY'', ''ALTITUDE'', ''SAVED_AT'']"

lemma unmarshal_object:
  assumes "list_all readable ms" and "ms \<noteq> []"
  shows "unmarshal_state (object_text ms) = set_fields (map (\<lambda>m. (quote (fst m), snd m)) ms) zero_state"
proof -
  have "\<not> is_space CHR ''{''" by (simp add: is_space_def)
  then have "hd (dropWhile is_space (object_text ms)) = CHR ''{''" by (simp add: object_text_def)
  then show ?thesis using object_text_read [OF assms] by (simp add: unmarshal_state_def)
qed

lemma unescape_plain: "CHR 0x5C \<notin> set t \<Longrightarrow> unescape_text t = t"
  by (induction t rule: unescape_text.induct) auto

lemma foreign_fields:
  "list_all (\<lambda>m. fold_name (fst m) \<notin> set state_names \<and> CHR 0x5C \<notin> set (fst m)) ms \<Longrightarrow>
   set_fields (map (\<lambda>m. (quote (fst m), snd m)) ms) s = Some s"
  by (induction ms) (auto simp: set_field_def Let_def unquote_def quote_def unescape_plain state_names_def)

text \<open>
  The text of a state: read whole it gives the state back, cut short it is not valid.
\<close>

lemma marshalled:
  assumes "writable s" and "stamp_ok (d_saved_at s)"
  obtains t where "marshal_state s = Some t" "unmarshal_state t = Some s"
    "\<And>n. n < length t \<Longrightarrow> unmarshal_state (take n t) = None"
proof -
  obtain ms where ms: "state_members s = Some ms" "ms \<noteq> []" "list_all readable ms"
    "set_fields (map (\<lambda>m. (quote (fst m), snd m)) ms) zero_state = Some s"
    "list_all (\<lambda>m. unbracketed (fst m) \<and> unbracketed (snd m)) ms"
    using state_members_written [OF assms] by blast
  have 1: "unmarshal_state (object_text ms) = Some s"
    using ms(4) by (simp add: unmarshal_object [OF ms(3,2)])
  define u where "u = [CHR 0x0A] @ members_text ms @ [CHR 0x0A]"
  have t: "object_text ms = (CHR ''{'' # u) @ ''}''" by (simp add: object_text_def u_def)
  have u: "CHR ''}'' \<notin> set u" "CHR '']'' \<notin> set u"
    using unbracketed_members [OF ms(5)] by (auto simp: u_def unbracketed_def)
  have 2: "unmarshal_state (take n (object_text ms)) = None" if "n < length (object_text ms)" for n
  proof -
    have "n \<le> length (CHR ''{'' # u)" using that unfolding t by simp
    then have "take n (object_text ms) = take n (CHR ''{'' # u)" unfolding t by (simp only: take_append) simp
    then show ?thesis using cut_object_invalid [OF u, of n] by (simp add: unmarshal_state_def)
  qed
  show thesis using that [of "object_text ms"] ms(1) 1 2 by (simp add: marshal_state_def)
qed

lemma load_saved:
  assumes "writable s" and "stamp_ok now"
  shows "load_state path cfg later (save_state Written now s path d) = s\<lparr>d_saved_at := now\<rparr>"
proof -
  let ?s = "s\<lparr>d_saved_at := now\<rparr>"
  have "writable ?s" "stamp_ok (d_saved_at ?s)" using assms by (simp_all add: writable_def)
  then obtain t where "marshal_state ?s = Some t" "unmarshal_state t = Some ?s" using marshalled by blast
  then show ?thesis by (simp add: save_state_def load_state_def Let_def)
qed

lemma nonfinite_saved:
  assumes "\<not> f64_finite x" and "x \<in> {d_latitude s, d_longitude s, d_heading s, d_speed s, d_battery s}"
  shows "files (save_state Written now s path d) path = Some []"
proof -
  have "state_members (s\<lparr>d_saved_at := now\<rparr>) = None"
    using assms by (auto simp: json_float_finite state_members_def split: bind_splits)
  then show ?thesis by (simp add: save_state_def marshal_state_def Let_def)
qed

lemma empty_file_invalid: "unmarshal_state [] = None"
  by (simp add: unmarshal_state_def json_valid_def scan_char_def new_scanner_def begin_value_def is_space_def)

section \<open>Properties\<close>

text \<open>
  C11 (the journey is resumed). A state saved completely is loaded again exactly, bit for bit in
  its five floating-point numbers, with the time at which it was saved.
\<close>

theorem state_file_resumes:
  assumes "writable s" and "stamp_ok now"
  shows "load_state path cfg later (save_state Written now s path d) = s\<lparr>d_saved_at := now\<rparr>"
  by (rule load_saved [OF assms])

text \<open>
  C21 (a torn state file). If the process dies while the file is written, so that any proper part
  of the text is left, the next start loads none of it: the device is back at its configured start.
\<close>

theorem torn_state_file_restarts:
  assumes "writable s" and "stamp_ok now"
    and "marshal_state (s\<lparr>d_saved_at := now\<rparr>) = Some t" and "n < length t"
  shows "load_state path cfg later (save_state (CutAfter n) now s path d) = default_state cfg later"
proof -
  have "writable (s\<lparr>d_saved_at := now\<rparr>)" "stamp_ok (d_saved_at (s\<lparr>d_saved_at := now\<rparr>))"
    using assms(1,2) by (simp_all add: writable_def)
  from marshalled [OF this] have "unmarshal_state (take n t) = None" using assms(3,4) by (metis option.inject)
  then show ?thesis using assms(3) by (simp add: save_state_def load_state_def Let_def)
qed

text \<open>
  A state that has no text. Once a coordinate, heading, speed or battery level is not a finite
  number, saving empties the file, and the next start is at the configured start.
\<close>

theorem nonfinite_state_erases_file:
  assumes "\<not> f64_finite x" and "x \<in> {d_latitude s, d_longitude s, d_heading s, d_speed s, d_battery s}"
  shows "files (save_state Written now s path d) path = Some [] \<and>
    load_state path cfg later (save_state Written now s path d) = default_state cfg later"
  using nonfinite_saved [OF assms] by (simp add: load_state_def empty_file_invalid)

text \<open>A simulator in the middle of its journey.\<close>

definition sample_state :: dev_state where
  "sample_state = default_state (sample_device\<lparr>d_initial_lat := f64_const (315204 / 10000)\<rparr>) sample_stamp"

lemma sample_writable: "writable sample_state" "stamp_ok sample_stamp"
proof -
  have fin: "f64_finite (f64_const (315204 / 10000))"
    using f64_round_small(1) [of "315204 / 10000" False] by (simp add: f64_const_def)
  have n: "f64_of_nat 31 = Fin False 31" "f64_of_nat 74 = Fin False 74" "f64_of_nat 45 = Fin False 45"
    "f64_of_nat 40 = Fin False 40" "f64_of_nat 100 = Fin False 100"
    using f64_of_nat_exact [of 31] f64_of_nat_exact [of 74] f64_of_nat_exact [of 45] f64_of_nat_exact [of 40]
      f64_of_nat_exact [of 100] by simp_all
  have "f64_ok (f64_of_nat k)" for k by simp
  then have "f64_mag 74" "f64_mag 45" "f64_mag 40" "f64_mag 100" using n f64_ok.simps(1) by metis+
  then show "writable sample_state"
    using fin by (simp add: writable_def sample_state_def default_state_def sample_device_def n)
  show "stamp_ok sample_stamp" by (simp add: stamp_ok_def sample_stamp_def sample_time_def days_in_def)
qed

theorem state_file_resumes_witness:
  "load_state ''/data/state.json'' sample_device zero_stamp
     (save_state Written sample_stamp sample_state ''/data/state.json'' \<lparr>made_dirs = [], files = \<lambda>_. None\<rparr>) =
   sample_state"
proof -
  have "sample_state\<lparr>d_saved_at := sample_stamp\<rparr> = sample_state" by (simp add: sample_state_def default_state_def)
  then show ?thesis using state_file_resumes [OF sample_writable] by simp
qed

theorem torn_state_file_restarts_witness:
  "load_state ''/data/state.json'' sample_device zero_stamp
     (save_state (CutAfter 10) sample_stamp sample_state ''/data/state.json'' \<lparr>made_dirs = [], files = \<lambda>_. None\<rparr>) =
   default_state sample_device zero_stamp"
proof -
  have s: "sample_state\<lparr>d_saved_at := sample_stamp\<rparr> = sample_state" by (simp add: sample_state_def default_state_def)
  have at: "stamp_ok (d_saved_at sample_state)" using sample_writable(2) by (simp add: sample_state_def default_state_def)
  obtain ms where ms: "state_members sample_state = Some ms" using state_members_written [OF sample_writable(1) at] by blast
  then obtain lat rest where "ms = (''latitude'', lat) # rest" "rest \<noteq> []"
    by (auto simp: state_members_def split: bind_splits)
  then obtain m rest' where "ms = (''latitude'', lat) # m # rest'" by (cases rest) auto
  then have "10 < length (object_text ms)" by (simp add: object_text_def member_text_def quote_def)
  then show ?thesis using torn_state_file_restarts [OF sample_writable, of "object_text ms" 10] ms s
    by (simp add: marshal_state_def)
qed

theorem nonfinite_state_erases_file_witness:
  "load_state ''/data/state.json'' sample_device zero_stamp
     (save_state Written sample_stamp (sample_state\<lparr>d_longitude := NaN\<rparr>) ''/data/state.json'' \<lparr>made_dirs = [], files = \<lambda>_. None\<rparr>) =
   default_state sample_device zero_stamp"
  using nonfinite_state_erases_file [of NaN "sample_state\<lparr>d_longitude := NaN\<rparr>"] by simp

text \<open>
  A file of another program. A valid JSON object with none of the state's names, as well as an
  empty object and a bare null, is loaded as the zero state rather than the configured one: the
  device starts at latitude and longitude 0 with an empty battery.
\<close>

theorem foreign_file_zeroes_state:
  assumes "files d path \<in> {Some ''{}'', Some ''null''} \<or>
    (\<exists>ms. files d path = Some (object_text ms) \<and> ms \<noteq> [] \<and> list_all readable ms \<and>
      list_all (\<lambda>m. fold_name (fst m) \<notin> set state_names \<and> CHR 0x5C \<notin> set (fst m)) ms)"
  shows "load_state path cfg now d = zero_state"
proof -
  have "unmarshal_state ''{}'' = Some zero_state" "unmarshal_state ''null'' = Some zero_state" by code_simp+
  moreover have "unmarshal_state (object_text ms) = Some zero_state"
    if "ms \<noteq> []" "list_all readable ms" "list_all (\<lambda>m. fold_name (fst m) \<notin> set state_names \<and> CHR 0x5C \<notin> set (fst m)) ms" for ms
    using foreign_fields [OF that(3)] by (simp add: unmarshal_object [OF that(2,1)])
  ultimately show ?thesis using assms by (auto simp: load_state_def)
qed

theorem foreign_file_zeroes_state_witness:
  "load_state ''/s'' sample_device sample_stamp
     \<lparr>made_dirs = [], files = [''/s'' \<mapsto> object_text [(''name'', quote ''P901'')]]\<rparr> = zero_state"
proof -
  have "list_all plain ''name''" "list_all plain ''P901''" by code_simp+
  then have "readable (''name'', quote ''P901'')" using takes_string [of "''P901''"] by (auto simp: readable_def closes_def)
  moreover have "fold_name ''name'' = ''NAME''" by code_simp
  ultimately show ?thesis
    by (intro foreign_file_zeroes_state disjI2 exI [of _ "[(''name'', quote ''P901'')]"]) (simp add: state_names_def)
qed

end

