(* ===== verification/Device_Main.thy ===== *)
theory Device_Main
  imports Device_File
begin

text \<open>
  The simulator as a process: its configuration from the environment, and the loop that connects,
  runs until an error, saves the state and connects again, until it is shut down.
\<close>

section \<open>Configuration\<close>

definition env_float :: "(string \<Rightarrow> string) \<Rightarrow> string \<Rightarrow> f64 \<Rightarrow> f64" where
  "env_float getenv key def =
     (if getenv key \<noteq> [] then (case parse_float (getenv key) of Some f \<Rightarrow> f | None \<Rightarrow> def) else def)"

text \<open>Without an identity the process exits.\<close>

definition load_config :: "(string \<Rightarrow> string) \<Rightarrow> dev_config option" where
  "load_config getenv =
     (let imei = getenv ''DEVICE_IMEI''
      in if imei = [] then None
         else Some \<lparr>d_imei = imei,
           d_server_addr = env_str getenv ''SERVER_ADDR'' ''jt808:7018'',
           d_location_interval = env_duration getenv ''LOCATION_INTERVAL'' (30 * 1000000000),
           d_heartbeat_interval = env_duration getenv ''HEARTBEAT_INTERVAL'' (60 * 1000000000),
           d_state_file = env_str getenv ''STATE_FILE'' ''/data/state.json'',
           d_model = env_str getenv ''DEVICE_MODEL'' ''P901'',
           d_initial_lat = env_float getenv ''INITIAL_LAT'' (f64_const (315204 / 10000)),
           d_initial_lon = env_float getenv ''INITIAL_LON'' (f64_const (743587 / 10000)),
           d_initial_heading = env_float getenv ''INITIAL_HEADING'' (f64_const 45),
           d_initial_speed = env_float getenv ''INITIAL_SPEED'' (f64_const 40),
           d_initial_battery = env_float getenv ''INITIAL_BATTERY'' (f64_const 100),
           d_debug = (getenv ''APP_DEBUG'' = ''true'')\<rparr>)"

section \<open>Connecting again and again\<close>

text \<open>
  What one attempt to connect meets: whether the dial succeeds, which writes do, the bytes the
  server sends and the error that ends them, and the ticks with their draws.
\<close>

record attempt =
  a_dial :: bool
  a_ok :: "bytes \<Rightarrow> bool"
  a_io :: io_error
  a_first :: draws
  a_ticks :: "tick list"
  a_in :: bytes

definition run_attempt :: "(f64 \<Rightarrow> f64) \<Rightarrow> (f64 \<Rightarrow> f64) \<Rightarrow> dev_config \<Rightarrow> attempt \<Rightarrow> dev_state \<Rightarrow>
    bytes list \<times> dev_state list \<times> dev_state \<times> (dev_error + bytes)" where
  "run_attempt cosf sinf cfg a s =
     (if \<not> a_dial a then ([], [], s, Inl DialFailed)
      else run_device cfg (a_ok a) (a_io a) cosf sinf (a_first a) s (a_ticks a) (a_in a))"

text \<open>
  The states saved, the state reached, and whether the process panicked. An attempt that ended in an
  error is followed by a save and the next attempt; one that has not ended is where the shutdown
  finds the device; a panic ends the process at once.
\<close>

fun main_loop :: "(f64 \<Rightarrow> f64) \<Rightarrow> (f64 \<Rightarrow> f64) \<Rightarrow> dev_config \<Rightarrow> attempt list \<Rightarrow> dev_state \<Rightarrow>
    dev_state list \<times> dev_state \<times> bool" where
  "main_loop cosf sinf cfg [] s = ([], s, False)"
| "main_loop cosf sinf cfg (a # as) s =
     (let (outs, saved, s', res) = run_attempt cosf sinf cfg a s
      in case res of
           Inr _ \<Rightarrow> (saved, s', False)
         | Inl e \<Rightarrow>
             if e = TickerPanic then (saved, s', True)
             else (let (further, final) = main_loop cosf sinf cfg as s' in (saved @ [s'] @ further, final)))"

text \<open>A shutdown saves once more.\<close>

definition all_saves :: "dev_state list \<times> dev_state \<times> bool \<Rightarrow> dev_state list" where
  "all_saves run = (let (saved, s', panicked) = run in saved @ (if panicked then [] else [s']))"

text \<open>The saves on the disk; each has its time and its outcome.\<close>

fun save_all :: "(nat \<Rightarrow> write_outcome \<times> time_stamp) \<Rightarrow> nat \<Rightarrow> string \<Rightarrow> dev_state list \<Rightarrow> disk \<Rightarrow> disk" where
  "save_all ws n path [] d = d"
| "save_all ws n path (s # ss) d =
     save_all ws (Suc n) path ss (save_state (fst (ws n)) (snd (ws n)) s path d)"

definition device_main :: "(f64 \<Rightarrow> f64) \<Rightarrow> (f64 \<Rightarrow> f64) \<Rightarrow> dev_config \<Rightarrow> attempt list \<Rightarrow>
    (nat \<Rightarrow> write_outcome \<times> time_stamp) \<Rightarrow> time_stamp \<Rightarrow> disk \<Rightarrow> disk" where
  "device_main cosf sinf cfg attempts ws now d =
     (let s = load_state (d_state_file cfg) cfg now d
      in save_all ws 0 (d_state_file cfg) (all_saves (main_loop cosf sinf cfg attempts s)) d)"

section \<open>One journey\<close>

definition journey :: "(f64 \<Rightarrow> f64) \<Rightarrow> (f64 \<Rightarrow> f64) \<Rightarrow> dev_config \<Rightarrow> dev_state \<Rightarrow> draws list \<Rightarrow> dev_state" where
  "journey cosf sinf cfg s xs = foldl (\<lambda>s x. advance_by cosf sinf x cfg s) s xs"

text \<open>The states saved lie on one journey, each as far as the number given for it or farther on.\<close>

definition along :: "(f64 \<Rightarrow> f64) \<Rightarrow> (f64 \<Rightarrow> f64) \<Rightarrow> dev_config \<Rightarrow> dev_state \<Rightarrow> draws list \<Rightarrow> nat list \<Rightarrow>
    dev_state list \<Rightarrow> bool" where
  "along cosf sinf cfg s xs ns saved \<longleftrightarrow>
     sorted ns \<and> (\<forall>n\<in>set ns. n \<le> length xs) \<and> saved = map (\<lambda>n. journey cosf sinf cfg s (take n xs)) ns"

lemma journey_append: "journey cosf sinf cfg s (xs @ ys) = journey cosf sinf cfg (journey cosf sinf cfg s xs) ys"
  by (simp add: journey_def)

lemma journey_Nil [simp]: "journey cosf sinf cfg s [] = s"
  by (simp add: journey_def)

lemma journey_Cons: "journey cosf sinf cfg s (x # xs) = journey cosf sinf cfg (advance_by cosf sinf x cfg s) xs"
  by (simp add: journey_def)

lemma along_append:
  assumes "along cosf sinf cfg s xs ns saved" and "along cosf sinf cfg (journey cosf sinf cfg s xs) ys ms further"
  shows "along cosf sinf cfg s (xs @ ys) (ns @ map (\<lambda>m. length xs + m) ms) (saved @ further)"
proof -
  have "sorted (map (\<lambda>m. length xs + m) ms)" using assms(2) by (simp add: along_def sorted_map sorted_wrt_iff_nth_less)
  moreover have "saved = map (\<lambda>n. journey cosf sinf cfg s (take n (xs @ ys))) ns"
    using assms(1) by (auto simp: along_def)
  moreover have "further = map (\<lambda>n. journey cosf sinf cfg s (take n (xs @ ys))) (map (\<lambda>m. length xs + m) ms)"
    using assms(2) by (simp add: along_def comp_def journey_append)
  ultimately show ?thesis using assms by (auto simp: along_def sorted_append intro: trans_le_add1)
qed

lemma device_loop_along:
  assumes "device_loop cfg ok io cosf sinf q s ts r = (outs, saved, s', res)"
  shows "\<exists>xs ns. along cosf sinf cfg s xs ns saved \<and> s' = journey cosf sinf cfg s xs"
  using assms
proof (induction cfg ok io cosf sinf q s ts r arbitrary: outs saved s' res rule: device_loop.induct)
  case (1 cfg ok io cosf sinf seq s r)
  then show ?case by (intro exI [of _ "[]"]) (simp add: along_def)
next
  case (2 cfg ok io cosf sinf seq s x ts r)
  let ?out = "encode_frame msg_location_report (d_imei cfg) seq (location_body_of x s)"
  show ?case
  proof (cases "ok ?out \<and> (\<exists>r'. read_ack io msg_location_report r = Inr r')")
    case False
    then have "saved = [] \<and> s' = s" using 2(2) by (auto simp: Let_def split: if_splits sum.splits)
    then show ?thesis by (intro exI [of _ "[]"]) (simp add: along_def)
  next
    case True
    then obtain r' where r': "ok ?out" "read_ack io msg_location_report r = Inr r'" by blast
    obtain os sv res' where l: "device_loop cfg ok io cosf sinf (seq + 1) (advance_by cosf sinf x cfg s) ts r' = (os, sv, s', res')"
      "saved = advance_by cosf sinf x cfg s # sv"
      using 2(2) r' by (auto simp: Let_def split: prod.splits)
    from 2(1) [OF refl _ r'(2) refl l(1)] r'(1) obtain xs ns where
      "along cosf sinf cfg (advance_by cosf sinf x cfg s) xs ns sv" "s' = journey cosf sinf cfg (advance_by cosf sinf x cfg s) xs"
      by auto
    moreover have "along cosf sinf cfg s [x] [1] [advance_by cosf sinf x cfg s]" by (simp add: along_def journey_Cons)
    ultimately show ?thesis using along_append [of cosf sinf cfg s "[x]" "[1]" "[advance_by cosf sinf x cfg s]" xs ns sv] l(2)
      by (intro exI [of _ "x # xs"] exI) (auto simp: journey_Cons)
  qed
next
  case (3 cfg ok io cosf sinf seq s ts r)
  let ?out = "encode_frame msg_heartbeat (d_imei cfg) seq []"
  show ?case
  proof (cases "ok ?out \<and> (\<exists>r'. read_ack io msg_heartbeat r = Inr r')")
    case False
    then have "saved = [] \<and> s' = s" using 3(2) by (auto simp: Let_def split: if_splits sum.splits)
    then show ?thesis by (intro exI [of _ "[]"]) (simp add: along_def)
  next
    case True
    then obtain r' where r': "ok ?out" "read_ack io msg_heartbeat r = Inr r'" by blast
    obtain os where "device_loop cfg ok io cosf sinf (seq + 1) s ts r' = (os, saved, s', res)"
      using 3(2) r' by (auto simp: Let_def split: prod.splits)
    from 3(1) [OF refl _ r'(2) this] r'(1) show ?thesis by auto
  qed
qed

lemma run_attempt_along:
  assumes "run_attempt cosf sinf cfg a s = (outs, saved, s', res)"
  shows "\<exists>xs ns. along cosf sinf cfg s xs ns saved \<and> s' = journey cosf sinf cfg s xs"
proof (cases "a_dial a \<and> \<not> tickers_panic cfg \<and> (\<exists>r. snd (device_login cfg (a_ok a) (a_io a) (a_in a)) = Inr r)")
  case False
  then have "saved = [] \<and> s' = s"
    using assms by (auto simp: run_attempt_def run_device_def split: if_splits prod.splits sum.splits)
  then show ?thesis by (intro exI [of _ "[]"]) (simp add: along_def)
next
  case True
  then obtain r os where "a_dial a" "\<not> tickers_panic cfg" "device_login cfg (a_ok a) (a_io a) (a_in a) = (os, Inr r)"
    by (metis prod.collapse)
  then obtain further where "device_loop cfg (a_ok a) (a_io a) cosf sinf 3 s (LocTick (a_first a) # a_ticks a) r = (further, saved, s', res)"
    using assms by (auto simp: run_attempt_def run_device_def simp del: device_loop.simps split: prod.splits)
  then show ?thesis by (rule device_loop_along)
qed

lemma main_loop_along:
  assumes "main_loop cosf sinf cfg as s = (saved, s', panicked)"
  shows "\<exists>xs ns. along cosf sinf cfg s xs ns saved \<and> s' = journey cosf sinf cfg s xs"
  using assms
proof (induction cosf sinf cfg as s arbitrary: saved s' rule: main_loop.induct)
  case (1 cosf sinf cfg s)
  then show ?case by (intro exI [of _ "[]"]) (simp add: along_def)
next
  case (2 cosf sinf cfg a as s)
  obtain outs sv t res where run: "run_attempt cosf sinf cfg a s = (outs, sv, t, res)" by (metis prod.exhaust)
  obtain xs ns where xs: "along cosf sinf cfg s xs ns sv" "t = journey cosf sinf cfg s xs"
    using run_attempt_along [OF run] by blast
  show ?case
  proof (cases "\<exists>e. res = Inl e \<and> e \<noteq> TickerPanic")
    case False
    then have "saved = sv \<and> s' = t" using 2(2) run by (cases res) auto
    then show ?thesis using xs by blast
  next
    case True
    then obtain e where e: "res = Inl e" "e \<noteq> TickerPanic" by blast
    obtain further where further: "main_loop cosf sinf cfg as t = (further, s', panicked)" "saved = sv @ [t] @ further"
      using 2(2) run e by (auto split: prod.splits)
    from 2(1) [OF run [symmetric] refl refl refl e further(1)] obtain ys ms where
      ys: "along cosf sinf cfg t ys ms further" "s' = journey cosf sinf cfg t ys" by blast
    then have "along cosf sinf cfg t ys (0 # ms) (t # further)" by (simp add: along_def)
    from along_append [OF xs(1) this [unfolded xs(2)]] show ?thesis
      using ys(2) xs(2) further(2) by (intro exI conjI) (auto simp: journey_append)
  qed
qed

lemma all_saves_along:
  "\<exists>xs ns. along cosf sinf cfg s xs ns (all_saves (main_loop cosf sinf cfg as s))"
proof -
  obtain saved s' b where m: "main_loop cosf sinf cfg as s = (saved, s', b)" by (metis prod.exhaust)
  obtain xs ns where "along cosf sinf cfg s xs ns saved" "s' = journey cosf sinf cfg s xs"
    using main_loop_along [OF m] by blast
  then have "along cosf sinf cfg s xs ns saved" "along cosf sinf cfg s xs (ns @ [length xs]) (saved @ [s'])"
    by (auto simp: along_def sorted_append)
  then show ?thesis unfolding m all_saves_def by (cases b) auto
qed

text \<open>Only a device whose intervals are not both positive panics, and it does so after any login.\<close>

lemma run_attempt_panics:
  "snd (snd (snd (run_attempt cosf sinf cfg a s))) = Inl TickerPanic \<Longrightarrow> tickers_panic cfg"
proof (rule ccontr)
  assume r: "snd (snd (snd (run_attempt cosf sinf cfg a s))) = Inl TickerPanic" and "\<not> tickers_panic cfg"
  have ack: "read_ack io m r \<noteq> Inl TickerPanic" for io m r
    by (auto simp: read_ack_def Let_def split: prod.splits sum.splits if_splits)
  have loop: "snd (snd (snd (device_loop cfg ok io cosf sinf q s ts r))) \<noteq> Inl TickerPanic" for ok io q s ts r
    by (induction cfg ok io cosf sinf q s ts r rule: device_loop.induct) (auto simp: Let_def ack split_beta split: sum.splits)
  have login: "snd (device_login cfg ok io r) \<noteq> Inl TickerPanic" for ok io r
    by (auto simp: device_login_def Let_def split: prod.splits sum.splits if_splits)
  show False
    using r \<open>\<not> tickers_panic cfg\<close> loop login
    by (auto simp: run_attempt_def run_device_def split_beta simp del: device_loop.simps split: prod.splits sum.splits if_splits)
qed

lemma main_loop_panics: "snd (snd (main_loop cosf sinf cfg as s)) \<Longrightarrow> tickers_panic cfg"
proof (induction cosf sinf cfg as s rule: main_loop.induct)
  case (2 cosf sinf cfg a as s)
  then show ?case using run_attempt_panics [of cosf sinf cfg a s]
    by (auto simp: Let_def split: prod.splits sum.splits if_splits)
qed simp

lemma login_then_panic:
  assumes "tickers_panic cfg" and "a_dial a" and "device_login cfg (a_ok a) (a_io a) (a_in a) = (outs, Inr r)"
  shows "all_saves (main_loop cosf sinf cfg (a # as) s) = []"
  using assms by (simp add: run_attempt_def run_device_def all_saves_def)

section \<open>Properties\<close>

lemma save_all_append: "save_all ws n path (ss @ ts) d = save_all ws (n + length ss) path ts (save_all ws n path ss d)"
  by (induction ss arbitrary: n d) simp_all

lemma save_all_last:
  assumes "0 < k" "k \<le> length ss"
  shows "save_all ws 0 path (take k ss) d =
    save_state (fst (ws (k - 1))) (snd (ws (k - 1))) (ss ! (k - 1)) path (save_all ws 0 path (take (k - 1) ss) d)"
proof -
  have "take k ss = take (k - 1) ss @ [ss ! (k - 1)]" using assms by (metis Suc_pred' less_le_trans take_Suc_conv_app_nth
      diff_less less_numeral_extra(1))
  then show ?thesis using assms by (simp add: save_all_append)
qed

text \<open>
  C10 (the journey goes on). Over any sequence of connections, broken or not, the states saved lie in
  order on one journey that advances once for every acknowledged report; when the process is
  killed after any of its saves, or shut down, the next start loads the state of that save.
\<close>

theorem restart_resumes_journey:
  assumes "saves = all_saves (main_loop cosf sinf cfg attempts s)"
    and "0 < k" and "k \<le> length saves"
    and "fst (ws (k - 1)) = Written" and "stamp_ok (snd (ws (k - 1)))" and "writable (saves ! (k - 1))"
  shows "\<exists>xs ns. sorted ns \<and> saves = map (\<lambda>n. journey cosf sinf cfg s (take n xs)) ns \<and>
    load_state path cfg later (save_all ws 0 path (take k saves) d) =
      (journey cosf sinf cfg s (take (ns ! (k - 1)) xs))\<lparr>d_saved_at := snd (ws (k - 1))\<rparr>"
proof -
  obtain xs ns where "along cosf sinf cfg s xs ns saves" using all_saves_along assms(1) by blast
  then have ns: "sorted ns" "saves = map (\<lambda>n. journey cosf sinf cfg s (take n xs)) ns" by (simp_all add: along_def)
  have "load_state path cfg later (save_all ws 0 path (take k saves) d) =
      (saves ! (k - 1))\<lparr>d_saved_at := snd (ws (k - 1))\<rparr>"
    unfolding save_all_last [OF assms(2,3)] assms(4) by (rule load_saved [OF assms(6,5)])
  moreover have "k - 1 < length ns" using assms(2,3) ns(2) by simp
  ultimately show ?thesis using ns by (intro exI [of _ xs] exI [of _ ns]) simp
qed

text \<open>A latitude that is not a number stays one.\<close>

lemma advance_latitude_NaN: "d_latitude s = NaN \<Longrightarrow> d_latitude (advance_by cosf sinf x cfg s) = NaN"
  by (simp add: advance_by_def advance_state_def Let_def)

lemma journey_latitude_NaN: "d_latitude s = NaN \<Longrightarrow> d_latitude (journey cosf sinf cfg s xs) = NaN"
  by (induction xs arbitrary: s) (simp_all add: journey_Cons advance_latitude_NaN)

text \<open>A state with such a latitude leaves nothing of itself on the disk, however far its write gets.\<close>

lemma nan_saved:
  assumes "d_latitude s = NaN" and "files d path \<in> {None, Some []}"
  shows "files (save_state out now s path d) path \<in> {None, Some []}"
    and "out = Written \<Longrightarrow> files (save_state out now s path d) path = Some []"
proof -
  have "marshal_state (s\<lparr>d_saved_at := now\<rparr>) = None"
    using assms(1) by (auto simp: marshal_state_def json_float_finite state_members_def split: bind_splits)
  then show "files (save_state out now s path d) path \<in> {None, Some []}"
    "out = Written \<Longrightarrow> files (save_state out now s path d) path = Some []"
    using assms(2) by (cases out; simp add: save_state_def)+
qed

lemma nan_all_saved:
  assumes "\<forall>s\<in>set ss. d_latitude s = NaN" and "files d path \<in> {None, Some []}"
  shows "files (save_all ws n path ss d) path \<in> {None, Some []}"
  using assms
proof (induction ss arbitrary: n d)
  case (Cons s ss)
  then show ?case using nan_saved(1) [OF _ Cons.prems(2)] unfolding save_all.simps by (intro Cons.IH) simp_all
qed simp

text \<open>
  C22 (a configured latitude that is not a number). The environment reader takes any spelling of
  NaN for a latitude. If no state file exists yet, no save of the run, complete, cut or failed, on
  any connection or at the shutdown, puts a state into the file: after each of them it is missing or
  empty, empty if that save was complete, and a restart begins at the configured start again.
\<close>

theorem nan_start_never_saved:
  assumes "load_config getenv = Some cfg" and "parse_float (getenv ''INITIAL_LAT'') = Some NaN"
    and "files d (d_state_file cfg) = None"
  shows "let saves = all_saves (main_loop cosf sinf cfg attempts (load_state (d_state_file cfg) cfg now d));
      disk = (\<lambda>n. save_all ws 0 (d_state_file cfg) (take n saves) d) in
    device_main cosf sinf cfg attempts ws now d = disk (length saves) \<and>
    (\<forall>n. files (disk n) (d_state_file cfg) \<in> {None, Some []} \<and>
      (n < length saves \<and> fst (ws n) = Written \<longrightarrow> files (disk (Suc n)) (d_state_file cfg) = Some []) \<and>
      load_state (d_state_file cfg) cfg later (disk n) = default_state cfg later)"
proof -
  let ?p = "d_state_file cfg" and ?s = "load_state (d_state_file cfg) cfg now d"
  let ?saves = "all_saves (main_loop cosf sinf cfg attempts ?s)"
  let ?disk = "\<lambda>n. save_all ws 0 ?p (take n ?saves) d"
  have "parse_float [] = None" by code_simp
  then have "d_initial_lat cfg = NaN"
    using assms(1,2) by (auto simp: load_config_def env_float_def Let_def split: if_splits)
  then have start: "d_latitude ?s = NaN" using assms(3) by (simp add: load_state_def default_state_def)
  obtain xs ns where "along cosf sinf cfg ?s xs ns ?saves" using all_saves_along by blast
  then have nan: "\<forall>t\<in>set ?saves. d_latitude t = NaN" by (auto simp: along_def journey_latitude_NaN [OF start])
  have on_disk: "files (?disk n) ?p \<in> {None, Some []}" for n
    using nan assms(3) by (intro nan_all_saved) (auto dest: in_set_takeD)
  have written: "files (?disk (Suc n)) ?p = Some []" if "n < length ?saves" "fst (ws n) = Written" for n
    using save_all_last [of "Suc n" ?saves ws ?p d] nan_saved(2) [OF _ on_disk] nan that by simp
  have "load_state ?p cfg later (?disk n) = default_state cfg later" for n
    using on_disk [of n] by (auto simp: load_state_def empty_file_invalid)
  with on_disk written show ?thesis by (simp add: Let_def device_main_def)
qed

text \<open>Concrete instances.\<close>

definition failed_attempt :: attempt where
  "failed_attempt = \<lparr>a_dial = False, a_ok = \<lambda>_. True, a_io = EOF, a_first = sample_draws, a_ticks = [], a_in = []\<rparr>"

theorem restart_resumes_journey_witness:
  "\<exists>xs n. load_state ''/s'' sample_device zero_stamp (save_all (\<lambda>_. (Written, sample_stamp)) 0 ''/s''
      (take 1 [sample_state, sample_state]) \<lparr>made_dirs = [], files = \<lambda>_. None\<rparr>) =
    (journey (\<lambda>x. x) (\<lambda>x. x) sample_device sample_state (take n xs))\<lparr>d_saved_at := sample_stamp\<rparr>"
proof -
  have "[sample_state, sample_state] = all_saves (main_loop (\<lambda>x. x) (\<lambda>x. x) sample_device [failed_attempt] sample_state)"
    by (simp add: run_attempt_def failed_attempt_def all_saves_def)
  from restart_resumes_journey [OF this, of 1 "\<lambda>_. (Written, sample_stamp)"] sample_writable
  show ?thesis by (simp del: take_Suc_Cons) blast
qed

theorem nan_start_never_saved_witness:
  "files (device_main (\<lambda>x. x) (\<lambda>x. x)
      (the (load_config (\<lambda>k. if k = ''DEVICE_IMEI'' then ''013987654321'' else if k = ''INITIAL_LAT'' then ''NaN'' else [])))
      [failed_attempt] (\<lambda>_. (Written, sample_stamp)) zero_stamp \<lparr>made_dirs = [], files = \<lambda>_. None\<rparr>)
    ''/data/state.json'' = Some []"
proof -
  let ?env = "\<lambda>k. if k = ''DEVICE_IMEI'' then ''013987654321'' else if k = ''INITIAL_LAT'' then ''NaN'' else []"
  let ?d = "\<lparr>made_dirs = [], files = \<lambda>_. None\<rparr>"
  obtain cfg where cfg: "load_config ?env = Some cfg" "d_state_file cfg = ''/data/state.json''"
    by (simp add: load_config_def env_str_def Let_def)
  have two: "length (all_saves (main_loop (\<lambda>x. x) (\<lambda>x. x) cfg [failed_attempt] s)) = 2" for s
    by (simp add: run_attempt_def failed_attempt_def all_saves_def)
  have "parse_float (?env ''INITIAL_LAT'') = Some NaN" by code_simp
  note run = nan_start_never_saved [OF cfg(1) this, of ?d "\<lambda>x. x" "\<lambda>x. x" "[failed_attempt]" zero_stamp
      "\<lambda>_. (Written, sample_stamp)", unfolded Let_def two]
  have "files ?d (d_state_file cfg) = None" by simp
  from run [OF this] spec [OF conjunct2 [OF run [OF this]], of 1] show ?thesis by (simp add: cfg two numeral_2_eq_2)
qed

end
