(* ===== verification/Http.thy ===== *)
theory Http
  imports World
begin

text \<open>
  The observability endpoints of \<open>startHTTP\<close> in \<open>server/internal/server/tcp.go\<close>, with the routing
  of \<open>http.ServeMux\<close> that decides which of them answers: paths are cleaned first, a path that
  was not clean is redirected, and the pattern of the root takes what no other pattern matches.
  The page of the Prometheus handler is a parameter. Paths have no percent escapes.
\<close>

section \<open>Definitions\<close>

datatype http_reply = Reply nat "string option" string | Redirect string

fun split_on :: "char \<Rightarrow> string \<Rightarrow> string list" where
  "split_on c [] = [[]]"
| "split_on c (x # s) =
     (if x = c then [] # split_on c s
      else (case split_on c s of [] \<Rightarrow> [[x]] | t # ts \<Rightarrow> (x # t) # ts))"

text \<open>\<open>path.Clean\<close> on the elements of a rooted path: empty and dot elements go, dot-dot takes one back.\<close>

fun clean_elements :: "string list \<Rightarrow> string list \<Rightarrow> string list" where
  "clean_elements done [] = rev done"
| "clean_elements done (t # ts) =
     (if t = [] \<or> t = ''.'' then clean_elements done ts
      else if t = ''..'' then clean_elements (tl done) ts
      else clean_elements (t # done) ts)"

definition rooted :: "string list \<Rightarrow> string" where
  "rooted ts = (if ts = [] then ''/'' else concat (map (\<lambda>t. CHR ''/'' # t) ts))"

text \<open>\<open>cleanPath\<close> of the router: a trailing slash is kept.\<close>

definition clean_path :: "string \<Rightarrow> string" where
  "clean_path p =
     (if p = [] then ''/''
      else (let p = (if hd p \<noteq> CHR ''/'' then CHR ''/'' # p else p);
                np = rooted (clean_elements [] (split_on CHR ''/'' p))
            in if last p = CHR ''/'' \<and> np \<noteq> ''/'' then np @ ''/'' else np))"

definition json_name :: "string \<Rightarrow> string" where
  "json_name s = [CHR 0x22] @ s @ [CHR 0x22]"

definition service_banner :: string where
  "service_banner = ''{'' @ json_name ''service'' @ '':'' @ json_name ''jt808-server'' @ '','' @
     json_name ''tcp_port'' @ '':7018,'' @ json_name ''status'' @ '':'' @ json_name ''ok'' @ '','' @
     json_name ''endpoints'' @ '':['' @ json_name ''/healthz'' @ '','' @ json_name ''/readyz'' @ '','' @
     json_name ''/metrics'' @ '']}''"

definition not_found :: http_reply where
  "not_found = Reply 404 (Some ''text/plain; charset=utf-8'') (''404 page not found'' @ [CHR 0x0A])"

definition root_handler :: "string \<Rightarrow> http_reply" where
  "root_handler p = (if p \<noteq> ''/'' then not_found else Reply 200 (Some ''application/json'') service_banner)"

definition serve_http :: "(nat \<times> string option \<times> string) \<Rightarrow> string \<Rightarrow> http_reply" where
  "serve_http metrics_page p =
     (if clean_path p \<noteq> p then Redirect (clean_path p)
      else if p = ''/metrics'' then (let (code, ctype, text) = metrics_page in Reply code ctype text)
      else if p = ''/healthz'' then Reply 200 None ''ok''
      else if p = ''/readyz'' then Reply 200 None ''ready''
      else root_handler p)"

section \<open>Lemmas\<close>

lemma split_on_not_Nil [simp]: "split_on c s \<noteq> []"
  by (cases s) (auto split: list.split)

text \<open>Elements of a clean path.\<close>

definition clean_element :: "string \<Rightarrow> bool" where
  "clean_element t \<longleftrightarrow> t \<noteq> [] \<and> t \<noteq> ''.'' \<and> t \<noteq> ''..'' \<and> CHR ''/'' \<notin> set t"

lemma split_on_elements: "t \<in> set (split_on c s) \<Longrightarrow> c \<notin> set t"
  by (induction s arbitrary: t) (auto split: if_splits list.splits)

lemma clean_elements_clean:
  "list_all clean_element done \<Longrightarrow> \<forall>t\<in>set ts. CHR ''/'' \<notin> set t \<Longrightarrow> list_all clean_element (clean_elements done ts)"
proof (induction ts arbitrary: "done")
  case (Cons t ts)
  have "list_all clean_element (tl done)" using Cons.prems(1) by (cases "done") simp_all
  with Cons show ?case by (simp add: clean_element_def [of t])
qed (simp add: list_all_iff)

lemma clean_elements_id: "list_all clean_element ts \<Longrightarrow> clean_elements done ts = rev done @ ts"
  by (induction ts arbitrary: "done") (auto simp: clean_element_def)

lemma clean_elements_snoc_Nil: "clean_elements done (ts @ [[]]) = clean_elements done ts"
  by (induction ts arbitrary: "done") simp_all

lemma split_on_append: "c \<notin> set t \<Longrightarrow> split_on c (t @ c # s) = t # split_on c s"
  by (induction t) auto

lemma split_on_plain: "c \<notin> set t \<Longrightarrow> split_on c t = [t]"
  by (induction t) auto

text \<open>The elements of a path put together are taken apart again, with or without a trailing slash.\<close>

lemma split_on_joined:
  "list_all clean_element (t # ts) \<Longrightarrow> split_on CHR ''/'' (t @ concat (map (\<lambda>t. CHR ''/'' # t) ts)) = t # ts"
proof (induction ts arbitrary: t)
  case (Cons u us)
  then have "CHR ''/'' \<notin> set t" by (simp add: clean_element_def)
  then show ?case using Cons by (simp add: split_on_append)
qed (simp add: clean_element_def split_on_plain)

lemma split_on_snoc: "split_on c (s @ [c]) = split_on c s @ [[]]"
  by (induction s) (auto split: list.split)

lemma split_on_rooted:
  assumes "list_all clean_element ts" "ts \<noteq> []"
  shows "split_on CHR ''/'' (rooted ts) = [] # ts"
  using assms split_on_joined [of "hd ts" "tl ts"] by (cases ts) (simp_all add: rooted_def)

lemma rooted_last:
  assumes "list_all clean_element ts" "ts \<noteq> []"
  shows "last (rooted ts) \<noteq> CHR ''/''" "rooted ts \<noteq> ''/''" "hd (rooted ts) = CHR ''/''" "rooted ts \<noteq> []"
proof -
  obtain us u where ts: "ts = us @ [u]" using assms(2) by (cases ts rule: rev_cases) auto
  then have u: "u \<noteq> []" "CHR ''/'' \<notin> set u" using assms(1) by (auto simp: clean_element_def)
  then have "last u \<noteq> CHR ''/''" by (metis last_in_set)
  then show l: "last (rooted ts) \<noteq> CHR ''/''" using u by (simp add: ts rooted_def)
  then show "rooted ts \<noteq> ''/''" by auto
  show "hd (rooted ts) = CHR ''/''" "rooted ts \<noteq> []" using assms(2) by (cases ts; simp add: rooted_def)+
qed

lemma clean_path_form:
  obtains ts where "list_all clean_element ts" "clean_path p = rooted ts \<or> ts \<noteq> [] \<and> clean_path p = rooted ts @ ''/''"
proof (cases "p = []")
  case True
  then show ?thesis by (intro that [of "[]"]) (simp_all add: clean_path_def rooted_def)
next
  case False
  let ?p = "if hd p \<noteq> CHR ''/'' then CHR ''/'' # p else p"
  let ?ts = "clean_elements [] (split_on CHR ''/'' ?p)"
  have "list_all clean_element ?ts" by (rule clean_elements_clean) (auto dest: split_on_elements)
  moreover have "rooted ?ts \<noteq> ''/'' \<Longrightarrow> ?ts \<noteq> []" by (auto simp: rooted_def)
  ultimately show ?thesis using False by (intro that [of ?ts]) (auto simp: clean_path_def Let_def)
qed

lemma clean_path_idem: "clean_path (clean_path p) = clean_path p"
proof -
  obtain ts where ts: "list_all clean_element ts" "clean_path p = rooted ts \<or> ts \<noteq> [] \<and> clean_path p = rooted ts @ ''/''"
    by (rule clean_path_form)
  show ?thesis
  proof (cases "ts = []")
    case True
    then have "clean_path p = ''/''" using ts(2) by (simp add: rooted_def)
    then show ?thesis by (simp add: clean_path_def rooted_def)
  next
    case False
    note split = split_on_rooted [OF ts(1) False] and r = rooted_last [OF ts(1) False]
    have id: "clean_elements [] ts = ts" using clean_elements_id [OF ts(1), of "[]"] by simp
    have "clean_path (rooted ts) = rooted ts" using r by (simp add: clean_path_def split id)
    moreover have "clean_path (rooted ts @ ''/'') = rooted ts @ ''/''"
      using r clean_elements_snoc_Nil [of "[]" "[] # ts"]
      by (simp add: clean_path_def split_on_snoc split id Let_def)
    ultimately show ?thesis using ts(2) by auto
  qed
qed

section \<open>Properties\<close>

text \<open>
  C23 (the endpoints answer). Every request is answered at once or after exactly one redirect,
  and the answers are: the three endpoints and the banner by their paths, 404 for all others.
\<close>

theorem http_answers_after_one_redirect:
  "(case serve_http page p of
      Redirect q \<Rightarrow> q \<noteq> p \<and> (\<exists>code ctype text. serve_http page q = Reply code ctype text)
    | Reply code ctype text \<Rightarrow>
        (code, ctype, text) =
          (if p = ''/metrics'' then page
           else if p = ''/healthz'' then (200, None, ''ok'')
           else if p = ''/readyz'' then (200, None, ''ready'')
           else if p = ''/'' then (200, Some ''application/json'', service_banner)
           else (404, Some ''text/plain; charset=utf-8'', ''404 page not found'' @ [CHR 0x0A])))"
proof (cases "clean_path p = p")
  case True
  then show ?thesis
    by (cases page) (auto simp: serve_http_def root_handler_def not_found_def)
next
  case False
  moreover have "\<exists>code ctype text. serve_http page (clean_path p) = Reply code ctype text"
    by (cases page) (simp add: serve_http_def clean_path_idem root_handler_def not_found_def)
  ultimately show ?thesis by (simp add: serve_http_def)
qed

text \<open>The endpoints themselves are clean paths, so none of them is redirected.\<close>

lemma endpoints_clean:
  "serve_http page ''/healthz'' = Reply 200 None ''ok''" "serve_http page ''/readyz'' = Reply 200 None ''ready''"
  "serve_http page ''/'' = Reply 200 (Some ''application/json'') service_banner"
  "serve_http page ''//healthz/../readyz'' = Redirect ''/readyz''"
  by (simp_all add: serve_http_def clean_path_def rooted_def root_handler_def)

end
