(* ===== verification/Instruments.thy ===== *)
theory Instruments
  imports World Float_Ops
begin

text \<open>
  The instruments of \<open>New\<close> in \<open>server/internal/metrics/metrics.go\<close> and their registration with
  the default registry, which panics on a name that is not valid or already taken and on buckets
  that do not increase. The values of the instruments are the record \<open>metrics\<close> of \<open>World\<close>.
\<close>

section \<open>Definitions\<close>

datatype instrument_kind = Gauge | Counter | CounterVec "string list" | Histogram "f64 list"

record instrument =
  i_kind :: instrument_kind
  i_name :: string
  i_help :: string

definition new_gauge :: "string \<Rightarrow> string \<Rightarrow> instrument" where
  "new_gauge name help = \<lparr>i_kind = Gauge, i_name = name, i_help = help\<rparr>"

definition new_counter :: "string \<Rightarrow> string \<Rightarrow> instrument" where
  "new_counter name help = \<lparr>i_kind = Counter, i_name = name, i_help = help\<rparr>"

text \<open>The instruments in the order \<open>New\<close> registers them.\<close>

definition connection_instruments :: "instrument list" where
  "connection_instruments =
    [new_gauge ''jt808_connections_active''
       ''Current number of active device TCP connections on this replica.'',
     new_counter ''jt808_connections_total'' ''Total TCP connections accepted since startup.'',
     \<lparr>i_kind = CounterVec [''msg_type''], i_name = ''jt808_frames_received_total'',
       i_help = ''Total JT808 frames received, by message type.''\<rparr>]"

definition auth_instruments :: "instrument list" where
  "auth_instruments =
    [new_counter ''jt808_auth_successes_total'' ''Successful device authentications.'',
     new_counter ''jt808_auth_violations_total''
       ''Authentication failures (bad token, unauthenticated message).'']"

definition protocol_instruments :: "instrument list" where
  "protocol_instruments =
    [new_counter ''jt808_heartbeats_total'' ''Total heartbeat frames received.'',
     new_counter ''jt808_location_reports_total''
       ''Total location reports received (0x0200 + 0x0704 items).'',
     new_counter ''jt808_sos_alarms_total'' ''Total SOS alarm events received.'',
     new_counter ''jt808_decode_errors_total''
       ''Frame decode failures (checksum, short body, TLV parse).'',
     new_counter ''jt808_unknown_messages_total'' ''Frames with unrecognised message IDs.'']"

definition latency_instrument :: instrument where
  "latency_instrument = \<lparr>i_kind = Histogram (map f64_const [1 / 1000, 5 / 1000, 1 / 100, 5 / 100, 1 / 10, 1 / 2, 1]),
     i_name = ''jt808_stream_publish_seconds'', i_help = ''Redis Stream XADD latency in seconds.''\<rparr>"

definition instruments :: "instrument list" where
  "instruments = connection_instruments @ auth_instruments @ protocol_instruments @ [latency_instrument]"

text \<open>The conditions of the registration.\<close>

definition name_start :: "char \<Rightarrow> bool" where
  "name_start c \<longleftrightarrow> c \<in> set ''abcdefghijklmnopqrstuvwxyzABCDEFGHIJKLMNOPQRSTUVWXYZ_:''"

definition valid_name :: "string \<Rightarrow> bool" where
  "valid_name s \<longleftrightarrow> s \<noteq> [] \<and> name_start (hd s) \<and> list_all (\<lambda>c. name_start c \<or> c \<in> set ''0123456789'') s"

fun increasing :: "f64 list \<Rightarrow> bool" where
  "increasing (a # b # bs) = (f64_less a b \<and> increasing (b # bs))"
| "increasing _ = True"

fun valid_kind :: "instrument_kind \<Rightarrow> bool" where
  "valid_kind (CounterVec labels) = (list_all valid_name labels \<and> distinct labels)"
| "valid_kind (Histogram buckets) = increasing buckets"
| "valid_kind _ = True"

text \<open>Registering in a registry that holds these names; \<open>None\<close> is the panic of \<open>MustRegister\<close>.\<close>

fun register_all :: "instrument list \<Rightarrow> string list \<Rightarrow> string list option" where
  "register_all [] taken = Some taken"
| "register_all (i # is) taken =
     (if valid_name (i_name i) \<and> valid_kind (i_kind i) \<and> i_name i \<notin> set taken
      then register_all is (i_name i # taken) else None)"

section \<open>Lemmas\<close>

lemma register_all_Some:
  "register_all is taken = (if list_all (\<lambda>i. valid_name (i_name i) \<and> valid_kind (i_kind i)) is \<and>
       distinct (map i_name is) \<and> set (map i_name is) \<inter> set taken = {}
     then Some (rev (map i_name is) @ taken) else None)"
  by (induction "is" arbitrary: taken) auto

lemma f64_const_less:
  assumes "0 \<le> a" and "a + 1 / 10000 \<le> b" and "b \<le> 1000000000"
  shows "f64_less (f64_const a) (f64_const b)"
proof -
  have b: "0 \<le> b" "a \<le> 1000000000" using assms by linarith+
  have "round_mag a < round_mag b"
    using f64_round_small(2) [OF assms(1) b(2)] f64_round_small(2) [OF b(1) assms(3)] assms(2) by linarith
  then show ?thesis
    using assms(1) b f64_round_small(1) [OF assms(1) b(2)] f64_round_small(1) [OF b(1) assms(3)]
    by (simp add: f64_const_def)
qed

lemma latency_buckets: "increasing (map f64_const [1 / 1000, 5 / 1000, 1 / 100, 5 / 100, 1 / 10, 1 / 2, 1])"
  by (simp add: f64_const_less)

lemmas instrument_lists = instruments_def connection_instruments_def auth_instruments_def protocol_instruments_def
  latency_instrument_def new_gauge_def new_counter_def

text \<open>
  \<open>New\<close> does not panic in the process that calls it once: its instruments are registered beside
  those of the Go runtime and the process, whose names have other prefixes. A second call panics.
\<close>

lemma instrument_names:
  "map i_name instruments =
    [''jt808_connections_active'', ''jt808_connections_total'', ''jt808_frames_received_total'',
     ''jt808_auth_successes_total'', ''jt808_auth_violations_total'', ''jt808_heartbeats_total'',
     ''jt808_location_reports_total'', ''jt808_sos_alarms_total'', ''jt808_decode_errors_total'',
     ''jt808_unknown_messages_total'', ''jt808_stream_publish_seconds'']"
  by (simp add: instrument_lists)

lemma valid_names:
  "list_all valid_name
    [''jt808_connections_active'', ''jt808_connections_total'', ''jt808_frames_received_total'',
     ''jt808_auth_successes_total'', ''jt808_auth_violations_total'', ''jt808_heartbeats_total'',
     ''jt808_location_reports_total'', ''jt808_sos_alarms_total'', ''jt808_decode_errors_total'',
     ''jt808_unknown_messages_total'', ''jt808_stream_publish_seconds'']" "valid_name ''msg_type''"
  by code_simp+

lemma valid_kinds: "list_all (\<lambda>i. valid_kind (i_kind i)) instruments"
  using latency_buckets valid_names(2) by (simp add: instrument_lists)

lemma instruments_valid: "list_all (\<lambda>i. valid_name (i_name i) \<and> valid_kind (i_kind i)) instruments"
  using valid_names(1) [folded instrument_names] valid_kinds by (auto simp: list_all_iff)

lemma instruments_distinct: "distinct (map i_name instruments)"
  by (simp add: instrument_names)

lemma new_registers_once:
  assumes "\<forall>n\<in>set taken. take 6 n \<noteq> ''jt808_''"
  shows "register_all instruments taken = Some (rev (map i_name instruments) @ taken)"
    and "register_all instruments (rev (map i_name instruments) @ taken) = None"
proof -
  have "\<forall>n\<in>set (map i_name instruments). take 6 n = ''jt808_''" by (simp add: instrument_names)
  with assms have "set (map i_name instruments) \<inter> set taken = {}" by blast
  then show "register_all instruments taken = Some (rev (map i_name instruments) @ taken)"
    using instruments_valid instruments_distinct by (simp add: register_all_Some)
  have "instruments \<noteq> []" by (simp add: instrument_lists)
  then show "register_all instruments (rev (map i_name instruments) @ taken) = None"
    unfolding register_all_Some by (cases instruments) auto
qed

end
