(* ===== verification/Lifecycle.thy ===== *)
theory Lifecycle
  imports Connection_Laws
begin

text \<open>
  The server process from its start to its end, \<open>main\<close> of \<open>server/cmd/main.go\<close> and \<open>Run\<close> of
  \<open>server/internal/server/tcp.go\<close>: waiting for Redis and for the database, the signal handler,
  listening, serving (the transition system of \<open>Server\<close>), the cancellation of the context and
  the shutdown. What Redis, the database, the sockets and the signals do is the choice of a step.
\<close>

section \<open>The process\<close>

datatype phase = WaitingRedis | WaitingDatabase | Starting | Serving | Stopping | Exited nat | Killed

datatype handler_state = NoHandler | HandlerSpawned | HandlerReady | HandlerDone

datatype pruner_state = NoPruner | PrunerSpawned | PrunerTicking | PrunerDone

text \<open>
  \<open>p_cancelled\<close> is the state of the context \<open>main\<close> makes, \<open>p_pools\<close> the database pools opened and
  not closed, \<open>p_issued\<close> the commands and pipelines the code has handed to the Redis client, each with
  whether the context handed over with it was done by then. What the client makes of them is not
  part of the model.
\<close>

record process =
  p_phase :: phase
  p_handler :: handler_state
  p_cancelled :: bool
  p_store :: device_store
  p_pools :: nat
  p_waits :: nat
  p_pruner :: pruner_state
  p_listening :: bool
  p_world :: world
  p_issued :: "(bool \<times> redis_cmd list) list"

definition boot :: process where
  "boot = \<lparr>p_phase = WaitingRedis, p_handler = NoHandler, p_cancelled = False, p_store = None,
     p_pools = 0, p_waits = 0, p_pruner = NoPruner, p_listening = False, p_world = empty_world, p_issued = []\<rparr>"

text \<open>Two seconds pass before the next try; a cancelled context ends the process instead.\<close>

definition wait_again :: "process \<Rightarrow> process" where
  "wait_again p = p\<lparr>p_waits := Suc (p_waits p)\<rparr>"

text \<open>After the last wait the components are built and the goroutine of the signals is started.\<close>

definition wired :: "process \<Rightarrow> process" where
  "wired p = p\<lparr>p_phase := Starting, p_handler := HandlerSpawned\<rparr>"

text \<open>\<open>store.New\<close> opens a pool; the one of an earlier round is dropped without being closed.\<close>

definition open_pool :: "process \<Rightarrow> process" where
  "open_pool p = p\<lparr>p_pools := Suc (p_pools p)\<rparr>"

definition start_serving :: "process \<Rightarrow> process" where
  "start_serving p = p\<lparr>p_phase := Serving, p_pruner := PrunerSpawned, p_listening := True\<rparr>"

text \<open>
  What the Redis and database clients return under a context that is done, as documented for both:
  an error.
\<close>

definition cut_off :: "env \<Rightarrow> env" where
  "cut_off e = e\<lparr>redis_get := (\<lambda>_. RedisErr), redis_set_fails := (\<lambda>_ _. True),
     db_select := (\<lambda>_ _. DbErr), db_exec_fails := (\<lambda>_ _. True)\<rparr>"

definition env_in :: "process \<Rightarrow> env \<Rightarrow> env" where
  "env_in p e = (if p_cancelled p then cut_off e else e)"

definition redis_log :: "world \<Rightarrow> redis_cmd list list" where
  "redis_log w = [cs. Redis cs \<leftarrow> events w]"

text \<open>
  The contexts the code passes to its calls: the background one, which is never done, and the one
  that the signal handler cancels. Every method of the registry and of the publisher uses the one it
  is given, also in the goroutine it starts (the publisher with a timeout on top).
\<close>

datatype go_context = Background | ServerContext

fun ctx_done :: "process \<Rightarrow> go_context \<Rightarrow> bool" where
  "ctx_done p Background = False"
| "ctx_done p ServerContext = p_cancelled p"

fun task_context :: "task \<Rightarrow> go_context" where
  "task_context (RunConn addr) = ServerContext"
| "task_context (RegisterPipe sid) = ServerContext"
| "task_context (UnregisterPipe sid) = ServerContext"
| "task_context (HeartbeatPipe sid) = ServerContext"
| "task_context (PublishEvent ev ph payload) = ServerContext"
| "task_context (PublishLocation ph loc) = ServerContext"
| "task_context (CloseAfter d sid) = Background"
| "task_context (AuthTimer sid) = Background"

text \<open>The process goes on in the world \<open>w\<close>; what it issued on the way it issued with context \<open>c\<close>.\<close>

definition in_world :: "go_context \<Rightarrow> world \<Rightarrow> process \<Rightarrow> process" where
  "in_world c w p = p\<lparr>p_world := w,
     p_issued := p_issued p @ map (Pair (ctx_done p c)) (drop (length (redis_log (p_world p))) (redis_log w))\<rparr>"

definition running_server :: "process \<Rightarrow> bool" where
  "running_server p \<longleftrightarrow> p_phase p = Serving \<or> p_phase p = Stopping"

section \<open>The steps\<close>

inductive proc_step :: "config \<Rightarrow> process \<Rightarrow> process \<Rightarrow> bool" for cfg where
  redis_down: "p_phase p = WaitingRedis \<Longrightarrow> proc_step cfg p (wait_again p)"
| redis_up: "p_phase p = WaitingRedis \<Longrightarrow>
     proc_step cfg p (if db_enabled cfg then p\<lparr>p_phase := WaitingDatabase\<rparr> else wired p)"
| open_fails: "p_phase p = WaitingDatabase \<Longrightarrow> proc_step cfg p (wait_again (p\<lparr>p_store := None\<rparr>))"
| ping_fails: "p_phase p = WaitingDatabase \<Longrightarrow>
     proc_step cfg p (wait_again (open_pool (p\<lparr>p_store := Some cfg\<rparr>)))"
| database_up: "p_phase p = WaitingDatabase \<Longrightarrow>
     proc_step cfg p (wired (open_pool (p\<lparr>p_store := Some cfg\<rparr>)))"
| wait_cancelled: "p_phase p \<in> {WaitingRedis, WaitingDatabase} \<Longrightarrow> p_cancelled p \<Longrightarrow>
     proc_step cfg p (p\<lparr>p_phase := Exited 1\<rparr>)"
| killed: "p_phase p \<in> {WaitingRedis, WaitingDatabase, Starting, Serving} \<Longrightarrow>
     p_handler p \<in> {NoHandler, HandlerSpawned} \<Longrightarrow> proc_step cfg p (p\<lparr>p_phase := Killed\<rparr>)"
| notify: "p_phase p \<in> {Starting, Serving} \<Longrightarrow> p_handler p = HandlerSpawned \<Longrightarrow>
     proc_step cfg p (p\<lparr>p_handler := HandlerReady\<rparr>)"
| signal: "p_phase p \<in> {Starting, Serving} \<Longrightarrow> p_handler p = HandlerReady \<Longrightarrow>
     proc_step cfg p (p\<lparr>p_handler := HandlerDone, p_cancelled := True\<rparr>)"
| listen_fails: "p_phase p = Starting \<Longrightarrow> proc_step cfg p (p\<lparr>p_phase := Exited 1\<rparr>)"
| listening: "p_phase p = Starting \<Longrightarrow> proc_step cfg p (start_serving p)"
| ticker: "running_server p \<Longrightarrow> p_pruner p = PrunerSpawned \<Longrightarrow>
     proc_step cfg p (if heartbeat_timeout cfg \<le> 0 then p\<lparr>p_phase := Exited 2\<rparr> else p\<lparr>p_pruner := PrunerTicking\<rparr>)"
| tick: "running_server p \<Longrightarrow> p_pruner p = PrunerTicking \<Longrightarrow>
     proc_step cfg p (in_world ServerContext (prune_stale (env_in p e) cfg (heartbeat_timeout cfg * 2) (p_world p)) p)"
| pruner_done: "running_server p \<Longrightarrow> p_pruner p = PrunerTicking \<Longrightarrow> p_cancelled p \<Longrightarrow>
     proc_step cfg p (p\<lparr>p_pruner := PrunerDone\<rparr>)"
| connected: "p_phase p = Serving \<Longrightarrow> p_listening p \<Longrightarrow>
     proc_step cfg p (in_world ServerContext (accept_conn addr (p_world p)) p)"
| received: "running_server p \<Longrightarrow> sid \<in> set (running (p_world p)) \<Longrightarrow> conn_open (sessions (p_world p) sid) \<Longrightarrow>
     proc_step cfg p (in_world ServerContext (deliver sid bs (p_world p)) p)"
| loop_round: "running_server p \<Longrightarrow> sid \<in> set (running (p_world p)) \<Longrightarrow>
     proc_step cfg p (in_world ServerContext (conn_round (env_in p e) cfg (p_store p) io sid (p_world p)) p)"
| goroutine: "running_server p \<Longrightarrow> t \<in> set (tasks (p_world p)) \<Longrightarrow>
     proc_step cfg p (in_world (task_context t) (exec_task (env_in p e) cfg t
       ((p_world p)\<lparr>tasks := remove1 t (tasks (p_world p))\<rparr>)) p)"
| close_listener: "p_phase p = Serving \<Longrightarrow> p_cancelled p \<Longrightarrow> proc_step cfg p (p\<lparr>p_listening := False\<rparr>)"
| accept_fails: "p_phase p = Serving \<Longrightarrow>
     proc_step cfg p (if p_cancelled p then p\<lparr>p_phase := Stopping\<rparr> else p)"
| http_shut_down: "p_phase p = Stopping \<Longrightarrow> proc_step cfg p (p\<lparr>p_phase := Exited 0\<rparr>)"

inductive_cases proc_stepE: "proc_step cfg p q"

text \<open>The approval store \<open>main\<close> hands to the server.\<close>

definition main_store :: "config \<Rightarrow> device_store" where
  "main_store cfg = (if db_enabled cfg then Some cfg else None)"

section \<open>The invariant of the process\<close>

text \<open>
  What holds in each phase. While it waits the process has no signal handler, so nothing can cancel
  its context; it exits with 0 only after a signal, with 1 before it has served, and with 2 (the
  panic of the ticker) only for an interval that is not positive.
\<close>

definition phase_inv :: "config \<Rightarrow> process \<Rightarrow> bool" where
  "phase_inv cfg p \<longleftrightarrow>
     (case p_phase p of
        WaitingRedis \<Rightarrow> p_handler p = NoHandler \<and> p_store p = None \<and> p_world p = empty_world
      | WaitingDatabase \<Rightarrow> p_handler p = NoHandler \<and> db_enabled cfg \<and> p_world p = empty_world
      | Starting \<Rightarrow> p_store p = main_store cfg \<and> p_world p = empty_world
      | Serving \<Rightarrow> p_store p = main_store cfg
      | Stopping \<Rightarrow> p_store p = main_store cfg \<and> p_cancelled p
      | Exited n \<Rightarrow> n = 0 \<and> p_store p = main_store cfg \<and> p_cancelled p \<or> n = 1 \<and> p_world p = empty_world \<or>
          n = 2 \<and> heartbeat_timeout cfg \<le> 0
      | Killed \<Rightarrow> \<not> p_cancelled p)"

text \<open>The world is one the server's transition system reaches with the store of the configuration.\<close>

definition proc_inv :: "config \<Rightarrow> process \<Rightarrow> bool" where
  "proc_inv cfg p \<longleftrightarrow>
     phase_inv cfg p \<and> (p_cancelled p \<longleftrightarrow> p_handler p = HandlerDone) \<and>
     reachable cfg (main_store cfg) (p_world p) \<and>
     (\<not> p_cancelled p \<longrightarrow> p_issued p = map (Pair False) (redis_log (p_world p)))"

lemmas proc_defs = wait_again_def wired_def open_pool_def start_serving_def in_world_def running_server_def

lemma proc_inv_boot: "proc_inv cfg boot"
  by (simp add: proc_inv_def phase_inv_def boot_def reachable.start redis_log_def empty_world_def [THEN arg_cong [of _ _ events]])

text \<open>Only a running server changes the world, and it does so by steps of the transition system.\<close>

lemma events_grow:
  assumes "server_step cfg st w v"
  shows "\<exists>evs. events v = events w @ evs"
  using assms
proof (cases rule: server_step_cases)
  case (dispatched sid e f bs)
  then show ?thesis
    using frame_dispatch [of sid "w\<lparr>rx := bs\<rparr>" e cfg st f] by (simp add: session_frame_def)
next
  case (task t e)
  then show ?thesis
    by (cases t) (auto simp: auth_timer_fires_def publish_event_def publish_location_def)
qed (auto simp: deliver_def prune_stale_def)

lemma log_grows:
  assumes "server_step cfg st w v"
  shows "redis_log v = redis_log w @ drop (length (redis_log w)) (redis_log v)"
  using events_grow [OF assms] by (auto simp: redis_log_def)

lemma in_world_inv:
  assumes "proc_inv cfg p" and "running_server p" and "server_step cfg (p_store p) (p_world p) w"
  shows "proc_inv cfg (in_world c w p)"
proof -
  have not_done: "\<not> p_cancelled p \<Longrightarrow> \<not> ctx_done p c" by (cases c) simp_all
  have log: "map (Pair False) (redis_log w) = map (Pair False) (redis_log (p_world p)) @
      map (Pair False) (drop (length (redis_log (p_world p))) (redis_log w))"
    by (subst log_grows [OF assms(3)]) simp
  have "p_store p = main_store cfg" using assms(1,2) by (auto simp: proc_inv_def phase_inv_def running_server_def)
  then have "reachable cfg (main_store cfg) w"
    using assms(1,3) reachable.step [of cfg "main_store cfg" "p_world p" w] by (simp add: proc_inv_def)
  with assms(1,2) not_done log show ?thesis by (auto simp: proc_inv_def phase_inv_def in_world_def running_server_def)
qed

lemma proc_inv_step:
  assumes "proc_inv cfg p" and "proc_step cfg p q"
  shows "proc_inv cfg q"
  using assms(2)
proof (cases rule: proc_step.cases)
  case (tick e)
  show ?thesis unfolding tick(1) by (rule in_world_inv [OF assms(1) tick(2) server_step.prune])
next
  case (connected addr)
  then have "running_server p" by (simp add: running_server_def)
  then show ?thesis unfolding connected(1) by (rule in_world_inv [OF assms(1) _ server_step.accept])
next
  case (received sid bs)
  show ?thesis unfolding received(1)
    by (rule in_world_inv [OF assms(1) received(2) server_step.arrive [OF received(3,4)]])
next
  case (loop_round sid e io)
  show ?thesis unfolding loop_round(1)
    by (rule in_world_inv [OF assms(1) loop_round(2) server_step.round [OF loop_round(3)]])
next
  case (goroutine t e)
  show ?thesis unfolding goroutine(1)
    by (rule in_world_inv [OF assms(1) goroutine(2) server_step.task [OF goroutine(3)]])
qed (use assms(1) in \<open>auto simp: proc_inv_def phase_inv_def proc_defs main_store_def\<close>)

interpretation proc: invariant "\<lambda>p. p = boot" "proc_step cfg" "proc_inv cfg" for cfg
  by unfold_locales (simp add: proc_inv_boot, rule proc_inv_step)

text \<open>
  A cancelled context stays cancelled, and whatever the code issues from then on it issues under a
  context that is done: no goroutine that talks to Redis has another one.
\<close>

definition issued_live :: "process \<Rightarrow> redis_cmd list list" where
  "issued_live p = [cs. (dead, cs) \<leftarrow> p_issued p, \<not> dead]"

lemma issued_live_in_world [simp]:
  "issued_live (in_world c w p) = issued_live p @
     (if ctx_done p c then [] else drop (length (redis_log (p_world p))) (redis_log w))"
  by (simp add: issued_live_def in_world_def comp_def)

lemma in_world_fields [simp]:
  "p_world (in_world c w p) = w" "p_phase (in_world c w p) = p_phase p" "p_cancelled (in_world c w p) = p_cancelled p"
  by (simp_all add: in_world_def)

lemma task_silent:
  assumes "task_context t = Background"
  shows "redis_log (exec_task e cfg t w) = redis_log w"
  using assms by (cases t) (simp_all add: redis_log_def auth_timer_fires_def)

lemma cut_step:
  assumes "p_cancelled p" and "proc_step cfg p q"
  shows "p_cancelled q \<and> issued_live q = issued_live p"
  using assms(2)
proof (cases rule: proc_step.cases)
  case (goroutine t e)
  let ?v = "exec_task (env_in p e) cfg t ((p_world p)\<lparr>tasks := remove1 t (tasks (p_world p))\<rparr>)"
  have "redis_log ((p_world p)\<lparr>tasks := ts\<rparr>) = redis_log (p_world p)" for ts by (simp add: redis_log_def)
  then have "task_context t = Background \<Longrightarrow> redis_log ?v = redis_log (p_world p)"
    by (simp add: task_silent)
  then show ?thesis unfolding goroutine(1) using assms(1)
    by (cases "task_context t") simp_all
qed (use assms(1) in \<open>auto simp: wait_again_def wired_def open_pool_def start_serving_def issued_live_def in_world_def\<close>)

interpretation cut: invariant "\<lambda>p. p_cancelled p \<and> issued_live p = r" "proc_step cfg" "\<lambda>p. p_cancelled p \<and> issued_live p = r" for r cfg
  by unfold_locales (use cut_step in blast)+

section \<open>Reaching and leaving the serving phase\<close>

text \<open>A process that serves with all its goroutines in place, before any signal.\<close>

definition at_work :: "config \<Rightarrow> process \<Rightarrow> bool" where
  "at_work cfg p \<longleftrightarrow> p_phase p = Serving \<and> p_handler p = HandlerReady \<and> \<not> p_cancelled p \<and>
     p_store p = main_store cfg \<and> p_pruner p = PrunerTicking \<and> p_listening p"

text \<open>With \<open>k\<close> failed pings the process opens \<open>k\<close> pools more than it uses.\<close>

lemma pings_fail:
  assumes "p_phase p = WaitingDatabase"
  shows "\<exists>q. (proc_step cfg)\<^sup>*\<^sup>* p q \<and> p_phase q = WaitingDatabase \<and> p_handler q = p_handler p \<and>
    p_cancelled q = p_cancelled p \<and> p_world q = p_world p \<and> p_pruner q = p_pruner p \<and> p_pools q = k + p_pools p"
proof (induction k)
  case (Suc k)
  then obtain q where q: "(proc_step cfg)\<^sup>*\<^sup>* p q" "p_phase q = WaitingDatabase" "p_handler q = p_handler p"
    "p_cancelled q = p_cancelled p" "p_world q = p_world p" "p_pruner q = p_pruner p" "p_pools q = k + p_pools p" by blast
  let ?q = "wait_again (open_pool (q\<lparr>p_store := Some cfg\<rparr>))"
  have "(proc_step cfg)\<^sup>*\<^sup>* p ?q" using q(1) ping_fails [OF q(2), of cfg] by (rule rtranclp.rtrancl_into_rtrancl)
  with q show ?case by (intro exI [of _ ?q]) (simp add: proc_defs)
qed (use assms in auto)

lemma reach_starting:
  "\<exists>p. (proc_step cfg)\<^sup>*\<^sup>* boot p \<and> p_phase p = Starting \<and> p_handler p = HandlerSpawned \<and> \<not> p_cancelled p \<and>
     p_store p = main_store cfg \<and> p_world p = empty_world \<and> (db_enabled cfg \<longrightarrow> p_pools p = Suc k)"
proof (cases "db_enabled cfg")
  case True
  let ?w = "boot\<lparr>p_phase := WaitingDatabase\<rparr>"
  have "proc_step cfg boot ?w" using redis_up [of boot cfg] True by (simp add: boot_def)
  moreover obtain q where q: "(proc_step cfg)\<^sup>*\<^sup>* ?w q" "p_phase q = WaitingDatabase" "p_handler q = NoHandler"
    "\<not> p_cancelled q" "p_world q = empty_world" "p_pools q = k"
    using pings_fail [of ?w cfg k] by (auto simp: boot_def)
  moreover have "proc_step cfg q (wired (open_pool (q\<lparr>p_store := Some cfg\<rparr>)))" using q(2) by (rule database_up)
  ultimately have "(proc_step cfg)\<^sup>*\<^sup>* boot (wired (open_pool (q\<lparr>p_store := Some cfg\<rparr>)))"
    by (meson converse_rtranclp_into_rtranclp rtranclp.rtrancl_into_rtrancl)
  with q True show ?thesis
    by (intro exI [of _ "wired (open_pool (q\<lparr>p_store := Some cfg\<rparr>))"]) (simp add: proc_defs main_store_def)
next
  case False
  have "proc_step cfg boot (wired boot)" using redis_up [of boot cfg] False by (simp add: boot_def)
  with False show ?thesis by (intro exI [of _ "wired boot"]) (auto simp: proc_defs boot_def main_store_def)
qed

lemma reach_at_work:
  assumes "0 < heartbeat_timeout cfg"
  shows "\<exists>p. (proc_step cfg)\<^sup>*\<^sup>* boot p \<and> at_work cfg p \<and> p_world p = empty_world \<and> (db_enabled cfg \<longrightarrow> p_pools p = Suc k)"
proof -
  obtain p where p: "(proc_step cfg)\<^sup>*\<^sup>* boot p" "p_phase p = Starting" "p_handler p = HandlerSpawned" "\<not> p_cancelled p"
    "p_store p = main_store cfg" "p_world p = empty_world" "db_enabled cfg \<longrightarrow> p_pools p = Suc k"
    using reach_starting by blast
  let ?q = "start_serving (p\<lparr>p_handler := HandlerReady\<rparr>)"
  have "proc_step cfg p (p\<lparr>p_handler := HandlerReady\<rparr>)" using p(2,3) by (intro notify) simp_all
  moreover have "proc_step cfg (p\<lparr>p_handler := HandlerReady\<rparr>) ?q" using p(2) by (intro listening) simp
  moreover have "proc_step cfg ?q (?q\<lparr>p_pruner := PrunerTicking\<rparr>)"
    using ticker [of ?q cfg] assms by (simp add: proc_defs)
  ultimately have "(proc_step cfg)\<^sup>*\<^sup>* boot (?q\<lparr>p_pruner := PrunerTicking\<rparr>)"
    using p(1) by (meson rtranclp.rtrancl_into_rtrancl)
  with p show ?thesis
    by (intro exI [of _ "?q\<lparr>p_pruner := PrunerTicking\<rparr>"]) (simp add: at_work_def start_serving_def)
qed

text \<open>A process at work makes every step of the server's transition system.\<close>

lemma server_step_lifted:
  assumes "at_work cfg p" and "server_step cfg (main_store cfg) (p_world p) w"
  shows "\<exists>c. proc_step cfg p (in_world c w p)"
proof -
  have p: "running_server p" "p_phase p = Serving" "p_listening p" "p_pruner p = PrunerTicking" "p_store p = main_store cfg"
    "env_in p e = e" for e
    using assms(1) by (simp_all add: at_work_def running_server_def env_in_def)
  show ?thesis using assms(2)
  proof (cases rule: server_step.cases)
    case (accept addr)
    then show ?thesis using connected [OF p(2,3), of cfg addr] by auto
  next
    case (arrive sid bs)
    then show ?thesis using received [OF p(1), of sid cfg bs] by auto
  next
    case (round sid e io)
    then show ?thesis using loop_round [OF p(1), of sid cfg e io] by (auto simp: p)
  next
    case (task t e)
    then show ?thesis using goroutine [OF p(1), of t cfg e] by (auto simp: p)
  next
    case (prune e)
    then show ?thesis using tick [OF p(1,4), of cfg e] by (auto simp: p)
  qed
qed

lemma reachable_lifted:
  assumes "at_work cfg p" and "p_world p = empty_world" and "reachable cfg (main_store cfg) w"
  shows "\<exists>q. (proc_step cfg)\<^sup>*\<^sup>* p q \<and> at_work cfg q \<and> p_world q = w"
  using assms(3)
proof (induction rule: reachable.induct)
  case (step w w')
  then obtain q where q: "(proc_step cfg)\<^sup>*\<^sup>* p q" "at_work cfg q" "p_world q = w" by blast
  then obtain c where "proc_step cfg q (in_world c w' q)" using step.hyps(2) server_step_lifted by blast
  with q show ?case
    by (intro exI [of _ "in_world c w' q"]) (auto simp: in_world_def at_work_def intro: rtranclp.rtrancl_into_rtrancl)
qed (use assms in blast)

text \<open>From a signal it is four steps to the exit, and none of them touches a connection.\<close>

lemma stops:
  assumes "at_work cfg p"
  shows "\<exists>q. (proc_step cfg)\<^sup>*\<^sup>* p q \<and> p_phase q = Exited 0 \<and> p_world q = p_world p"
proof -
  let ?c = "p\<lparr>p_handler := HandlerDone, p_cancelled := True\<rparr>"
  let ?l = "?c\<lparr>p_listening := False\<rparr>"
  let ?s = "?l\<lparr>p_phase := Stopping\<rparr>"
  have "proc_step cfg p ?c" using assms by (intro signal) (simp_all add: at_work_def)
  moreover have "proc_step cfg ?c ?l" using assms by (intro close_listener) (simp_all add: at_work_def)
  moreover have "proc_step cfg ?l ?s" using assms accept_fails [of ?l cfg] by (simp add: at_work_def)
  moreover have "proc_step cfg ?s (?s\<lparr>p_phase := Exited 0\<rparr>)" by (intro http_shut_down) simp
  ultimately have "(proc_step cfg)\<^sup>*\<^sup>* p (?s\<lparr>p_phase := Exited 0\<rparr>)"
    by (meson converse_rtranclp_into_rtranclp rtranclp.rtrancl_refl)
  then show ?thesis by (intro exI [of _ "?s\<lparr>p_phase := Exited 0\<rparr>"]) simp
qed

lemma sample_interval: "0 < heartbeat_timeout sample_config"
  by (simp add: sample_config_def second_def)

text \<open>A cancelled process whose world is any the server reaches.\<close>

lemma reach_cancelled:
  assumes "0 < heartbeat_timeout cfg" and "reachable cfg (main_store cfg) w"
  shows "\<exists>p. (proc_step cfg)\<^sup>*\<^sup>* boot p \<and> p_phase p = Serving \<and> p_cancelled p \<and> p_world p = w \<and>
    p_issued p = map (Pair False) (redis_log w)"
proof -
  obtain p where p: "(proc_step cfg)\<^sup>*\<^sup>* boot p" "at_work cfg p" "p_world p = empty_world"
    using reach_at_work [OF assms(1)] by blast
  obtain q where q: "(proc_step cfg)\<^sup>*\<^sup>* p q" "at_work cfg q" "p_world q = w"
    using reachable_lifted [OF p(2,3) assms(2)] by blast
  have "proc_step cfg q (q\<lparr>p_handler := HandlerDone, p_cancelled := True\<rparr>)"
    using q(2) by (intro signal) (simp_all add: at_work_def)
  with p(1) q(1) have "(proc_step cfg)\<^sup>*\<^sup>* boot (q\<lparr>p_handler := HandlerDone, p_cancelled := True\<rparr>)"
    by (meson rtranclp_trans rtranclp.rtrancl_into_rtrancl)
  moreover have "proc_inv cfg q" using p(1) q(1) proc.everywhere [OF refl] by (meson rtranclp_trans)
  ultimately show ?thesis using q
    by (intro exI [of _ "q\<lparr>p_handler := HandlerDone, p_cancelled := True\<rparr>"]) (simp add: at_work_def proc_inv_def)
qed

section \<open>Properties\<close>

text \<open>
  C9 (the process is the server). Whatever Redis, the database and the signals do, the world of the
  process is at all times one of the server's transition system with the approval store of the
  configuration. A signal while the process waits for Redis or the database kills it, so the
  branches that exit on a cancelled context there are never taken. A process that exits does so
  with 0 only after a signal, with 1 before any connection, and with 2 only for an interval that is
  not positive.
\<close>

theorem process_runs_server:
  assumes "(proc_step cfg)\<^sup>*\<^sup>* boot p"
  shows "reachable cfg (main_store cfg) (p_world p) \<and> (running_server p \<longrightarrow> p_store p = main_store cfg) \<and>
    (p_phase p \<in> {WaitingRedis, WaitingDatabase, Killed} \<longrightarrow> \<not> p_cancelled p) \<and>
    (p_phase p = Exited n \<longrightarrow> n = 0 \<and> p_cancelled p \<or> n = 1 \<and> p_world p = empty_world \<or>
      n = 2 \<and> heartbeat_timeout cfg \<le> 0)"
  using proc.everywhere [OF refl assms] by (auto simp: proc_inv_def phase_inv_def running_server_def)

theorem process_runs_server_witness:
  "\<exists>p. (proc_step sample_config)\<^sup>*\<^sup>* boot p \<and> running (p_world p) = [0] \<and> p_store p = None"
proof -
  have "main_store sample_config = None" by (simp add: main_store_def sample_config_def)
  moreover obtain p where "(proc_step sample_config)\<^sup>*\<^sup>* boot p" "p_phase p = Serving" "p_world p = one_connection"
    using reach_cancelled [OF sample_interval reachable_one] by blast
  ultimately show ?thesis using process_runs_server [of sample_config p 0] by (auto simp: running_server_def)
qed

text \<open>
  C18 (shutdown waits for no connection). The worlds a process can leave behind when it exits with
  status 0 are exactly the worlds the server can be in at all, open connections, unsent replies
  and pending goroutines included.
\<close>

theorem shutdown_waits_for_no_connection:
  assumes "0 < heartbeat_timeout cfg"
  shows "(\<exists>p. (proc_step cfg)\<^sup>*\<^sup>* boot p \<and> p_phase p = Exited 0 \<and> p_world p = w) \<longleftrightarrow>
    reachable cfg (main_store cfg) w"
proof
  assume "\<exists>p. (proc_step cfg)\<^sup>*\<^sup>* boot p \<and> p_phase p = Exited 0 \<and> p_world p = w"
  then obtain p where p: "(proc_step cfg)\<^sup>*\<^sup>* boot p" "p_world p = w" by blast
  show "reachable cfg (main_store cfg) w"
    using proc.everywhere [OF refl p(1)] p(2) by (simp add: proc_inv_def)
next
  assume w: "reachable cfg (main_store cfg) w"
  obtain p where p: "(proc_step cfg)\<^sup>*\<^sup>* boot p" "at_work cfg p" "p_world p = empty_world"
    using reach_at_work [OF assms] by blast
  obtain q where q: "(proc_step cfg)\<^sup>*\<^sup>* p q" "at_work cfg q" "p_world q = w"
    using reachable_lifted [OF p(2,3) w] by blast
  show "\<exists>p. (proc_step cfg)\<^sup>*\<^sup>* boot p \<and> p_phase p = Exited 0 \<and> p_world p = w"
    using stops [OF q(2)] p(1) q(1,3) by (meson rtranclp_trans)
qed

theorem shutdown_waits_for_no_connection_witness:
  "0 < heartbeat_timeout sample_config \<and>
   (\<exists>p. (proc_step sample_config)\<^sup>*\<^sup>* boot p \<and> p_phase p = Exited 0 \<and> running (p_world p) = [0])"
proof -
  have "\<exists>p. (proc_step sample_config)\<^sup>*\<^sup>* boot p \<and> p_phase p = Exited 0 \<and> p_world p = one_connection"
    using shutdown_waits_for_no_connection [OF sample_interval, of one_connection] reachable_one by blast
  then obtain p where "(proc_step sample_config)\<^sup>*\<^sup>* boot p" "p_phase p = Exited 0" "p_world p = one_connection" by blast
  then show ?thesis using sample_interval by (intro conjI exI [of _ p]) simp_all
qed

text \<open>
  What Redis has received, when \<open>sent\<close> says which of the issued pipelines the client sends, and
  whether the commands received show a phone online: its session key has been set and not deleted
  since (it then lives for at most 24 hours), and it has been put among the online devices and not
  been taken out, nor old ones removed from them, since.
\<close>

definition received :: "(bool \<times> redis_cmd list \<Rightarrow> bool) \<Rightarrow> process \<Rightarrow> redis_cmd list" where
  "received sent p = concat (map snd (filter sent (p_issued p)))"

fun key_after :: "string \<Rightarrow> bool \<Rightarrow> redis_cmd \<Rightarrow> bool" where
  "key_after key b (HSet k fs) = (b \<or> k = key)"
| "key_after key b (Del k) = (b \<and> k \<noteq> key)"
| "key_after key b c = b"

fun member_after :: "string \<Rightarrow> string \<Rightarrow> bool \<Rightarrow> redis_cmd \<Rightarrow> bool" where
  "member_after z m b (ZAdd z' score m') = (b \<or> z' = z \<and> m' = m)"
| "member_after z m b (ZRem z' m') = (b \<and> \<not> (z' = z \<and> m' = m))"
| "member_after z m b (ZRemRangeByScore z' score) = (b \<and> z' \<noteq> z)"
| "member_after z m b c = b"

definition shows_online :: "config \<Rightarrow> string \<Rightarrow> redis_cmd list \<Rightarrow> bool" where
  "shows_online cfg ph cmds \<longleftrightarrow>
     foldl (key_after (session_prefix cfg @ ph)) False cmds \<and> foldl (member_after (online_z_key cfg) ph) False cmds"

lemma received_live:
  assumes "\<forall>cs. \<not> sent (True, cs)"
  shows "received sent p = concat (filter (\<lambda>cs. sent (False, cs)) (issued_live p))"
proof -
  have "concat (map snd (filter sent xs)) = concat (filter (\<lambda>cs. sent (False, cs)) [cs. (dead, cs) \<leftarrow> xs, \<not> dead])" for xs
    using assms by (induction xs) auto
  then show ?thesis by (simp add: received_def issued_live_def)
qed

text \<open>A cancelled process that has nothing more to read on a connection cleans it up and exits.\<close>

lemma exits:
  assumes "p_cancelled p" and "running_server p"
  shows "\<exists>q. (proc_step cfg)\<^sup>*\<^sup>* p q \<and> p_phase q = Exited 0 \<and> p_world q = p_world p \<and> p_issued q = p_issued p"
proof -
  have "(proc_step cfg)\<^sup>*\<^sup>* p (p\<lparr>p_phase := Stopping\<rparr>)"
  proof (cases "p_phase p = Serving")
    case True
    then show ?thesis using accept_fails [of p cfg] assms(1) by simp
  next
    case False
    then have "p\<lparr>p_phase := Stopping\<rparr> = p" using assms(2) by (simp add: running_server_def)
    then show ?thesis by simp
  qed
  moreover have "proc_step cfg (p\<lparr>p_phase := Stopping\<rparr>) (p\<lparr>p_phase := Exited 0\<rparr>)"
    using http_shut_down [of "p\<lparr>p_phase := Stopping\<rparr>" cfg] by simp
  ultimately show ?thesis
    by (intro exI [of _ "p\<lparr>p_phase := Exited 0\<rparr>"]) (simp add: rtranclp.rtrancl_into_rtrancl)
qed

lemma cleans_up:
  assumes "running_server p" and "k \<in> set (running (p_world p))" and "rx (p_world p) k = []"
    and "s_phone (sessions (p_world p) k) \<noteq> []"
  shows "\<exists>q. (proc_step cfg)\<^sup>*\<^sup>* p q \<and> p_phase q = p_phase p \<and> p_cancelled q = p_cancelled p \<and>
    k \<notin> set (running (p_world q)) \<and>
    p_issued q = p_issued p @ [(ctx_done p (task_context (UnregisterPipe k)), unregister_pipe cfg (sessions (p_world p) k))]"
proof -
  define w where "w = end_conn k ((p_world p)\<lparr>rx := (rx (p_world p))(k := [])\<rparr>)"
  define v where "v = exec_task undefined cfg (UnregisterPipe k) (w\<lparr>tasks := remove1 (UnregisterPipe k) (tasks w)\<rparr>)"
  let ?r = "in_world ServerContext w p" and ?c = "task_context (UnregisterPipe k)"
  have "conn_round (env_in p e) cfg (p_store p) EOF k (p_world p) = w" for e
    using assms(3) by (simp add: w_def conn_round_def read_frame_def skip_to_flag.simps)
  then have "proc_step cfg p ?r" using loop_round [OF assms(1,2), of cfg undefined EOF] by simp
  moreover have "UnregisterPipe k \<in> set (tasks w)" using assms(4) by (simp add: w_def)
  then have "proc_step cfg ?r (in_world ?c v ?r)"
    using goroutine [of ?r "UnregisterPipe k" cfg undefined] assms(1) by (simp add: running_server_def v_def)
  ultimately have "(proc_step cfg)\<^sup>*\<^sup>* p (in_world ?c v ?r)" by (meson r_into_rtranclp rtranclp.rtrancl_into_rtrancl)
  moreover have "redis_log w = redis_log (p_world p)"
    "redis_log v = redis_log (p_world p) @ [unregister_pipe cfg (sessions (p_world p) k)]"
    by (simp_all add: w_def v_def redis_log_def unregister_pipe_def)
  then have "p_issued (in_world ?c v ?r) = p_issued p @ [(ctx_done p ?c, unregister_pipe cfg (sessions (p_world p) k))]"
    by (simp add: in_world_def)
  moreover have "k \<notin> set (running v)" by (simp add: w_def v_def)
  ultimately show ?thesis by (intro exI [of _ "in_world ?c v ?r"]) simp
qed

text \<open>
  C19 (presence outlives a shutdown). If the Redis client sends nothing under a context that is done,
  a device that Redis shows online when the context is cancelled is shown online ever after, whatever
  the process still does; and the process can clean the device's connection up to the end, its
  pipeline that takes the device offline issued under the cancelled context, and exit with status 0.
\<close>

theorem shutdown_leaves_presence:
  assumes "\<forall>cs. \<not> sent (True, cs)" and "p_cancelled p" and "running_server p"
    and "k \<in> set (running (p_world p))" and "rx (p_world p) k = []" and "s_phone (sessions (p_world p) k) \<noteq> []"
    and "shows_online cfg (s_phone (sessions (p_world p) k)) (received sent p)"
  shows "(\<forall>q. (proc_step cfg)\<^sup>*\<^sup>* p q \<longrightarrow> shows_online cfg (s_phone (sessions (p_world p) k)) (received sent q)) \<and>
    (\<exists>q. (proc_step cfg)\<^sup>*\<^sup>* p q \<and> p_phase q = Exited 0 \<and> k \<notin> set (running (p_world q)) \<and>
       p_issued q = p_issued p @ [(True, [Del (session_prefix cfg @ s_phone (sessions (p_world p) k)),
         ZRem (online_z_key cfg) (s_phone (sessions (p_world p) k))])])"
proof
  have "issued_live q = issued_live p" if "(proc_step cfg)\<^sup>*\<^sup>* p q" for q
    using cut.along [OF that, of "issued_live p"] assms(2) by simp
  then show "\<forall>q. (proc_step cfg)\<^sup>*\<^sup>* p q \<longrightarrow> shows_online cfg (s_phone (sessions (p_world p) k)) (received sent q)"
    using assms(7) unfolding received_live [OF assms(1)] by metis
  obtain r where r: "(proc_step cfg)\<^sup>*\<^sup>* p r" "p_phase r = p_phase p" "p_cancelled r" "k \<notin> set (running (p_world r))"
    "p_issued r = p_issued p @ [(True, unregister_pipe cfg (sessions (p_world p) k))]"
    using cleans_up [OF assms(3-6), of cfg] assms(2) by auto
  then obtain q where "(proc_step cfg)\<^sup>*\<^sup>* r q" "p_phase q = Exited 0" "p_world q = p_world r" "p_issued q = p_issued r"
    using exits [of r cfg] assms(3) unfolding running_server_def by auto
  with r show "\<exists>q. (proc_step cfg)\<^sup>*\<^sup>* p q \<and> p_phase q = Exited 0 \<and> k \<notin> set (running (p_world q)) \<and>
      p_issued q = p_issued p @ [(True, [Del (session_prefix cfg @ s_phone (sessions (p_world p) k)),
        ZRem (online_z_key cfg) (s_phone (sessions (p_world p) k))])]"
    by (intro exI [of _ q]) (auto simp: unregister_pipe_def)
qed

text \<open>The authenticated connection of \<open>reachable_authenticated\<close>, its presence written to Redis.\<close>

lemma reachable_online:
  "\<exists>w. reachable sample_config None w \<and> running w = [0] \<and> s_phone (sessions w 0) = ''12'' \<and> rx w 0 = [] \<and>
     shows_online sample_config ''12'' (concat (redis_log w))"
proof -
  obtain w where w: "reachable sample_config None w" "running w = [0]" "s_phone (sessions w 0) = ''12''" "rx w 0 = []"
    "RegisterPipe 0 \<in> set (tasks w)"
    using reachable_authenticated by blast
  let ?v = "exec_task (sample_env RedisNil) sample_config (RegisterPipe 0) (w\<lparr>tasks := remove1 (RegisterPipe 0) (tasks w)\<rparr>)"
  have "reachable sample_config None ?v" by (intro reachable.step [OF w(1)] server_step.task w(5))
  then show ?thesis using w
    by (intro exI [of _ ?v]) (simp add: redis_log_def shows_online_def register_pipe_def Let_def)
qed

theorem shutdown_leaves_presence_witness:
  "\<exists>p q. (proc_step sample_config)\<^sup>*\<^sup>* boot p \<and> (proc_step sample_config)\<^sup>*\<^sup>* p q \<and> running (p_world p) = [0] \<and>
     0 \<notin> set (running (p_world q)) \<and> p_phase q = Exited 0 \<and> shows_online sample_config ''12'' (received (\<lambda>(dead, cs). \<not> dead) q)"
proof -
  obtain w where w: "reachable sample_config None w" "running w = [0]" "s_phone (sessions w 0) = ''12''" "rx w 0 = []"
    "shows_online sample_config ''12'' (concat (redis_log w))"
    using reachable_online by blast
  have "main_store sample_config = None" by (simp add: main_store_def sample_config_def)
  then obtain p where p: "(proc_step sample_config)\<^sup>*\<^sup>* boot p" "p_phase p = Serving" "p_cancelled p" "p_world p = w"
    "p_issued p = map (Pair False) (redis_log w)"
    using reach_cancelled [OF sample_interval] w(1) by metis
  have "received (\<lambda>(dead, cs). \<not> dead) p = concat (redis_log w)"
    by (simp add: received_def p(5) comp_def filter_map)
  then have "shows_online sample_config (s_phone (sessions (p_world p) 0)) (received (\<lambda>(dead, cs). \<not> dead) p)"
    by (simp add: w(3,5) p(4))
  from shutdown_leaves_presence [OF _ p(3) _ _ _ _ this] p w show ?thesis unfolding running_server_def by fastforce
qed

text \<open>
  C20 (any token at shutdown). Under the cancelled context the token cannot be looked up, and the
  handler lets a device in whose token it cannot look up: an authentication frame that a
  connection has received is accepted whatever its token is.
\<close>

theorem shutdown_accepts_any_token:
  assumes "p_cancelled p" and "running_server p" and "k \<in> set (running (p_world p))"
    and "read_frame io (rx (p_world p) k) = (Inr f, rest)" and "msg_id f = msg_authentication"
  shows "\<exists>q. proc_step cfg p q \<and> s_state (sessions (p_world q) k) = Authenticated"
proof -
  let ?w = "(p_world p)\<lparr>rx := (rx (p_world p))(k := rest)\<rparr>"
  have "token_accepted (cut_off e) cfg f" for e by (simp add: token_accepted_def cut_off_def)
  then have "s_state (sessions (dispatch (cut_off e) cfg (p_store p) k f ?w) k) = Authenticated" for e
    using authenticated_dispatch(2) [OF assms(5), of "cut_off e" cfg "p_store p" k ?w k] by simp
  moreover have "proc_step cfg p (in_world ServerContext (dispatch (cut_off e) cfg (p_store p) k f ?w) p)" for e
    using loop_round [OF assms(2,3), of cfg e io] assms(1,4) by (simp add: conn_round_def env_in_def)
  ultimately show ?thesis by (intro exI [of _ "in_world ServerContext (dispatch (cut_off undefined) cfg (p_store p) k f ?w) p"]) (simp add: in_world_def)
qed

theorem shutdown_accepts_any_token_witness:
  "\<exists>p q. (proc_step sample_config)\<^sup>*\<^sup>* boot p \<and> s_state (sessions (p_world p) 0) = Connected \<and>
     proc_step sample_config p q \<and> s_state (sessions (p_world q) 0) = Authenticated"
proof -
  let ?w = "deliver 0 (encode_frame msg_authentication ''12'' 1 [0x61]) one_connection"
  have "reachable sample_config None ?w"
    by (rule reachable.step [OF reachable_one], rule server_step.arrive) simp_all
  moreover have "main_store sample_config = None" by (simp add: main_store_def sample_config_def)
  ultimately obtain p where p: "(proc_step sample_config)\<^sup>*\<^sup>* boot p" "p_phase p = Serving" "p_cancelled p" "p_world p = ?w"
    using reach_cancelled [OF sample_interval] by metis
  have "\<exists>f. read_frame EOF (rx ?w 0) = (Inr f, []) \<and> msg_id f = msg_authentication"
    using read_frame_written [of "[]" EOF msg_authentication "''12''" 1 "[0x61]" "[]"] by (simp add: deliver_def)
  then obtain f where "read_frame EOF (rx (p_world p) 0) = (Inr f, [])" "msg_id f = msg_authentication" using p(4) by auto
  from shutdown_accepts_any_token [OF p(3) _ _ this, of sample_config] p show ?thesis
    by (auto simp: running_server_def deliver_def)
qed

text \<open>
  With the database enabled the process can come to serve with any positive number of open database
  pools: every ping that fails leaves the pool it was made on open.
\<close>

lemma failed_pings_leak_pools:
  assumes "db_enabled cfg" and "0 < heartbeat_timeout cfg"
  shows "\<exists>p. (proc_step cfg)\<^sup>*\<^sup>* boot p \<and> p_phase p = Serving \<and> p_store p = Some cfg \<and> p_pools p = Suc k"
  using reach_at_work [OF assms(2), of k] assms(1) by (auto simp: at_work_def main_store_def)

end
