(* ===== verification/Programs.thy ===== *)
theory Programs
  imports Server
begin

text \<open>
  The handlers of \<open>server/internal/handler/handler.go\<close>, the clean-up of \<open>server/tcp.go\<close> and the
  methods they call as programs of atomic actions: what a goroutine does under a mutex, with an
  atomic, or in one call of a client is one action, and between two actions any other goroutine may
  run. Run without interruption the programs are the operations of \<open>Handler\<close> and \<open>Server\<close>.
\<close>

section \<open>Programs\<close>

text \<open>
  An action changes the world; how the program goes on depends on what it saw: the answers of the
  outside and the world the action found.
\<close>

datatype 'a prog = Ret 'a | Act "env \<Rightarrow> world \<Rightarrow> world" "env \<Rightarrow> world \<Rightarrow> 'a prog"

primrec run_prog :: "'a prog \<Rightarrow> env \<Rightarrow> world \<Rightarrow> world \<times> 'a" where
  "run_prog (Ret a) = (\<lambda>e w. (w, a))"
| "run_prog (Act g k) = (\<lambda>e w. run_prog (k e w) e (g e w))"

primrec and_then :: "'a prog \<Rightarrow> ('a \<Rightarrow> 'b prog) \<Rightarrow> 'b prog" where
  "and_then (Ret a) = (\<lambda>h. h a)"
| "and_then (Act g k) = (\<lambda>h. Act g (\<lambda>e w. and_then (k e w) h))"

definition change :: "(world \<Rightarrow> world) \<Rightarrow> unit prog" where
  "change g = Act (\<lambda>e. g) (\<lambda>e w. Ret ())"

definition change_at :: "(env \<Rightarrow> world \<Rightarrow> world) \<Rightarrow> unit prog" where
  "change_at g = Act g (\<lambda>e w. Ret ())"

definition ask :: "(env \<Rightarrow> world \<Rightarrow> world \<times> 'a) \<Rightarrow> 'a prog" where
  "ask h = Act (\<lambda>e w. fst (h e w)) (\<lambda>e w. Ret (snd (h e w)))"

definition look :: "(env \<Rightarrow> world \<Rightarrow> 'a) \<Rightarrow> 'a prog" where
  "look h = Act (\<lambda>e w. w) (\<lambda>e w. Ret (h e w))"

text \<open>One after the other, without results.\<close>

fun in_order :: "unit prog list \<Rightarrow> unit prog" where
  "in_order [] = Ret ()"
| "in_order (p # ps) = and_then p (\<lambda>_. in_order ps)"

section \<open>The registry and the store\<close>

text \<open>The critical sections of \<open>Register\<close> and \<open>Unregister\<close>; the goroutine is started after them.\<close>

definition reg_claim :: "nat \<Rightarrow> world \<Rightarrow> world" where
  "reg_claim sid w =
     (let p = s_phone (sessions w sid);
          w = (case table_get p (registry w) of
                 Some old \<Rightarrow> if old \<noteq> sid
                   then (let w = do_close old w in w\<lparr>registry := table_del p (registry w)\<rparr>)
                   else w
               | None \<Rightarrow> w)
      in w\<lparr>registry := table_put p sid (registry w)\<rparr>)"

definition reg_release :: "nat \<Rightarrow> world \<Rightarrow> world" where
  "reg_release sid w =
     (let p = s_phone (sessions w sid)
      in if table_get p (registry w) = Some sid then w\<lparr>registry := table_del p (registry w)\<rparr> else w)"

definition register_prog :: "nat \<Rightarrow> unit prog" where
  "register_prog sid = in_order [change (reg_claim sid), change (spawn (RegisterPipe sid))]"

definition unregister_prog :: "nat \<Rightarrow> unit prog" where
  "unregister_prog sid = and_then (look (\<lambda>e w. s_phone (sessions w sid))) (\<lambda>p.
     if p = [] then Ret () else in_order [change (reg_release sid), change (spawn (UnregisterPipe sid))])"

definition heartbeat_prog :: "nat \<Rightarrow> unit prog" where
  "heartbeat_prog sid = in_order
     [change_at (\<lambda>e. upd_session sid (touch (now_nano e))), change (spawn (HeartbeatPipe sid))]"

text \<open>The lookup and the insertion of the store are two queries.\<close>

definition insert_args :: "env \<Rightarrow> config \<Rightarrow> string \<Rightarrow> string \<Rightarrow> string \<Rightarrow> sql_arg list" where
  "insert_args e cfg bid model devID =
     [SqlInt (db_device_type_id cfg), SqlStr bid, SqlStr (if devID = [] then bid else devID),
      SqlStr (device_notes model devID), SqlStr (now_sql e), SqlStr (now_sql e)]"

definition insert_prog :: "config \<Rightarrow> string \<Rightarrow> string \<Rightarrow> string \<Rightarrow> (check_result \<times> store_error option) prog" where
  "insert_prog cfg bid model devID = ask (\<lambda>e w.
     (emit (SqlExec (insert_device_sql cfg) (insert_args e cfg bid model devID)) w,
      if db_exec_fails e (insert_device_sql cfg) (insert_args e cfg bid model devID)
      then (CheckBlocked, Some (CreateFailed bid)) else (CheckAutoCreated, None)))"

definition check_prog :: "device_store \<Rightarrow> string \<Rightarrow> string \<Rightarrow> string \<Rightarrow> (check_result \<times> store_error option) prog" where
  "check_prog st bid model devID =
     (case st of
        None \<Rightarrow> Ret (CheckApproved, None)
      | Some cfg \<Rightarrow>
          and_then (ask (\<lambda>e w. (emit (SqlQuery (select_status_sql cfg) [SqlStr bid]) w,
            db_select e (select_status_sql cfg) bid))) (\<lambda>row.
          case row of
            Row status \<Rightarrow> Ret (if status = ''blocked'' then CheckBlocked else CheckApproved, None)
          | DbErr \<Rightarrow> Ret (CheckBlocked, Some (LookupFailed bid))
          | NoRows \<Rightarrow> insert_prog cfg bid model devID))"

section \<open>The handlers\<close>

text \<open>The result says whether the write failed.\<close>

definition ack_prog :: "config \<Rightarrow> nat \<Rightarrow> frame \<Rightarrow> u8 \<Rightarrow> bool prog" where
  "ack_prog cfg sid f result = ask (\<lambda>e. do_ack e sid f result (write_timeout cfg))"

definition acked_only :: "config \<Rightarrow> nat \<Rightarrow> frame \<Rightarrow> u8 \<Rightarrow> unit prog" where
  "acked_only cfg sid f result = change_at (\<lambda>e w. fst (do_ack e sid f result (write_timeout cfg) w))"

definition respond :: "config \<Rightarrow> nat \<Rightarrow> bytes \<Rightarrow> unit prog" where
  "respond cfg sid bdy = change_at (\<lambda>e w. fst (do_send e sid msg_registration_resp bdy (write_timeout cfg) w))"

definition handle_heartbeat_prog :: "config \<Rightarrow> device_store \<Rightarrow> nat \<Rightarrow> frame \<Rightarrow> unit prog" where
  "handle_heartbeat_prog cfg st sid f = in_order
     [heartbeat_prog sid,
      acked_only cfg sid f result_ok,
      change (count count_heartbeat),
      change (\<lambda>w. record_heartbeat st (s_phone (sessions w sid)) w),
      change (\<lambda>w. spawn (PublishEvent ''heartbeat'' (s_phone (sessions w sid)) []) w)]"

definition reject_prog :: "config \<Rightarrow> nat \<Rightarrow> frame \<Rightarrow> unit prog" where
  "reject_prog cfg sid f = in_order
     [respond cfg sid (build_registration_ack (seq_num f) reg_terminal_not_in_db []),
      change (spawn (CloseAfter (200 * millisecond) sid))]"

definition accept_prog :: "config \<Rightarrow> nat \<Rightarrow> frame \<Rightarrow> registration_info \<Rightarrow> unit prog" where
  "accept_prog cfg sid f info =
     and_then (change (upd_session sid (\<lambda>s. s\<lparr>s_phone := phone f, s_imei := device_id info\<rparr>))) (\<lambda>_.
     and_then (look (\<lambda>e w. generate_auth_token (now_unix e) (phone f))) (\<lambda>token. in_order
       [change_at (\<lambda>e w. fst (store_auth_token e cfg (phone f) token w)),
        change (upd_session sid (\<lambda>s. s\<lparr>s_token := token\<rparr>)),
        change (upd_session sid (set_state Registered)),
        respond cfg sid (build_registration_ack (seq_num f) reg_success token),
        change (spawn (PublishEvent ''device.registered'' (phone f)
           [(''phone'', PStr (phone f)), (''device_id'', PStr (device_id info)),
            (''device_model'', PStr (device_model info)),
            (''province_id'', PNum (unat (province_id info))),
            (''city_id'', PNum (unat (city_id info)))]))]))"

definition handle_registration_prog :: "config \<Rightarrow> device_store \<Rightarrow> nat \<Rightarrow> frame \<Rightarrow> unit prog" where
  "handle_registration_prog cfg st sid f =
     (case decode_registration (body f) of
        Inl _ \<Rightarrow> acked_only cfg sid f result_msg_error
      | Inr info \<Rightarrow> and_then (check_prog st (phone f) (device_model info) (device_id info)) (\<lambda>(res, err).
          if err \<noteq> None \<or> res = CheckBlocked then reject_prog cfg sid f else accept_prog cfg sid f info))"

definition handle_authentication_prog :: "config \<Rightarrow> nat \<Rightarrow> frame \<Rightarrow> unit prog" where
  "handle_authentication_prog cfg sid f =
     and_then (change (\<lambda>w. if s_phone (sessions w sid) = []
       then upd_session sid (\<lambda>s. s\<lparr>s_phone := phone f\<rparr>) w else w)) (\<lambda>_.
     and_then (ask (\<lambda>e. validate_auth_token e cfg (phone f) (string_of_bytes (body f)))) (\<lambda>res.
     if \<not> (case res of None \<Rightarrow> True | Some v \<Rightarrow> v) then in_order
       [acked_only cfg sid f result_fail,
        change (count count_auth_violation),
        change (spawn (CloseAfter (500 * millisecond) sid))]
     else in_order
       [change (upd_session sid (set_state Authenticated)),
        register_prog sid,
        acked_only cfg sid f result_ok,
        change (count count_auth_success),
        change_at (\<lambda>e w. spawn (PublishEvent ''device.authenticated'' (phone f)
          [(''phone'', PStr (phone f)), (''imei'', PStr (s_imei (sessions w sid))),
           (''addr'', PStr (remote_addr (sessions w sid))),
           (''login_at'', PStr (now_rfc3339 e))]) w)]))"

definition handle_location_prog :: "config \<Rightarrow> nat \<Rightarrow> frame \<Rightarrow> unit prog" where
  "handle_location_prog cfg sid f =
     and_then (ack_prog cfg sid f result_ok) (\<lambda>err.
     if err then Ret ()
     else and_then (look (\<lambda>e w. s_phone (sessions w sid))) (\<lambda>ph.
       let ph = (if ph = [] then phone f else ph)
       in if ph = [] then Ret ()
          else (case decode_location (body f) of
                  Inl _ \<Rightarrow> change (count count_decode_error)
                | Inr loc \<Rightarrow> in_order
                    [change_at (\<lambda>e. upd_session sid (touch_location (now_nano e))),
                     change (count count_location),
                     if has_alarm loc alarm_sos then change (count count_sos) else Ret (),
                     change (spawn (PublishLocation ph loc))])))"

fun batch_prog :: "nat \<Rightarrow> bytes \<Rightarrow> nat \<Rightarrow> nat \<Rightarrow> unit prog" where
  "batch_prog sid bdy offset 0 = Ret ()"
| "batch_prog sid bdy offset (Suc n) =
     (if offset + 2 \<le> length bdy then
        (let itemLen = be16_at bdy offset; offset = offset + 2
         in if length bdy < offset + itemLen then Ret ()
            else
              (let item = slice offset (offset + itemLen) bdy;
                   offset = offset + itemLen
               in case decode_location item of
                    Inl _ \<Rightarrow> and_then (change (count count_decode_error)) (\<lambda>_. batch_prog sid bdy offset n)
                  | Inr loc \<Rightarrow>
                      and_then (change (count count_location)) (\<lambda>_.
                      and_then (change (\<lambda>w. spawn (PublishLocation (s_phone (sessions w sid)) loc) w)) (\<lambda>_.
                      batch_prog sid bdy offset n))))
      else Ret ())"

definition handle_batch_prog :: "config \<Rightarrow> nat \<Rightarrow> frame \<Rightarrow> unit prog" where
  "handle_batch_prog cfg sid f =
     and_then (ack_prog cfg sid f result_ok) (\<lambda>err.
     if err then Ret ()
     else if length (body f) < 3 then Ret ()
     else batch_prog sid (body f) 3 (be16_at (body f) 0))"

definition dispatch_prog :: "config \<Rightarrow> device_store \<Rightarrow> nat \<Rightarrow> frame \<Rightarrow> unit prog" where
  "dispatch_prog cfg st sid f =
     and_then (change (count (count_frame (msg_name (msg_id f))))) (\<lambda>_.
     and_then (look (\<lambda>e w. s_state (sessions w sid))) (\<lambda>state.
       if state < Authenticated \<and> \<not> allowed_before_auth (msg_id f) then acked_only cfg sid f result_ok
       else if msg_id f = msg_heartbeat then handle_heartbeat_prog cfg st sid f
       else if msg_id f = msg_registration then handle_registration_prog cfg st sid f
       else if msg_id f = msg_authentication then handle_authentication_prog cfg sid f
       else if msg_id f = msg_location_report then handle_location_prog cfg sid f
       else if msg_id f = msg_batch_location then handle_batch_prog cfg sid f
       else if msg_id f = msg_terminal_resp then Ret ()
       else if msg_id f = msg_terminal_props then acked_only cfg sid f result_ok
       else if msg_id f = msg_upgrade_result then acked_only cfg sid f result_ok
       else if msg_id f = msg_acc_status_report then acked_only cfg sid f result_ok
       else in_order [change (count count_unknown), acked_only cfg sid f result_ok]))"

section \<open>The clean-up of a connection\<close>

definition end_prog :: "nat \<Rightarrow> unit prog" where
  "end_prog sid = in_order
     [change (\<lambda>w. w\<lparr>tasks := filter (\<lambda>t. t \<noteq> AuthTimer sid) (tasks w)\<rparr>),
      unregister_prog sid,
      change (\<lambda>w. emit (ConnClose sid) (upd_session sid close_conn w)),
      change (\<lambda>w. (count conn_ended w)\<lparr>running := filter (\<lambda>k. k \<noteq> sid) (running w)\<rparr>)]"

section \<open>Programs that run without interruption\<close>

lemma run_and_then [simp]:
  "run_prog (and_then p h) e w = (let (v, a) = run_prog p e w in run_prog (h a) e v)"
proof (induction p arbitrary: w)
  case (Act g k)
  then have "run_prog (and_then (k e w) h) e v = (let (u, a) = run_prog (k e w) e v in run_prog (h a) e u)" for v
    by (metis rangeI)
  then show ?case by simp
qed simp

lemma run_steps [simp]:
  "run_prog (change g) e w = (g w, ())" "run_prog (change_at h) e w = (h e w, ())"
  "run_prog (ask q) e w = q e w" "run_prog (look l) e w = (w, l e w)"
  by (simp_all add: change_def change_at_def ask_def look_def)

lemma run_reg_claim: "spawn (RegisterPipe sid) (reg_claim sid w) = reg_register sid w"
  by (simp add: reg_claim_def reg_register_def Let_def)

lemma run_unregister: "run_prog (unregister_prog sid) e w = (reg_unregister sid w, ())"
  by (simp add: unregister_prog_def reg_release_def reg_unregister_def Let_def)

lemma run_check: "run_prog (check_prog st bid m d) e w = (snd (check_or_create e st bid m d w), fst (check_or_create e st bid m d w))"
  by (simp add: check_prog_def check_or_create_def insert_prog_def insert_args_def Let_def split: option.split select_reply.split)

lemmas prog_defs = register_prog_def heartbeat_prog_def acked_only_def ack_prog_def respond_def

lemma run_heartbeat: "run_prog (handle_heartbeat_prog cfg st sid f) e w = (handle_heartbeat e cfg st sid f w, ())"
  by (simp add: handle_heartbeat_prog_def handle_heartbeat_def prog_defs reg_heartbeat_def Let_def split_beta)

lemma run_registration: "run_prog (handle_registration_prog cfg st sid f) e w = (handle_registration e cfg st sid f w, ())"
  by (auto simp: handle_registration_prog_def handle_registration_def prog_defs run_check reject_prog_def accept_prog_def
      reject_registration_def accept_registration_def Let_def split_beta
      split: sum.split option.split check_result.split prod.split)

lemma run_authentication: "run_prog (handle_authentication_prog cfg sid f) e w = (handle_authentication e cfg sid f w, ())"
  by (simp add: handle_authentication_prog_def handle_authentication_def prog_defs run_reg_claim Let_def split_beta)

lemma run_location: "run_prog (handle_location_prog cfg sid f) e w = (handle_location e cfg sid f w, ())"
  by (simp add: handle_location_prog_def handle_location_def prog_defs Let_def split_beta split: sum.split)

lemma run_batch_loop: "run_prog (batch_prog sid b off n) e w = (batch_loop sid b off n w, ())"
  by (induction n arbitrary: off w) (simp_all add: Let_def split: sum.split)

lemma run_batch: "run_prog (handle_batch_prog cfg sid f) e w = (handle_batch_location e cfg sid f w, ())"
  by (simp add: handle_batch_prog_def handle_batch_location_def prog_defs run_batch_loop Let_def split_beta)

lemmas run_handlers = run_heartbeat run_registration run_authentication run_location run_batch

lemma run_dispatch: "run_prog (dispatch_prog cfg st sid f) e w = (dispatch e cfg st sid f w, ())"
  by (simp add: dispatch_prog_def dispatch_def run_handlers prog_defs Let_def)

lemma run_end: "run_prog (end_prog sid) e w = (end_conn sid w, ())"
  by (simp add: end_prog_def end_conn_def run_unregister Let_def)

end
