(* ===== verification/Interleaving.thy ===== *)
theory Interleaving
  imports Programs Connection_Laws
begin

text \<open>
  The server with its goroutines taken apart: a connection runs the program of a handler action by
  action, the authentication timer looks and closes in two actions, and everything else may happen
  in between. Every step of \<open>server_step\<close> is a run of these steps. What holds in every state is
  shown by rely and guarantee: each program is proved once, against whatever others may do.
\<close>

section \<open>The transition system\<close>

text \<open>
  The program each connection is in the middle of, and the timers that have found their session
  not authenticated and not yet closed it.
\<close>

record fine =
  f_world :: world
  f_conns :: "nat \<Rightarrow> unit prog option"
  f_closing :: "nat list"

definition idle :: "world \<Rightarrow> fine" where
  "idle w = \<lparr>f_world = w, f_conns = (\<lambda>_. None), f_closing = []\<rparr>"

definition at_world :: "world \<Rightarrow> fine \<Rightarrow> fine" where
  "at_world w s = s\<lparr>f_world := w\<rparr>"

definition in_program :: "nat \<Rightarrow> unit prog option \<Rightarrow> fine \<Rightarrow> fine" where
  "in_program sid p s = s\<lparr>f_conns := (f_conns s)(sid := p)\<rparr>"

text \<open>What the loop does with the result of a read: dispatch the frame or leave.\<close>

definition loop_prog :: "config \<Rightarrow> device_store \<Rightarrow> nat \<Rightarrow> read_error + frame \<Rightarrow> unit prog" where
  "loop_prog cfg st sid res = (case res of Inl _ \<Rightarrow> end_prog sid | Inr f \<Rightarrow> dispatch_prog cfg st sid f)"

text \<open>
  Two places stay coarser than the code: the accept loop's two increments and its \<open>go\<close> statement are
  one action, as nothing but a scrape of the metrics can look between them, and \<open>Session.Close\<close>, which
  marks the session and then closes its connection, is one action wherever it is called.
\<close>

inductive fine_step :: "config \<Rightarrow> device_store \<Rightarrow> fine \<Rightarrow> fine \<Rightarrow> bool" for cfg st where
  accept: "fine_step cfg st s (at_world (accept_conn addr (f_world s)) s)"
| arrive: "sid \<in> set (running (f_world s)) \<Longrightarrow> conn_open (sessions (f_world s) sid) \<Longrightarrow>
     fine_step cfg st s (at_world (deliver sid bs (f_world s)) s)"
| read: "sid \<in> set (running (f_world s)) \<Longrightarrow> f_conns s sid = None \<Longrightarrow>
     read_frame io (rx (f_world s) sid) = (res, rest) \<Longrightarrow>
     fine_step cfg st s (in_program sid (Some (loop_prog cfg st sid res))
       (at_world ((f_world s)\<lparr>rx := (rx (f_world s))(sid := rest)\<rparr>) s))"
| action: "f_conns s sid = Some (Act g k) \<Longrightarrow>
     fine_step cfg st s (in_program sid (Some (k e (f_world s))) (at_world (g e (f_world s)) s))"
| finish: "f_conns s sid = Some (Ret u) \<Longrightarrow> fine_step cfg st s (in_program sid None s)"
| timer_looks: "AuthTimer sid \<in> set (tasks (f_world s)) \<Longrightarrow>
     fine_step cfg st s (s\<lparr>f_world := (f_world s)\<lparr>tasks := remove1 (AuthTimer sid) (tasks (f_world s))\<rparr>,
       f_closing := (if s_state (sessions (f_world s) sid) < Authenticated then sid # f_closing s else f_closing s)\<rparr>)"
| timer_closes: "sid \<in> set (f_closing s) \<Longrightarrow>
     fine_step cfg st s (s\<lparr>f_world := do_close sid (f_world s), f_closing := remove1 sid (f_closing s)\<rparr>)"
| task: "t \<in> set (tasks (f_world s)) \<Longrightarrow> (\<And>sid. t \<noteq> AuthTimer sid) \<Longrightarrow>
     fine_step cfg st s (at_world (exec_task e cfg t
       ((f_world s)\<lparr>tasks := remove1 t (tasks (f_world s))\<rparr>)) s)"
| prune: "fine_step cfg st s (at_world (prune_stale e cfg (heartbeat_timeout cfg * 2) (f_world s)) s)"

lemmas fine_defs = at_world_def in_program_def

section \<open>The steps of the server are runs\<close>

lemma program_runs:
  "f_conns s sid = Some p \<Longrightarrow>
     (fine_step cfg st)\<^sup>*\<^sup>* s (in_program sid None (at_world (fst (run_prog p e (f_world s))) s))"
proof (induction p arbitrary: s)
  case (Ret u)
  then show ?case using finish [of s sid u cfg st] by (simp add: at_world_def r_into_rtranclp)
next
  case (Act g k)
  let ?t = "in_program sid (Some (k e (f_world s))) (at_world (g e (f_world s)) s)"
  have "fine_step cfg st s ?t" using Act.prems by (rule action)
  moreover have "(fine_step cfg st)\<^sup>*\<^sup>* ?t (in_program sid None (at_world (fst (run_prog (k e (f_world s)) e (f_world ?t))) ?t))"
    by (rule Act.IH [OF rangeI rangeI]) (simp add: fine_defs)
  ultimately show ?case by (simp add: fine_defs converse_rtranclp_into_rtranclp)
qed

lemma in_idle: "in_program sid None (idle w) = idle w" "at_world w (idle v) = idle w" "f_world (idle w) = w"
  "f_conns (idle w) k = None" "f_closing (idle w) = []"
  by (simp_all add: fine_defs idle_def fun_upd_idem)

lemma server_step_fine:
  assumes "server_step cfg st w w'"
  shows "(fine_step cfg st)\<^sup>*\<^sup>* (idle w) (idle w')"
  using assms
proof (cases rule: server_step.cases)
  case (accept addr)
  then show ?thesis using fine_step.accept [of cfg st "idle w" addr] by (simp add: in_idle r_into_rtranclp)
next
  case (arrive sid bs)
  then show ?thesis using fine_step.arrive [of sid "idle w" cfg st bs] by (simp add: in_idle r_into_rtranclp)
next
  case (round sid e io)
  obtain res rest where r: "read_frame io (rx w sid) = (res, rest)" by fastforce
  let ?v = "w\<lparr>rx := (rx w)(sid := rest)\<rparr>" and ?p = "loop_prog cfg st sid res"
  let ?t = "in_program sid (Some ?p) (idle ?v)"
  have "fine_step cfg st (idle w) ?t"
    using fine_step.read [of sid "idle w" io res rest cfg st] round(2) r by (simp add: in_idle)
  moreover have "(fine_step cfg st)\<^sup>*\<^sup>* ?t (in_program sid None (at_world (fst (run_prog ?p e ?v)) ?t))"
    using program_runs [of ?t sid ?p cfg st e] by (simp add: in_program_def in_idle)
  moreover have "fst (run_prog ?p e ?v) = w'"
    by (simp add: round(1) conn_round_def r loop_prog_def run_dispatch run_end split: sum.split)
  moreover have "in_program sid None (at_world w' ?t) = idle w'"
    by (simp add: fine_defs idle_def fun_upd_idem)
  ultimately show ?thesis by (simp add: converse_rtranclp_into_rtranclp)
next
  case (task t e)
  show ?thesis
  proof (cases "\<exists>sid. t = AuthTimer sid")
    case True
    then obtain sid where t: "t = AuthTimer sid" ..
    let ?v = "w\<lparr>tasks := remove1 t (tasks w)\<rparr>"
    let ?s = "(idle ?v)\<lparr>f_closing := (if s_state (sessions w sid) < Authenticated then [sid] else [])\<rparr>"
    have look: "fine_step cfg st (idle w) ?s"
      using timer_looks [of sid "idle w" cfg st] task(2)
      by (cases "s_state (sessions w sid) < Authenticated") (simp_all add: t idle_def)
    show ?thesis
    proof (cases "s_state (sessions w sid) < Authenticated")
      case True
      then have "fine_step cfg st ?s (idle w')"
        using timer_closes [of sid ?s cfg st] task(1) by (simp add: t idle_def auth_timer_fires_def)
      with look show ?thesis by (meson converse_rtranclp_into_rtranclp r_into_rtranclp)
    next
      case False
      with look task(1) show ?thesis by (simp add: t idle_def auth_timer_fires_def r_into_rtranclp)
    qed
  next
    case False
    then have "fine_step cfg st (idle w) (at_world w' (idle w))"
      using fine_step.task [of t "idle w" cfg st e] task by (simp add: in_idle)
    then show ?thesis by (simp add: in_idle r_into_rtranclp)
  qed
next
  case (prune e)
  then show ?thesis using fine_step.prune [of cfg st "idle w" e] by (simp add: in_idle r_into_rtranclp)
qed

lemma reachable_fine: "reachable cfg st w \<Longrightarrow> (fine_step cfg st)\<^sup>*\<^sup>* (idle empty_world) (idle w)"
  by (induction rule: reachable.induct) (auto intro: server_step_fine rtranclp_trans)


section \<open>What others may do\<close>

text \<open>
  Seen from connection \<open>k\<close>, a step of anybody else may close its session and does not otherwise
  change its state; while the session is authenticated its registry entries stay; it neither writes
  on the connection nor ends it. A calm step of its own is one that does no more to the session.
\<close>

definition calm :: "nat \<Rightarrow> world \<Rightarrow> world \<Rightarrow> bool" where
  "calm k w w' \<longleftrightarrow>
     s_phone (sessions w' k) = s_phone (sessions w k) \<and>
     (s_state (sessions w' k) = s_state (sessions w k) \<or> s_state (sessions w' k) = Closing) \<and>
     (s_state (sessions w' k) = Authenticated \<longrightarrow> (\<forall>p. reg_get p w = Some k \<longrightarrow> reg_get p w' = Some k)) \<and>
     (k \<in> set (running w') \<longleftrightarrow> k \<in> set (running w))"

definition outside :: "nat \<Rightarrow> world \<Rightarrow> world \<Rightarrow> bool" where
  "outside k w w' \<longleftrightarrow> calm k w w' \<and> out_seq (sessions w' k) = out_seq (sessions w k) \<and> wire k w' = wire k w"

definition seq_ok :: "nat \<Rightarrow> world \<Rightarrow> bool" where
  "seq_ok k w \<longleftrightarrow> (\<exists>ms. wire k w = numbered ms \<and> out_seq (sessions w k) = of_nat (length ms))"

text \<open>What a connection guarantees the others by an action of its own.\<close>

definition inside :: "nat \<Rightarrow> world \<Rightarrow> world \<Rightarrow> bool" where
  "inside sid w w' \<longleftrightarrow>
     sid \<in> set (running w) \<and> next_sid w' = next_sid w \<and> (\<forall>k. k \<noteq> sid \<longrightarrow> outside k w w') \<and>
     (conn_inv w \<longrightarrow> conn_inv w') \<and> (seq_ok sid w \<longrightarrow> seq_ok sid w')"

lemma calm_refl: "calm k w w"
  by (simp add: calm_def)

lemma calm_trans: "calm k u v \<Longrightarrow> calm k v w \<Longrightarrow> calm k u w"
  unfolding calm_def by (metis sess_state.distinct(11))

lemma outside_refl: "outside k w w"
  by (simp add: outside_def calm_refl)

lemma outside_trans: "outside k u v \<Longrightarrow> outside k v w \<Longrightarrow> outside k u w"
  unfolding outside_def by (metis calm_trans)

lemma seq_ok_outside: "seq_ok k w \<Longrightarrow> outside k w w' \<Longrightarrow> seq_ok k w'"
  by (simp add: seq_ok_def outside_def)

section \<open>Programs against their surroundings\<close>

text \<open>
  Every action keeps the guarantee whatever others have done before it, and in the end the
  postcondition holds whatever they do after.
\<close>

primrec guarded :: "nat \<Rightarrow> 'a prog \<Rightarrow> ('a \<Rightarrow> world \<Rightarrow> bool) \<Rightarrow> world \<Rightarrow> bool" where
  "guarded sid (Ret a) = (\<lambda>Q w. \<forall>v. outside sid w v \<longrightarrow> Q a v)"
| "guarded sid (Act g k) = (\<lambda>Q w. \<forall>e v. outside sid w v \<longrightarrow>
     inside sid v (g e v) \<and> guarded sid (k e v) Q (g e v))"

lemma guarded_outside:
  "guarded sid p Q w \<Longrightarrow> outside sid w v \<Longrightarrow> guarded sid p Q v"
  by (cases p) (auto intro: outside_trans)

lemma guarded_and_then:
  "guarded sid p (\<lambda>a v. guarded sid (h a) Q v) w \<Longrightarrow> guarded sid (and_then p h) Q w"
proof (induction p arbitrary: w)
  case (Ret a)
  then show ?case by (simp add: outside_refl)
next
  case (Act g k)
  then show ?case by (simp add: rangeI) (metis rangeI)
qed

lemma guarded_mono: "guarded sid p Q w \<Longrightarrow> (\<And>a v. Q a v \<Longrightarrow> Q' a v) \<Longrightarrow> guarded sid p Q' w"
proof (induction p arbitrary: w)
  case (Act g k)
  then show ?case by simp (metis rangeI)
qed simp

text \<open>A program all of whose actions are calm keeps what others cannot destroy.\<close>

primrec calm_prog :: "nat \<Rightarrow> 'a prog \<Rightarrow> bool" where
  "calm_prog sid (Ret a) = True"
| "calm_prog sid (Act g k) = (\<forall>e w. sid \<in> set (running w) \<longrightarrow>
     inside sid w (g e w) \<and> calm sid w (g e w) \<and> calm_prog sid (k e w))"

definition lasting :: "nat \<Rightarrow> (world \<Rightarrow> bool) \<Rightarrow> bool" where
  "lasting sid P \<longleftrightarrow> (\<forall>w v. P w \<longrightarrow> calm sid w v \<longrightarrow> P v) \<and> (\<forall>w. P w \<longrightarrow> sid \<in> set (running w))"

lemma calm_guarded:
  "calm_prog sid p \<Longrightarrow> lasting sid P \<Longrightarrow> P w \<Longrightarrow> guarded sid p (\<lambda>_. P) w"
proof (induction p arbitrary: w)
  case (Ret a)
  then show ?case by (auto simp: lasting_def outside_def)
next
  case (Act g k)
  show ?case unfolding guarded.simps
  proof (intro allI impI)
    fix e v
    assume "outside sid w v"
    then have v: "P v" "sid \<in> set (running v)" using Act.prems(2,3) by (auto simp: lasting_def outside_def)
    then have g: "inside sid v (g e v)" "calm sid v (g e v)" "calm_prog sid (k e v)"
      using Act.prems(1) by simp_all
    then have "P (g e v)" using v Act.prems(2) by (auto simp: lasting_def)
    then have "guarded sid (k e v) (\<lambda>_. P) (g e v)" by (intro Act.IH [OF rangeI rangeI g(3) Act.prems(2)])
    with g(1) show "inside sid v (g e v) \<and> guarded sid (k e v) (\<lambda>_. P) (g e v)" by blast
  qed
qed

lemma calm_and_then: "calm_prog sid p \<Longrightarrow> (\<And>a. calm_prog sid (h a)) \<Longrightarrow> calm_prog sid (and_then p h)"
proof (induction p)
  case (Act g k)
  then show ?case by simp (metis rangeI)
qed simp

lemma calm_in_order: "(\<And>p. p \<in> set ps \<Longrightarrow> calm_prog sid p) \<Longrightarrow> calm_prog sid (in_order ps)"
  by (induction ps) (simp_all add: calm_and_then)

end
