(* ===== verification/Interleaving_Laws.thy ===== *)
theory Interleaving_Laws
  imports Interleaving
begin

text \<open>
  Every program of a connection keeps its guarantee, and what therefore holds in every state of the
  interleaved server; the races of the authentication timer.
\<close>

section \<open>Actions\<close>

lemma wire_append:
  "writes v = writes w @ [ConnWrite sid out d err] \<Longrightarrow> wire k v = wire k w @ (if k = sid then [out] else [])"
  by (simp add: wire_def)

lemma inside_frame:
  assumes "sid \<in> set (running w)" and fr: "session_frame sid w v"
    and reg: "\<And>k p. k \<noteq> sid \<Longrightarrow> s_state (sessions v k) = Authenticated \<Longrightarrow> reg_get p w = Some k \<Longrightarrow> reg_get p v = Some k"
    and wr: "writes v = writes w \<and> out_seq (sessions v sid) = out_seq (sessions w sid) \<or>
      (\<exists>i b d err. writes v = writes w @ [ConnWrite sid (sent_bytes sid i b w) d err] \<and>
         out_seq (sessions v sid) = out_seq (sessions w sid) + 1)"
  shows "inside sid w v"
proof -
  have others: "sessions v k = sessions w k \<or> sessions v k = close_sess (sessions w k)" if "k \<noteq> sid" for k
    using fr that by (simp add: session_frame_def)
  have fields: "running v = running w" "next_sid v = next_sid w" using fr by (simp_all add: session_frame_def)
  have wire: "wire k v = wire k w" if "k \<noteq> sid" for k
    using wr that by (auto simp: wire_def)
  have out: "outside k w v" if "k \<noteq> sid" for k
    using others [OF that] reg [OF that] wire [OF that] fields by (auto simp: outside_def calm_def)
  have "conn_inv v" if "conn_inv w"
    using that conn_inv_frame [OF that fr] assms(1) by (simp add: conn_inv_def)
  moreover have "seq_ok sid v" if sq: "seq_ok sid w"
    using wr
  proof
    assume "writes v = writes w \<and> out_seq (sessions v sid) = out_seq (sessions w sid)"
    then show ?thesis using sq by (simp add: seq_ok_def wire_def)
  next
    assume "\<exists>i b d err. writes v = writes w @ [ConnWrite sid (sent_bytes sid i b w) d err] \<and>
         out_seq (sessions v sid) = out_seq (sessions w sid) + 1"
    then obtain i b d err where s: "writes v = writes w @ [ConnWrite sid (sent_bytes sid i b w) d err]"
      "out_seq (sessions v sid) = out_seq (sessions w sid) + 1" by blast
    obtain ms where ms: "wire sid w = numbered ms" "out_seq (sessions w sid) = of_nat (length ms)"
      using sq by (auto simp: seq_ok_def)
    have "wire sid v = numbered (ms @ [(i, s_phone (sessions w sid), b)])"
      by (simp add: wire_append [OF s(1)] ms(1) numbered_snoc sent_bytes_def next_seq_of_nat [OF ms(2)])
    then show ?thesis unfolding seq_ok_def s(2) ms(2)
      by (intro exI [of _ "ms @ [(i, s_phone (sessions w sid), b)]"]) simp
  qed
  ultimately show ?thesis using assms(1) out fields by (simp add: inside_def)
qed

text \<open>An action that leaves the registry alone and keeps the phone and the state of its session.\<close>

definition calm_act :: "nat \<Rightarrow> (world \<Rightarrow> world) \<Rightarrow> bool" where
  "calm_act sid g \<longleftrightarrow> (\<forall>w. sid \<in> set (running w) \<longrightarrow> inside sid w (g w) \<and> calm sid w (g w))"

named_theorems calm_intros \<open>actions and programs that are calm\<close>

lemma calm_frame:
  assumes "session_frame sid w v" and "registry v = registry w"
    and "s_phone (sessions v sid) = s_phone (sessions w sid)" and "s_state (sessions v sid) = s_state (sessions w sid)"
  shows "calm sid w v"
  using assms reg_get_cong [OF assms(2)] by (simp add: calm_def session_frame_def)

lemma calm_act_upd [calm_intros]:
  assumes "\<And>s. s_phone (h s) = s_phone s" "\<And>s. s_state (h s) = s_state s" "\<And>s. out_seq (h s) = out_seq s"
  shows "calm_act sid (upd_session sid h)"
proof -
  have fr: "session_frame sid w (upd_session sid h w)" for w by (rule frame_upd_session [OF session_frame_refl])
  have "registry (upd_session sid h w) = registry w" for w by simp
  note reg = reg_get_cong [OF this]
  show ?thesis unfolding calm_act_def
    using assms by (auto intro!: inside_frame [OF _ fr] calm_frame [OF fr] simp: reg writes_def)
qed

lemma calm_act_count [calm_intros]:
  assumes "\<And>m. connections_active (g m) = connections_active m" "\<And>m. connections_total (g m) = connections_total m"
  shows "calm_act sid (count g)"
proof -
  have fr: "session_frame sid w (count g w)" for w using assms by (intro frame_count session_frame_refl)
  have "registry (count g w) = registry w" for w by simp
  note reg = reg_get_cong [OF this]
  show ?thesis unfolding calm_act_def by (auto intro!: inside_frame [OF _ fr] calm_frame [OF fr] simp: reg writes_def)
qed

lemma calm_act_spawn_at:
  assumes "\<And>w. task_of sid (t w)"
  shows "calm_act sid (\<lambda>w. spawn (t w) w)"
proof -
  have fr: "session_frame sid w (spawn (t w) w)" for w using assms by (intro frame_spawn session_frame_refl)
  have "registry (spawn (t w) w) = registry w" for w by simp
  note reg = reg_get_cong [OF this]
  show ?thesis unfolding calm_act_def by (auto intro!: inside_frame [OF _ fr] calm_frame [OF fr] simp: reg writes_def)
qed

lemma calm_act_spawn [calm_intros]: "task_of sid t \<Longrightarrow> calm_act sid (spawn t)"
  using calm_act_spawn_at [of sid "\<lambda>_. t"] by simp

lemma calm_act_emit_at:
  assumes "\<And>w. \<not> is_write (ev w)"
  shows "calm_act sid (\<lambda>w. emit (ev w) w)"
proof -
  have fr: "session_frame sid w (emit (ev w) w)" for w by (intro frame_emit session_frame_refl)
  have "registry (emit (ev w) w) = registry w" for w by simp
  note reg = reg_get_cong [OF this]
  show ?thesis unfolding calm_act_def
    using assms by (auto intro!: inside_frame [OF _ fr] calm_frame [OF fr] simp: reg writes_def)
qed

lemma calm_act_emit [calm_intros]: "\<not> is_write ev \<Longrightarrow> calm_act sid (emit ev)"
  using calm_act_emit_at [of "\<lambda>_. ev"] by simp

lemma calm_act_send [calm_intros]: "calm_act sid (\<lambda>w. fst (do_send e sid i b d w))"
proof -
  have fr: "session_frame sid w (fst (do_send e sid i b d w))" for w by (intro frame_do_send session_frame_refl)
  have "registry (fst (do_send e sid i b d w)) = registry w" for w by simp
  note reg = reg_get_cong [OF this]
  have "inside sid w (fst (do_send e sid i b d w))" if "sid \<in> set (running w)" for w
    by (rule inside_frame [OF that fr]) (simp_all add: reg, blast)
  then show ?thesis unfolding calm_act_def by (auto intro!: calm_frame [OF fr])
qed

lemma calm_act_ack [calm_intros]: "calm_act sid (\<lambda>w. fst (do_ack e sid f r d w))"
  by (simp add: do_ack_send calm_act_send)

lemma calm_act_id: "calm_act sid (\<lambda>w. w)"
proof -
  have "upd_session sid (\<lambda>s. s) = (\<lambda>w. w)" by (rule ext) (simp add: upd_session_def)
  then show ?thesis using calm_act_upd [of "\<lambda>s. s" sid] by simp
qed

lemma calm_act_store [calm_intros]:
  "calm_act sid (\<lambda>w. record_heartbeat st (s_phone (sessions w sid)) w)"
  "calm_act sid (\<lambda>w. fst (store_auth_token e cfg p t w))"
  "calm_act sid (\<lambda>w. fst (validate_auth_token e cfg p t w))"
proof -
  show "calm_act sid (\<lambda>w. record_heartbeat st (s_phone (sessions w sid)) w)"
  proof (cases st)
    case None
    then show ?thesis by (simp add: record_heartbeat_def calm_act_id)
  next
    case (Some c)
    then show ?thesis
      using calm_act_emit_at [of "\<lambda>w. SqlExec (heartbeat_sql c) [SqlStr (s_phone (sessions w sid))]" sid]
      by (simp add: record_heartbeat_def)
  qed
qed (simp_all add: store_auth_token_def validate_auth_token_def calm_act_emit)

section \<open>Calm programs\<close>

lemma calm_steps [calm_intros]:
  "calm_act sid g \<Longrightarrow> calm_prog sid (change g)" "(\<And>e. calm_act sid (h e)) \<Longrightarrow> calm_prog sid (change_at h)"
  "(\<And>e. calm_act sid (\<lambda>w. fst (q e w))) \<Longrightarrow> calm_prog sid (ask q)" "calm_prog sid (look l)"
  using calm_act_id [of sid] by (simp_all add: change_def change_at_def ask_def look_def calm_act_def)

lemmas calm_composed = calm_in_order calm_and_then

lemma calm_responses [calm_intros]:
  "calm_prog sid (ack_prog cfg sid f r)" "calm_prog sid (acked_only cfg sid f r)" "calm_prog sid (respond cfg sid b)"
  unfolding prog_defs by (intro calm_intros)+

lemma calm_heartbeat: "calm_prog sid (handle_heartbeat_prog cfg st sid f)"
  unfolding handle_heartbeat_prog_def heartbeat_prog_def
  by (auto intro!: calm_composed calm_intros calm_act_spawn_at simp: count_heartbeat_def)

lemma calm_reject: "calm_prog sid (reject_prog cfg sid f)"
  unfolding reject_prog_def by (auto intro!: calm_composed calm_intros)

lemma calm_check: "calm_prog sid (check_prog st b m d)"
  unfolding check_prog_def insert_prog_def
  by (auto intro!: calm_composed calm_intros split: option.split select_reply.split)

lemma calm_location: "calm_prog sid (handle_location_prog cfg sid f)"
  unfolding handle_location_prog_def Let_def
  by (auto intro!: calm_composed calm_intros simp: count_location_def count_sos_def count_decode_error_def split: sum.split)

lemma calm_batch_loop: "calm_prog sid (batch_prog sid b off n)"
  by (induction n arbitrary: off)
    (auto intro!: calm_and_then calm_intros calm_act_spawn_at simp: Let_def count_location_def count_decode_error_def split: sum.split)

lemma calm_batch: "calm_prog sid (handle_batch_prog cfg sid f)"
  unfolding handle_batch_prog_def by (auto intro!: calm_and_then calm_intros calm_batch_loop)


section \<open>The other programs\<close>

text \<open>
  A session is in order if, authenticated, it is the registered one of its phone; the exception is
  one registered under the empty phone.
\<close>

definition live :: "nat \<Rightarrow> world \<Rightarrow> bool" where
  "live sid w \<longleftrightarrow> (s_state (sessions w sid) = Authenticated \<longrightarrow>
     reg_get (s_phone (sessions w sid)) w = Some sid \<or> reg_get [] w = Some sid)"

definition settled :: "nat \<Rightarrow> world \<Rightarrow> bool" where
  "settled sid w \<longleftrightarrow> (sid \<in> set (running w) \<longrightarrow> live sid w)"

definition here :: "nat \<Rightarrow> world \<Rightarrow> bool" where
  "here sid w \<longleftrightarrow> sid \<in> set (running w)"

definition own :: "nat \<Rightarrow> world \<Rightarrow> bool" where
  "own sid w \<longleftrightarrow> sid \<in> set (running w) \<and> live sid w"

definition unauthenticated :: "nat \<Rightarrow> world \<Rightarrow> bool" where
  "unauthenticated sid w \<longleftrightarrow> sid \<in> set (running w) \<and> s_state (sessions w sid) \<noteq> Authenticated"

lemmas session_predicates = live_def settled_def here_def own_def unauthenticated_def

lemma lasting_predicates: "lasting sid (here sid)" "lasting sid (own sid)" "lasting sid (unauthenticated sid)"
  by (auto simp: lasting_def session_predicates calm_def)

lemma settled_outside: "settled sid w \<Longrightarrow> outside sid w v \<Longrightarrow> settled sid v"
  by (auto simp: settled_def live_def outside_def calm_def)

lemma lasting_outside: "lasting sid P \<Longrightarrow> P w \<Longrightarrow> outside sid w v \<Longrightarrow> P v"
  by (auto simp: lasting_def outside_def)

lemma guarded_seq:
  assumes "guarded sid p (\<lambda>_. P) w" and "\<And>a v. P v \<Longrightarrow> guarded sid (h a) Q v"
  shows "guarded sid (and_then p h) Q w"
  using assms by (intro guarded_and_then guarded_mono [OF assms(1)])

lemma guarded_act:
  assumes "\<And>e v. outside sid w v \<Longrightarrow> inside sid v (g e v) \<and> P (g e v)" and "lasting sid P"
  shows "guarded sid (change_at g) (\<lambda>_. P) w"
  using assms lasting_outside [OF assms(2)] by (auto simp: change_at_def)

lemma change_change_at: "change g = change_at (\<lambda>_. g)"
  by (simp add: change_def change_at_def)

lemma guarded_Ret: "lasting sid P \<Longrightarrow> P w \<Longrightarrow> (\<And>v. P v \<Longrightarrow> Q a v) \<Longrightarrow> guarded sid (Ret a) Q w"
  using lasting_outside [of sid P w] by auto

lemma inside_upd:
  assumes "sid \<in> set (running w)" and "out_seq (h (sessions w sid)) = out_seq (sessions w sid)"
  shows "inside sid w (upd_session sid h w)"
proof -
  have "registry (upd_session sid h w) = registry w" by simp
  note reg = reg_get_cong [OF this]
  show ?thesis
    by (rule inside_frame [OF assms(1) frame_upd_session [OF session_frame_refl]]) (simp_all add: reg assms(2))
qed

lemma inside_refl: "sid \<in> set (running w) \<Longrightarrow> inside sid w w"
  by (simp add: inside_def outside_refl)

lemma reg_claim_fields:
  "reg_get p (reg_claim sid w) = (if p = s_phone (sessions w sid) then Some sid else reg_get p w)"
  "sessions (reg_claim sid w) = sessions (reg_register sid w)" "running (reg_claim sid w) = running w"
  "writes (reg_claim sid w) = writes w" "session_frame sid w (reg_claim sid w)"
proof -
  note run = run_reg_claim [of sid w]
  have "registry (reg_claim sid w) = registry (reg_register sid w)" by (simp flip: run)
  then show "reg_get p (reg_claim sid w) = (if p = s_phone (sessions w sid) then Some sid else reg_get p w)"
    using reg_get_cong reg_register_get by metis
  show s: "sessions (reg_claim sid w) = sessions (reg_register sid w)" "running (reg_claim sid w) = running w"
    "writes (reg_claim sid w) = writes w"
    using reg_register_fields(3) [of sid w] writes_simps(8) [of sid w] by (simp_all flip: run)
  have "session_frame sid w (reg_register sid w)" by (rule frame_reg_register [OF session_frame_refl])
  moreover have "tasks (reg_claim sid w) = tasks w" by (simp add: reg_claim_def Let_def split: option.split)
  ultimately show "session_frame sid w (reg_claim sid w)"
    by (simp add: session_frame_def reg_get_def flip: run)
qed

lemma inside_reg_claim:
  assumes "sid \<in> set (running w)"
  shows "inside sid w (reg_claim sid w)" and "own sid (reg_claim sid w)"
proof -
  have sess: "sessions (reg_claim sid w) k = (if reg_get (s_phone (sessions w sid)) w = Some k \<and> k \<noteq> sid
      then close_sess (sessions w k) else sessions w k)" for k
    by (auto simp: reg_claim_fields reg_register_sessions split: option.split)
  show "inside sid w (reg_claim sid w)"
    by (rule inside_frame [OF assms reg_claim_fields(5)]) (auto simp: sess reg_claim_fields(1,3,4) split: if_splits)
  show "own sid (reg_claim sid w)" using assms by (simp add: own_def live_def sess reg_claim_fields(1,3))
qed

lemma guarded_calm: "calm_prog sid p \<Longrightarrow> lasting sid P \<Longrightarrow> P w \<Longrightarrow> (\<And>v. P v \<Longrightarrow> Q v) \<Longrightarrow> guarded sid p (\<lambda>_. Q) w"
  by (rule guarded_mono [OF calm_guarded])

lemma here_outside: "here sid w \<Longrightarrow> outside sid w v \<Longrightarrow> sid \<in> set (running v)"
  using lasting_outside [OF lasting_predicates(1)] by (simp add: here_def)

lemma guarded_own_update:
  assumes "here sid w" and "\<And>s. out_seq (h s) = out_seq s" and "lasting sid P"
    and "\<And>v. outside sid w v \<Longrightarrow> sid \<in> set (running v) \<Longrightarrow> P (upd_session sid h v)"
  shows "guarded sid (change (upd_session sid h)) (\<lambda>_. P) w"
  unfolding change_change_at
  using assms(2,4) here_outside [OF assms(1)] by (intro guarded_act [OF _ assms(3)]) (auto intro: inside_upd)

lemma own_settled: "own sid v \<Longrightarrow> settled sid v" "unauthenticated sid v \<Longrightarrow> settled sid v" "own sid v \<Longrightarrow> here sid v"
  by (simp_all add: session_predicates)

lemma guarded_own_calm: "calm_prog sid p \<Longrightarrow> own sid w \<Longrightarrow> guarded sid p (\<lambda>_. settled sid) w"
  by (rule guarded_calm [OF _ lasting_predicates(2)]) (simp_all add: own_settled)

text \<open>Single calm actions keep each of the predicates.\<close>

lemma guarded_calm_steps:
  assumes "lasting sid P" and "P w"
  shows "calm_act sid g \<Longrightarrow> guarded sid (change g) (\<lambda>_. P) w"
    and "(\<And>e. calm_act sid (h e)) \<Longrightarrow> guarded sid (change_at h) (\<lambda>_. P) w"
    and "(\<And>e. calm_act sid (\<lambda>w. fst (q e w))) \<Longrightarrow> guarded sid (ask q) (\<lambda>_. P) w"
    and "guarded sid (look l) (\<lambda>_. P) w"
  by (intro calm_guarded [OF _ assms] calm_steps; assumption)+

lemma accept_guarded:
  assumes "here sid w"
  shows "guarded sid (accept_prog cfg sid f info) (\<lambda>_. settled sid) w"
proof -
  have phone: "guarded sid (change (upd_session sid (\<lambda>s. s\<lparr>s_phone := phone f, s_imei := device_id info\<rparr>))) (\<lambda>_. here sid) w"
    using assms by (rule guarded_own_update) (simp_all add: lasting_predicates, simp add: here_def)
  note here = guarded_calm_steps [OF lasting_predicates(1)]
  have token: "guarded sid (change (upd_session sid (\<lambda>s. s\<lparr>s_token := t\<rparr>))) (\<lambda>_. here sid) v" if "here sid v" for t v
    using that by (rule guarded_own_update) (simp_all add: lasting_predicates, simp add: here_def)
  have state: "guarded sid (change (upd_session sid (set_state Registered))) (\<lambda>_. unauthenticated sid) v" if "here sid v" for v
    using that by (rule guarded_own_update) (simp_all add: lasting_predicates, simp add: unauthenticated_def)
  have rest: "calm_prog sid (in_order [respond cfg sid b, change (spawn (PublishEvent ev p x))])" for b ev p x
    by (intro calm_in_order) (auto intro!: calm_intros)
  show ?thesis unfolding accept_prog_def in_order.simps(2) [of "change_at h" for h] in_order.simps(2) [of "change (upd_session sid h)" for h]
    by (intro guarded_seq [OF phone] guarded_seq [OF here(4)] guarded_seq [OF here(2)] guarded_seq [OF token]
        guarded_seq [OF state] guarded_calm [OF rest lasting_predicates(3)] calm_act_store own_settled(2))
qed

lemma registration_guarded:
  assumes "own sid w"
  shows "guarded sid (handle_registration_prog cfg st sid f) (\<lambda>_. settled sid) w"
proof (cases "decode_registration (body f)")
  case (Inl x)
  then show ?thesis
    using guarded_own_calm [OF calm_responses(2) assms] by (simp add: handle_registration_prog_def)
next
  case (Inr info)
  have "guarded sid (case r of (res, err) \<Rightarrow>
      if err \<noteq> None \<or> res = CheckBlocked then reject_prog cfg sid f else accept_prog cfg sid f info)
      (\<lambda>_. settled sid) v" if "own sid v" for r v
    using guarded_own_calm [OF calm_reject that] accept_guarded [OF own_settled(3) [OF that]] by (simp split: prod.split)
  then show ?thesis
    unfolding handle_registration_prog_def Inr sum.case
    by (rule guarded_seq [OF calm_guarded [OF calm_check lasting_predicates(2) assms]])
qed

text \<open>Whoever takes a free phone keeps it: the phone is set, or stays.\<close>

lemma phone_guarded:
  assumes "own sid w"
  shows "guarded sid (change (\<lambda>w. if s_phone (sessions w sid) = []
    then upd_session sid (\<lambda>s. s\<lparr>s_phone := p\<rparr>) w else w)) (\<lambda>_. own sid) w"
  unfolding change_change_at
proof (rule guarded_act [OF _ lasting_predicates(2)])
  fix v
  assume "outside sid w v"
  then have v: "own sid v" using lasting_outside [OF lasting_predicates(2) assms] by blast
  have "registry (upd_session sid (\<lambda>s. s\<lparr>s_phone := p\<rparr>) v) = registry v" by simp
  note reg = reg_get_cong [OF this]
  show "inside sid v (if s_phone (sessions v sid) = [] then upd_session sid (\<lambda>s. s\<lparr>s_phone := p\<rparr>) v else v) \<and>
      own sid (if s_phone (sessions v sid) = [] then upd_session sid (\<lambda>s. s\<lparr>s_phone := p\<rparr>) v else v)"
    using v by (auto simp: own_def live_def reg intro!: inside_upd inside_refl)
qed

lemma register_guarded:
  assumes "here sid w"
  shows "guarded sid (register_prog sid) (\<lambda>_. own sid) w"
proof -
  have claim: "guarded sid (change (reg_claim sid)) (\<lambda>_. own sid) w"
    unfolding change_change_at
    by (rule guarded_act [OF _ lasting_predicates(2)]) (auto intro: inside_reg_claim here_outside [OF assms])
  have start: "guarded sid (change (spawn (RegisterPipe sid))) (\<lambda>_. own sid) v" if "own sid v" for v
    by (rule guarded_calm_steps(1) [OF lasting_predicates(2) that]) (simp add: calm_act_spawn)
  show ?thesis unfolding register_prog_def in_order.simps
    by (intro guarded_seq [OF claim] guarded_seq [OF start] guarded_Ret [OF lasting_predicates(2)])
qed

lemma authentication_guarded:
  assumes "own sid w"
  shows "guarded sid (handle_authentication_prog cfg sid f) (\<lambda>_. settled sid) w"
proof -
  have validate: "guarded sid (ask (\<lambda>e. validate_auth_token e cfg p t)) (\<lambda>_. own sid) v" if "own sid v" for p t v
    by (rule guarded_calm_steps(3) [OF lasting_predicates(2) that]) (rule calm_act_store)
  have refused: "calm_prog sid (in_order [acked_only cfg sid f r, change (count count_auth_violation), change (spawn (CloseAfter d sid))])" for r d
    by (intro calm_in_order) (auto intro!: calm_intros simp: count_auth_violation_def)
  have after: "calm_prog sid (in_order [acked_only cfg sid f r, change (count count_auth_success),
      change_at (\<lambda>e w. spawn (PublishEvent ev p (x e w)) w)])" for r ev p x
    by (intro calm_in_order) (auto intro!: calm_intros calm_act_spawn_at simp: count_auth_success_def)
  have state: "guarded sid (change (upd_session sid (set_state Authenticated))) (\<lambda>_. here sid) v" if "own sid v" for v
    using own_settled(3) [OF that] by (rule guarded_own_update) (simp_all add: lasting_predicates, simp add: here_def)
  have granted: "guarded sid (in_order (change (upd_session sid (set_state Authenticated)) # register_prog sid # ps))
      (\<lambda>_. settled sid) v" if "own sid v" and "calm_prog sid (in_order ps)" for ps v
    unfolding in_order.simps
    by (intro guarded_seq [OF state] guarded_seq [OF register_guarded] guarded_own_calm that)
  show ?thesis unfolding handle_authentication_prog_def
  proof (intro guarded_seq [OF phone_guarded [OF assms]] guarded_seq [OF validate])
  qed (simp_all add: guarded_own_calm [OF refused] granted [OF _ after] del: in_order.simps)
qed

lemma guarded_nothing: "own sid w \<Longrightarrow> guarded sid (Ret u) (\<lambda>_. settled sid) w"
  by (rule guarded_Ret [OF lasting_predicates(2)]) (simp_all add: own_settled)

lemma guarded_if: "(b \<Longrightarrow> guarded sid p Q w) \<Longrightarrow> (\<not> b \<Longrightarrow> guarded sid q Q w) \<Longrightarrow> guarded sid (if b then p else q) Q w"
  by simp

lemma dispatch_guarded:
  assumes "own sid w"
  shows "guarded sid (dispatch_prog cfg st sid f) (\<lambda>_. settled sid) w"
proof -
  have count: "guarded sid (change (count (count_frame l))) (\<lambda>_. own sid) w" for l
    by (rule guarded_calm_steps(1) [OF lasting_predicates(2) assms]) (intro calm_act_count; simp add: count_frame_def)
  have unknown: "calm_prog sid (in_order [change (count count_unknown), acked_only cfg sid f r])" for r
    by (intro calm_in_order) (auto intro!: calm_intros simp: count_unknown_def)
  note plain = guarded_own_calm [OF unknown] guarded_own_calm [OF calm_responses(2)] guarded_own_calm [OF calm_heartbeat]
    guarded_own_calm [OF calm_location] guarded_own_calm [OF calm_batch] registration_guarded authentication_guarded guarded_nothing
  show ?thesis unfolding dispatch_prog_def
    by (intro guarded_seq [OF count] guarded_seq [OF guarded_calm_steps(4) [OF lasting_predicates(2)]] guarded_if plain)
qed


section \<open>The clean-up\<close>

lemma inside_quiet:
  assumes "sid \<in> set (running w)" and "next_sid v = next_sid w"
    and "\<And>k. k \<noteq> sid \<Longrightarrow> k \<in> set (running v) \<longleftrightarrow> k \<in> set (running w)"
    and "\<And>k. k \<noteq> sid \<Longrightarrow> sessions v k = sessions w k" and "out_seq (sessions v sid) = out_seq (sessions w sid)"
    and "\<And>k p. k \<noteq> sid \<Longrightarrow> reg_get p w = Some k \<Longrightarrow> reg_get p v = Some k"
    and "writes v = writes w" and "conn_inv w \<Longrightarrow> conn_inv v"
  shows "inside sid w v"
  using assms by (auto simp: inside_def outside_def calm_def seq_ok_def wire_def)

lemma reg_release_get:
  "reg_get p (reg_release sid w) =
     (if p = s_phone (sessions w sid) \<and> reg_get p w = Some sid then None else reg_get p w)"
  by (auto simp: reg_release_def reg_get_def Let_def table.get_del)

lemma reg_release_fields [simp]:
  "sessions (reg_release sid w) = sessions w" "next_sid (reg_release sid w) = next_sid w"
  "running (reg_release sid w) = running w" "tasks (reg_release sid w) = tasks w"
  "metrics (reg_release sid w) = metrics w" "events (reg_release sid w) = events w"
  by (simp_all add: reg_release_def Let_def)

lemma conn_inv_less: "conn_inv w \<Longrightarrow> sid \<in> set (running w) \<Longrightarrow> sid < next_sid w"
  by (simp add: conn_inv_def)

lemma end_actions:
  assumes "sid \<in> set (running w)"
  shows "inside sid w (w\<lparr>tasks := filter (\<lambda>t. t \<noteq> AuthTimer sid) (tasks w)\<rparr>)"
    and "inside sid w (reg_release sid w)" and "inside sid w (spawn (UnregisterPipe sid) w)"
    and "inside sid w (emit (ConnClose sid) (upd_session sid close_conn w))"
    and "inside sid w ((count conn_ended w)\<lparr>running := filter (\<lambda>k. k \<noteq> sid) (running w)\<rparr>)"
proof -
  note less = conn_inv_less [OF _ assms]
  have f: "length (filter (\<lambda>t. t \<noteq> AuthTimer sid \<and> is_run t) ts) = length (filter is_run ts)" for ts
    by (induction ts) auto
  show "inside sid w (w\<lparr>tasks := filter (\<lambda>t. t \<noteq> AuthTimer sid) (tasks w)\<rparr>)"
    by (rule inside_quiet [OF assms]) (auto simp: conn_inv_def starting_def f)
  have "distinct (map fst (registry w)) \<Longrightarrow> distinct (map fst (registry (reg_release sid w)))"
    by (simp add: reg_release_def Let_def table.ok_del)
  then show "inside sid w (reg_release sid w)"
    by (intro inside_quiet [OF assms]) (auto simp: reg_release_get conn_inv_def starting_def writes_def split: if_splits)
  have "reg_get p (spawn t w) = reg_get p w" for p t by (simp add: reg_get_def)
  then show "inside sid w (spawn (UnregisterPipe sid) w)"
    using less by (intro inside_quiet [OF assms]) (auto simp: conn_inv_def starting_def)
  have "reg_get p (emit (ConnClose sid) (upd_session sid close_conn w)) = reg_get p w" for p by (simp add: reg_get_def)
  then show "inside sid w (emit (ConnClose sid) (upd_session sid close_conn w))"
    by (intro inside_quiet [OF assms]) (auto simp: conn_inv_def starting_def)
  have "reg_get p ((count conn_ended w)\<lparr>running := r\<rparr>) = reg_get p w" for p r by (simp add: reg_get_def)
  moreover have "conn_inv ((count conn_ended w)\<lparr>running := filter (\<lambda>k. k \<noteq> sid) (running w)\<rparr>)" if "conn_inv w"
    using that assms length_without [of "running w" sid] calculation
    by (auto simp: conn_inv_def starting_def conn_ended_def)
  ultimately show "inside sid w ((count conn_ended w)\<lparr>running := filter (\<lambda>k. k \<noteq> sid) (running w)\<rparr>)"
    by (intro inside_quiet [OF assms]) (auto simp: writes_def)
qed

lemma end_guarded:
  assumes "here sid w"
  shows "guarded sid (end_prog sid) (\<lambda>_. settled sid) w"
proof -
  have step: "guarded sid (change g) (\<lambda>_. here sid) v"
    if "here sid v" and "\<And>u. sid \<in> set (running u) \<Longrightarrow> inside sid u (g u)" and "\<And>u. running (g u) = running u" for g v
    unfolding change_change_at using that here_outside [OF that(1)]
    by (intro guarded_act [OF _ lasting_predicates(1)]) (auto simp: here_def)
  note stop = step [OF _ end_actions(1)] and release = step [OF _ end_actions(2)] and start = step [OF _ end_actions(3)]
    and close = step [OF _ end_actions(4)]
  have unregister: "guarded sid (unregister_prog sid) (\<lambda>_. here sid) v" if "here sid v" for v
    unfolding unregister_prog_def in_order.simps
    by (intro guarded_seq [OF guarded_calm_steps(4) [OF lasting_predicates(1) that]] guarded_if
        guarded_seq [OF release] guarded_seq [OF start] guarded_Ret [OF lasting_predicates(1)]) simp_all
  have leave: "guarded sid (change (\<lambda>w. (count conn_ended w)\<lparr>running := filter (\<lambda>k. k \<noteq> sid) (running w)\<rparr>)) (\<lambda>_. settled sid) v"
    if "here sid v" for v
  proof -
    have "settled sid u" if "outside sid ((count conn_ended x)\<lparr>running := filter (\<lambda>k. k \<noteq> sid) (running x)\<rparr>) u" for u x
      using that by (auto simp: settled_def outside_def calm_def)
    then show ?thesis using end_actions(5) [OF here_outside [OF that]] by (auto simp: change_def)
  qed
  show ?thesis unfolding end_prog_def in_order.simps
    by (intro guarded_seq [OF stop] guarded_seq [OF unregister] guarded_seq [OF close] guarded_seq [OF leave] assms)
      (simp_all, auto intro: settled_outside)
qed

section \<open>The invariant of the interleaved server\<close>

definition fine_inv :: "fine \<Rightarrow> bool" where
  "fine_inv s \<longleftrightarrow>
     conn_inv (f_world s) \<and>
     (\<forall>k. if k < next_sid (f_world s) then seq_ok k (f_world s) else wire k (f_world s) = []) \<and>
     (\<forall>k p. f_conns s k = Some p \<longrightarrow> k < next_sid (f_world s) \<and> guarded k p (\<lambda>_. settled k) (f_world s)) \<and>
     (\<forall>k. f_conns s k = None \<longrightarrow> settled k (f_world s))"


lemma fine_invD:
  assumes "fine_inv s"
  shows "conn_inv (f_world s)" and "k < next_sid (f_world s) \<Longrightarrow> seq_ok k (f_world s)"
    and "\<not> k < next_sid (f_world s) \<Longrightarrow> wire k (f_world s) = []"
    and "f_conns s k = Some p \<Longrightarrow> k < next_sid (f_world s)"
    and "f_conns s k = Some p \<Longrightarrow> guarded k p (\<lambda>_. settled k) (f_world s)"
    and "f_conns s k = None \<Longrightarrow> settled k (f_world s)"
  using assms unfolding fine_inv_def by metis+

lemma fine_invI:
  assumes "conn_inv (f_world s)" and "\<And>k. k < next_sid (f_world s) \<Longrightarrow> seq_ok k (f_world s)"
    and "\<And>k. \<not> k < next_sid (f_world s) \<Longrightarrow> wire k (f_world s) = []"
    and "\<And>k p. f_conns s k = Some p \<Longrightarrow> k < next_sid (f_world s)"
    and "\<And>k p. f_conns s k = Some p \<Longrightarrow> guarded k p (\<lambda>_. settled k) (f_world s)"
    and "\<And>k. f_conns s k = None \<Longrightarrow> settled k (f_world s)"
  shows "fine_inv s"
  using assms unfolding fine_inv_def by metis

lemma fine_inv_empty: "fine_inv (idle empty_world)"
  by (simp add: fine_inv_def in_idle wire_def writes_def settled_def)

text \<open>A step of the world that every connection tolerates.\<close>

lemma fine_inv_outside:
  assumes inv: "fine_inv s" and "conn_inv w" and "next_sid w = next_sid (f_world s)" and out: "\<And>k. outside k (f_world s) w"
  shows "fine_inv (s\<lparr>f_world := w, f_closing := c\<rparr>)"
proof (rule fine_invI)
  fix k p
  show "k < next_sid (f_world (s\<lparr>f_world := w, f_closing := c\<rparr>)) \<Longrightarrow> seq_ok k (f_world (s\<lparr>f_world := w, f_closing := c\<rparr>))"
    using assms(3) seq_ok_outside [OF fine_invD(2) [OF inv] out] by simp
  show "\<not> k < next_sid (f_world (s\<lparr>f_world := w, f_closing := c\<rparr>)) \<Longrightarrow> wire k (f_world (s\<lparr>f_world := w, f_closing := c\<rparr>)) = []"
    using assms(3) fine_invD(3) [OF inv, of k] out [of k] by (simp add: outside_def)
  show "f_conns (s\<lparr>f_world := w, f_closing := c\<rparr>) k = Some p \<Longrightarrow> guarded k p (\<lambda>_. settled k) (f_world (s\<lparr>f_world := w, f_closing := c\<rparr>))"
    using guarded_outside [OF fine_invD(5) [OF inv] out] by simp
  show "f_conns (s\<lparr>f_world := w, f_closing := c\<rparr>) k = None \<Longrightarrow> settled k (f_world (s\<lparr>f_world := w, f_closing := c\<rparr>))"
    using settled_outside [OF fine_invD(6) [OF inv] out] by simp
qed (use assms(2,3) fine_invD(4) [OF inv] in simp_all)

text \<open>A step of the connection \<open>sid\<close>, which goes on with the program \<open>q\<close>.\<close>

lemma fine_inv_inside:
  assumes inv: "fine_inv s" and ins: "inside sid (f_world s) w" and q: "guarded sid q (\<lambda>_. settled sid) w"
  shows "fine_inv (in_program sid (Some q) (at_world w s))"
proof -
  have less: "sid < next_sid (f_world s)" "next_sid w = next_sid (f_world s)"
    using conn_inv_less [OF fine_invD(1) [OF inv]] ins by (simp_all add: inside_def)
  have out: "outside k (f_world s) w" if "k \<noteq> sid" for k using ins that by (simp add: inside_def)
  have own: "conn_inv w" "seq_ok sid w" using ins fine_invD(1,2) [OF inv] less by (simp_all add: inside_def)
  let ?t = "in_program sid (Some q) (at_world w s)"
  have t: "f_world ?t = w" "f_conns ?t k = (if k = sid then Some q else f_conns s k)" for k by (simp_all add: fine_defs)
  show ?thesis
  proof (rule fine_invI; unfold t)
    fix k p
    show "k < next_sid w \<Longrightarrow> seq_ok k w"
      using own(2) less(2) seq_ok_outside [OF fine_invD(2) [OF inv] out] by (cases "k = sid") simp_all
    show "\<not> k < next_sid w \<Longrightarrow> wire k w = []"
      using less fine_invD(3) [OF inv, of k] out [of k] by (auto simp: outside_def)
    show "(if k = sid then Some q else f_conns s k) = Some p \<Longrightarrow> k < next_sid w"
      using less fine_invD(4) [OF inv, of k p] by (simp split: if_splits)
    show "guarded k p (\<lambda>_. settled k) w" if p: "(if k = sid then Some q else f_conns s k) = Some p"
    proof (cases "k = sid")
      case True
      with p q show ?thesis by simp
    next
      case False
      with p have "f_conns s k = Some p" by simp
      then show ?thesis by (rule guarded_outside [OF fine_invD(5) [OF inv] out [OF False]])
    qed
    show "(if k = sid then Some q else f_conns s k) = None \<Longrightarrow> settled k w"
      using settled_outside [OF fine_invD(6) [OF inv] out] by (simp split: if_splits)
  qed (rule own(1))
qed

lemma outside_same:
  assumes "\<And>k. s_phone (sessions v k) = s_phone (sessions w k)" "\<And>k. out_seq (sessions v k) = out_seq (sessions w k)"
    and "\<And>k. s_state (sessions v k) = s_state (sessions w k) \<or> s_state (sessions v k) = Closing"
    and "\<And>p. reg_get p v = reg_get p w" "running v = running w" "writes v = writes w"
  shows "outside k w v"
  using assms by (simp add: outside_def calm_def wire_def)

text \<open>A new connection: its session is fresh, and no other is touched.\<close>

lemma fine_inv_start:
  fixes e :: env
  assumes inv: "fine_inv s" and t: "RunConn a \<in> set (tasks (f_world s))"
  defines "v \<equiv> start_conn e a ((f_world s)\<lparr>tasks := remove1 (RunConn a) (tasks (f_world s))\<rparr>)"
  shows "fine_inv (at_world v s)"
proof -
  let ?n = "next_sid (f_world s)"
  have conn: "conn_inv (f_world s)" by (rule fine_invD(1) [OF inv])
  have reg: "reg_get p v = reg_get p (f_world s)" for p unfolding v_def reg_get_def by simp
  have wire: "wire k v = wire k (f_world s)" for k by (simp add: v_def wire_def writes_def)
  have v: "next_sid v = Suc ?n" "running v = running (f_world s) @ [?n]"
    "sessions v = (sessions (f_world s))(?n := new_session a (now_nano e))"
    by (simp_all add: v_def)
  have out: "outside k (f_world s) v" if "k \<noteq> ?n" for k
    using that by (simp add: outside_def calm_def reg wire v)
  have new: "seq_ok ?n v" "settled ?n v"
    using fine_invD(3) [OF inv, of ?n] exI [of "\<lambda>ms. [] = numbered ms \<and> word_of_nat (length ms) = (0 :: u32)" "[]"]
    by (simp_all add: seq_ok_def wire v settled_def live_def)
  have none: "f_conns s ?n = None" using fine_invD(4) [OF inv, of ?n] by (cases "f_conns s ?n") auto
  have a: "f_world (at_world v s) = v" "f_conns (at_world v s) = f_conns s" by (simp_all add: at_world_def)
  show ?thesis
  proof (rule fine_invI; unfold a)
    show "conn_inv v" using conn_inv_task [OF conn t, of e undefined] by (simp add: v_def)
    fix k p
    show "k < next_sid v \<Longrightarrow> seq_ok k v"
      using new(1) seq_ok_outside [OF fine_invD(2) [OF inv] out] by (cases "k = ?n") (auto simp: v)
    show "\<not> k < next_sid v \<Longrightarrow> wire k v = []" using fine_invD(3) [OF inv, of k] by (simp add: wire v)
    show "f_conns s k = Some p \<Longrightarrow> k < next_sid v" using fine_invD(4) [OF inv, of k p] by (simp add: v)
    show "f_conns s k = Some p \<Longrightarrow> guarded k p (\<lambda>_. settled k) v"
      using guarded_outside [OF fine_invD(5) [OF inv] out] none by (metis option.distinct(1))
    show "f_conns s k = None \<Longrightarrow> settled k v"
      using new(2) settled_outside [OF fine_invD(6) [OF inv] out] by metis
  qed
qed

lemma fine_inv_step:
  assumes inv: "fine_inv s" and "fine_step cfg st s t"
  shows "fine_inv t"
proof -
  have conn: "conn_inv (f_world s)" using inv by (simp add: fine_inv_def)
  have at: "at_world w s = s\<lparr>f_world := w, f_closing := f_closing s\<rparr>" for w by (simp add: at_world_def)
  show ?thesis using assms(2)
  proof (cases rule: fine_step.cases)
    case (accept addr)
    have "server_step cfg st (f_world s) (accept_conn addr (f_world s))" by (rule server_step.accept)
    then show ?thesis unfolding accept at
      by (intro fine_inv_outside [OF inv conn_inv_step [OF conn]] outside_same) (simp_all add: reg_get_def writes_def)
  next
    case (arrive sid bs)
    show ?thesis unfolding arrive(1) at deliver_def
      by (intro fine_inv_outside [OF inv] outside_same) (simp_all add: conn)
  next
    case (read sid io res rest)
    let ?s = "at_world ((f_world s)\<lparr>rx := (rx (f_world s))(sid := rest)\<rparr>) s"
    have s: "fine_inv ?s" unfolding at
      by (intro fine_inv_outside [OF inv] outside_same) (simp_all add: conn)
    have "settled sid (f_world ?s)" using read(3) by (intro fine_invD(6) [OF s]) (simp add: at_world_def)
    then have own: "own sid (f_world ?s)" using read(2) by (simp add: at_world_def own_def settled_def)
    then have "guarded sid (loop_prog cfg st sid res) (\<lambda>_. settled sid) (f_world ?s)"
      using dispatch_guarded [OF own] end_guarded [OF own_settled(3) [OF own]] by (simp add: loop_prog_def split: sum.split)
    moreover have "inside sid (f_world ?s) (f_world ?s)" using own by (simp add: own_def inside_refl)
    ultimately have "fine_inv (in_program sid (Some (loop_prog cfg st sid res)) (at_world (f_world ?s) ?s))"
      by (intro fine_inv_inside [OF s])
    then show ?thesis by (simp add: read(1) at_world_def)
  next
    case (action sid g k e)
    have "guarded sid (Act g k) (\<lambda>_. settled sid) (f_world s)" by (rule fine_invD(5) [OF inv action(2)])
    then have "inside sid (f_world s) (g e (f_world s))" "guarded sid (k e (f_world s)) (\<lambda>_. settled sid) (g e (f_world s))"
      using outside_refl by simp_all
    then show ?thesis unfolding action(1) by (rule fine_inv_inside [OF inv])
  next
    case (finish sid u)
    then have "guarded sid (Ret u) (\<lambda>_. settled sid) (f_world s)" by (intro fine_invD(5) [OF inv])
    then have "settled sid (f_world s)" using outside_refl by simp
    then show ?thesis using fine_invD [OF inv] unfolding finish(1)
      by (intro fine_invI) (simp_all add: in_program_def split: if_splits)
  next
    case (timer_looks sid)
    show ?thesis unfolding timer_looks(1)
      by (intro fine_inv_outside [OF inv] outside_same conn_inv_remove_task [OF conn timer_looks(2)]) (simp_all add: timer_looks(2))
  next
    case (timer_closes sid)
    have "conn_inv (do_close sid (f_world s))" using conn by (simp add: conn_inv_def starting_def reg_get_def)
    then show ?thesis unfolding timer_closes(1)
      by (intro fine_inv_outside [OF inv] outside_same) (simp_all add: reg_get_def writes_def)
  next
    case (task t e)
    show ?thesis
    proof (cases "is_run t")
      case True
      then obtain a where "t = RunConn a" by (cases t) auto
      then show ?thesis using fine_inv_start [OF inv] task by simp
    next
      case False
      then have "\<And>a. t \<noteq> RunConn a" by auto
      note eff = exec_task_effect [OF this, where e = e and cfg = cfg]
      show ?thesis unfolding task(1) at
        by (intro fine_inv_outside [OF inv conn_inv_task [OF conn task(2)]] outside_same)
          (simp_all add: eff reg_get_def writes_def [symmetric])
    qed
  next
    case (prune e)
    show ?thesis unfolding prune at
      by (intro fine_inv_outside [OF inv] outside_same)
        (use conn in \<open>simp_all add: prune_stale_def conn_inv_def starting_def reg_get_def\<close>)
  qed
qed

interpretation fine: invariant "\<lambda>s. s = idle empty_world" "fine_step cfg st" fine_inv for cfg st
  by unfold_locales (simp add: fine_inv_empty, rule fine_inv_step)


section \<open>Properties\<close>

text \<open>
  Atomic dispatch is a run of actions. The program of every handler, run without interruption,
  is the handler; every state the server reaches with atomic handlers is reached by its goroutines
  action by action.
\<close>

lemma interleaved_server_includes_atomic:
  "run_prog (dispatch_prog cfg st sid f) e v = (dispatch e cfg st sid f v, ()) \<and>
   run_prog (end_prog sid) e v = (end_conn sid v, ()) \<and>
   (reachable cfg st w \<longrightarrow> (fine_step cfg st)\<^sup>*\<^sup>* (idle empty_world) (idle w))"
  by (simp add: run_dispatch run_end reachable_fine)

text \<open>
  C4 (one live session per phone, under every interleaving). However the goroutines interleave, a
  running authenticated session that is between two frames is the registered one of its phone or the
  one registered under the empty phone, and two such sessions have the same phone only if one of
  them is the one registered under the empty phone.
\<close>

theorem one_session_per_phone_interleaved:
  assumes "(fine_step cfg st)\<^sup>*\<^sup>* (idle empty_world) s"
    and "k \<in> set (running (f_world s))" and "f_conns s k = None" and "s_state (sessions (f_world s) k) = Authenticated"
  shows "Some k \<in> {reg_get (s_phone (sessions (f_world s) k)) (f_world s), reg_get [] (f_world s)} \<and>
    (\<forall>j\<in>set (running (f_world s)). j \<noteq> k \<and> f_conns s j = None \<and> s_state (sessions (f_world s) j) = Authenticated \<and>
       s_phone (sessions (f_world s) j) = s_phone (sessions (f_world s) k) \<longrightarrow>
       reg_get [] (f_world s) \<in> {Some j, Some k})"
proof -
  have inv: "fine_inv s" by (rule fine.everywhere [OF refl assms(1)])
  have "reg_get (s_phone (sessions (f_world s) j)) (f_world s) = Some j \<or> reg_get [] (f_world s) = Some j"
    if "j \<in> set (running (f_world s))" "f_conns s j = None" "s_state (sessions (f_world s) j) = Authenticated" for j
    using fine_invD(6) [OF inv that(2)] that(1,3) by (simp add: settled_def live_def)
  then show ?thesis using assms(2-4) by (metis insertCI option.inject)
qed

theorem one_session_per_phone_interleaved_witness:
  "\<exists>s. (fine_step sample_config None)\<^sup>*\<^sup>* (idle empty_world) s \<and> reg_get ''12'' (f_world s) = Some 0"
proof -
  obtain w where w: "reachable sample_config None w" "running w = [0]" "reg_get [] w = None"
    "s_state (sessions w 0) = Authenticated" "s_phone (sessions w 0) = ''12''"
    using reachable_authenticated by blast
  with one_session_per_phone_interleaved [OF reachable_fine [OF w(1)], of 0] show ?thesis
    using reachable_fine [OF w(1)] by (auto simp: in_idle)
qed

text \<open>
  C15 (sequence numbers, under every interleaving). What has been written on a connection, by all
  handlers, are frames numbered 1, 2, 3 and so on modulo 65536, without gap or repetition, whatever
  runs between the actions of a handler.
\<close>

theorem wire_numbered_interleaved:
  assumes "(fine_step cfg st)\<^sup>*\<^sup>* (idle empty_world) s"
  shows "\<exists>ms. wire k (f_world s) = map (\<lambda>(n, i, p, b). encode_frame i p (of_nat (Suc n)) b) (enumerate 0 ms)"
proof -
  have inv: "fine_inv s" by (rule fine.everywhere [OF refl assms])
  show ?thesis using fine_invD(2,3) [OF inv, of k] numbered_Nil unfolding seq_ok_def numbered_def by metis
qed

theorem wire_numbered_interleaved_witness:
  "\<exists>ms. wire 0 one_connection = map (\<lambda>(n, i, p, b). encode_frame i p (of_nat (Suc n)) b) (enumerate 0 ms)"
  using wire_numbered_interleaved [OF reachable_fine [OF reachable_one [of sample_config None]], of 0] by (simp add: in_idle)

text \<open>
  C12 (connection gauge, under every interleaving). The active-connections gauge is the number of
  connection goroutines that have not ended, so never negative, and the total counts them and the
  ended ones, in the middle of handlers and clean-ups too.
\<close>

theorem gauge_interleaved:
  assumes "(fine_step cfg st)\<^sup>*\<^sup>* (idle empty_world) s"
  shows "connections_active (metrics (f_world s)) = int (length (running (f_world s)) + starting (f_world s)) \<and>
    connections_total (metrics (f_world s)) = next_sid (f_world s) + starting (f_world s) \<and>
    connections_active (metrics (f_world s)) \<le> int (connections_total (metrics (f_world s)))"
proof -
  have inv: "conn_inv (f_world s)" by (rule fine_invD(1) [OF fine.everywhere [OF refl assms]])
  then have "set (running (f_world s)) \<subseteq> {..<next_sid (f_world s)}" by (auto simp: conn_inv_def)
  then have "card (set (running (f_world s))) \<le> next_sid (f_world s)" by (metis card_lessThan card_mono finite_lessThan)
  with inv show ?thesis by (simp add: conn_inv_def distinct_card)
qed

theorem gauge_interleaved_witness: "connections_active (metrics one_connection) = 1"
  using gauge_interleaved [OF reachable_fine [OF reachable_one [of sample_config None]]] by (simp add: in_idle starting_def)

text \<open>
  C30 (the timer closes a session that has authenticated). The authentication timer looks at the
  state and closes the session in two actions: from every state with a silent connection that has
  received a valid authentication, the timer can look and find the session not authenticated, the
  login can then complete, and the timer's second action closes the session that is by now
  authenticated and registered; its entry in the registry stays.
\<close>

theorem timer_closes_authenticated:
  assumes "reachable cfg st w" and "k \<in> set (running w)" and "s_state (sessions w k) = Connected"
    and "read_frame io (rx w k) = (Inr f, rest)" and "msg_id f = msg_authentication" and "token_accepted e cfg f"
  shows "\<exists>looked s t. (fine_step cfg st)\<^sup>*\<^sup>* (idle empty_world) (idle w) \<and> AuthTimer k \<in> set (tasks w) \<and>
    fine_step cfg st (idle w) looked \<and> f_closing looked = [k] \<and>
    f_world looked = w\<lparr>tasks := remove1 (AuthTimer k) (tasks w)\<rparr> \<and>
    (fine_step cfg st)\<^sup>*\<^sup>* looked s \<and> f_conns s k = None \<and> f_closing s = [k] \<and>
    s_state (sessions (f_world s) k) = Authenticated \<and> reg_get (auth_phone k f w) (f_world s) = Some k \<and>
    fine_step cfg st s t \<and> f_closing t = [] \<and> f_world t = do_close k (f_world s) \<and>
    s_state (sessions (f_world t) k) = Closing \<and> \<not> conn_open (sessions (f_world t) k) \<and>
    reg_get (auth_phone k f w) (f_world t) = Some k"
proof -
  have timer: "AuthTimer k \<in> set (tasks w)"
    using reachable_invs(1) [OF assms(1)] assms(2,3) by (simp add: timer_inv_def)
  let ?v = "w\<lparr>tasks := remove1 (AuthTimer k) (tasks w)\<rparr>"
  let ?u = "?v\<lparr>rx := (rx ?v)(k := rest)\<rparr>"
  let ?looked = "(idle ?v)\<lparr>f_closing := [k]\<rparr>"
  let ?read = "in_program k (Some (dispatch_prog cfg st k f)) (at_world ?u ?looked)"
  let ?d = "dispatch e cfg st k f ?u"
  let ?s = "in_program k None (at_world ?d ?read)"
  have "fine_step cfg st (idle w) ?looked"
    using timer_looks [of k "idle w" cfg st] timer assms(3) by (simp add: idle_def less_sess_state_def)
  moreover have "fine_step cfg st ?looked ?read"
    using read [of k ?looked io "Inr f" rest cfg st] assms(2,4) by (simp add: loop_prog_def idle_def)
  moreover have "(fine_step cfg st)\<^sup>*\<^sup>* ?read ?s"
    using program_runs [of ?read k "dispatch_prog cfg st k f" cfg st e] by (simp add: run_dispatch fine_defs)
  ultimately have "fine_step cfg st (idle w) ?looked" "(fine_step cfg st)\<^sup>*\<^sup>* ?looked ?s"
    by (simp_all add: converse_rtranclp_into_rtranclp)
  moreover have "s_state (sessions ?d k) = Authenticated" "reg_get (auth_phone k f w) ?d = Some k"
    using authenticated_dispatch(1,2) [OF assms(5,6), where st = st and sid = k and w = ?u] by (simp_all add: auth_phone_def)
  moreover have "fine_step cfg st ?s (?s\<lparr>f_world := do_close k (f_world ?s), f_closing := remove1 k (f_closing ?s)\<rparr>)"
    by (rule timer_closes) (simp add: fine_defs)
  moreover have "reg_get p (do_close k v) = reg_get p v" for p v by (simp add: reg_get_def)
  ultimately show ?thesis using reachable_fine [OF assms(1)] timer
    by (intro exI [of _ ?looked] exI [of _ ?s]
        exI [of _ "?s\<lparr>f_world := do_close k (f_world ?s), f_closing := remove1 k (f_closing ?s)\<rparr>"])
      (simp add: fine_defs idle_def)
qed

theorem timer_closes_authenticated_witness:
  "\<exists>s t. (fine_step sample_config None)\<^sup>*\<^sup>* (idle empty_world) s \<and> s_state (sessions (f_world s) 0) = Authenticated \<and>
     fine_step sample_config None s t \<and> s_state (sessions (f_world t) 0) = Closing"
proof -
  let ?w = "deliver 0 (encode_frame msg_authentication ''12'' 1 [0x61]) one_connection"
  have w: "reachable sample_config None ?w"
    by (rule reachable.step [OF reachable_one], rule server_step.arrive) simp_all
  have "\<exists>f. read_frame EOF (rx ?w 0) = (Inr f, []) \<and> msg_id f = msg_authentication"
    using read_frame_written [of "[]" EOF msg_authentication "''12''" 1 "[0x61]" "[]"] by (simp add: deliver_def)
  then obtain f where f: "read_frame EOF (rx ?w 0) = (Inr f, [])" "msg_id f = msg_authentication" by blast
  have "token_accepted (sample_env (RedisVal (string_of_bytes (body f)))) sample_config f" by (simp add: token_accepted_def)
  note closes = timer_closes_authenticated [OF w _ _ f this]
  have "0 \<in> set (running ?w)" "s_state (sessions ?w 0) = Connected" by (simp_all add: deliver_def)
  from closes [OF this] obtain l s t where t: "(fine_step sample_config None)\<^sup>*\<^sup>* (idle empty_world) (idle ?w)"
    "fine_step sample_config None (idle ?w) l" "(fine_step sample_config None)\<^sup>*\<^sup>* l s"
    "s_state (sessions (f_world s) 0) = Authenticated" "fine_step sample_config None s t"
    "s_state (sessions (f_world t) 0) = Closing" by blast
  have "(fine_step sample_config None)\<^sup>*\<^sup>* (idle empty_world) s" using t(1-3) by (meson rtranclp_trans r_into_rtranclp)
  with t(4-6) show ?thesis by blast
qed

end
