(* ===== verification/Interleaving_Auth.thy ===== *)
theory Interleaving_Auth
  imports Interleaving_Laws
begin

text \<open>
  Authentication under every interleaving: whatever runs between the actions of the handlers, a
  session is authenticated only after its own connection has read an authentication frame and, while
  handling that frame, Redis has answered the lookup of the frame's phone with the presented token
  or with an error. Runs are kept as the list of the states passed through, so that the claim can
  speak of the steps that led to a state.
\<close>

section \<open>Runs\<close>

definition fine_run :: "config \<Rightarrow> device_store \<Rightarrow> fine list \<Rightarrow> bool" where
  "fine_run cfg st ss \<longleftrightarrow> ss \<noteq> [] \<and> hd ss = idle empty_world \<and> successively (fine_step cfg st) ss"

text \<open>The step in which connection \<open>k\<close> reads the frame \<open>f\<close> and begins to dispatch it.\<close>

definition takes :: "config \<Rightarrow> device_store \<Rightarrow> nat \<Rightarrow> frame \<Rightarrow> fine \<Rightarrow> fine \<Rightarrow> bool" where
  "takes cfg st k f s t \<longleftrightarrow> f_conns s k = None \<and>
     (\<exists>io rest. read_frame io (rx (f_world s) k) = (Inr f, rest) \<and>
        t = in_program k (Some (dispatch_prog cfg st k f)) (at_world ((f_world s)\<lparr>rx := (rx (f_world s))(k := rest)\<rparr>) s))"

text \<open>The step in which connection \<open>k\<close> does its next action, which the outside \<open>e\<close> answers.\<close>

definition acts :: "nat \<Rightarrow> env \<Rightarrow> fine \<Rightarrow> fine \<Rightarrow> bool" where
  "acts k e s t \<longleftrightarrow> (\<exists>g p. f_conns s k = Some (Act g p) \<and>
     t = in_program k (Some (p e (f_world s))) (at_world (g e (f_world s)) s))"

text \<open>What an action adds to the events when it looks up the token of a phone, and the answer.\<close>

definition token_granted :: "config \<Rightarrow> frame \<Rightarrow> env \<Rightarrow> world \<Rightarrow> world \<Rightarrow> bool" where
  "token_granted cfg f e w w' \<longleftrightarrow>
     msg_id f = msg_authentication \<and> token_accepted e cfg f \<and>
     events w' = events w @ [Redis [GetKey (auth_key cfg (phone f))]]"

lemma fine_run_snoc:
  "fine_run cfg st (ss @ [t]) \<longleftrightarrow>
     (if ss = [] then t = idle empty_world else fine_run cfg st ss \<and> fine_step cfg st (last ss) t)"
  by (auto simp: fine_run_def successively_append_iff)

lemma fine_run_reachable: "fine_run cfg st ss \<Longrightarrow> (fine_step cfg st)\<^sup>*\<^sup>* (idle empty_world) (last ss)"
proof (induction ss rule: rev_induct)
  case Nil
  then show ?case by (simp add: fine_run_def)
next
  case (snoc t ss)
  then show ?case by (auto simp: fine_run_snoc split: if_splits)
qed

lemma reachable_fine_run: "(fine_step cfg st)\<^sup>*\<^sup>* (idle empty_world) s \<Longrightarrow> \<exists>ss. fine_run cfg st ss \<and> last ss = s"
proof (induction rule: rtranclp_induct)
  case base
  show ?case by (intro exI [of _ "[idle empty_world]"]) (simp add: fine_run_def)
next
  case (step t u)
  then obtain ss where "fine_run cfg st ss" "last ss = t" by blast
  moreover have "ss \<noteq> []" using calculation(1) by (simp add: fine_run_def)
  ultimately have "fine_run cfg st (ss @ [u])" using step.hyps(2) by (simp add: fine_run_snoc)
  then show ?case by (intro exI [of _ "ss @ [u]"]) simp
qed

lemma fine_run_inv: "fine_run cfg st ss \<Longrightarrow> fine_inv (last ss)"
  using fine.everywhere [OF refl fine_run_reachable] .

section \<open>Programs that earn what they grant\<close>

text \<open>
  No action of the program makes the session authenticated, unless one before it was the granted
  lookup for the frame.
\<close>

primrec earns :: "config \<Rightarrow> nat \<Rightarrow> frame option \<Rightarrow> 'a prog \<Rightarrow> bool" where
  "earns cfg sid fo (Ret a) = True"
| "earns cfg sid fo (Act g k) = (\<forall>e w. sid \<in> set (running w) \<longrightarrow>
     (s_state (sessions (g e w) sid) = Authenticated \<longrightarrow> s_state (sessions w sid) = Authenticated) \<and>
     (earns cfg sid fo (k e w) \<or> (\<exists>f. fo = Some f \<and> token_granted cfg f e w (g e w))))"

lemma calm_earns: "calm_prog sid p \<Longrightarrow> earns cfg sid fo p"
proof (induction p)
  case (Act g k)
  have "earns cfg sid fo (k e w)" if "sid \<in> set (running w)" for e w
    using Act.prems that by (intro Act.IH [OF rangeI rangeI]) simp
  then show ?case using Act.prems by (fastforce simp: calm_def)
qed simp

lemma earns_and_then: "earns cfg sid fo p \<Longrightarrow> (\<And>a. earns cfg sid fo (h a)) \<Longrightarrow> earns cfg sid fo (and_then p h)"
proof (induction p)
  case (Act g k)
  have "earns cfg sid fo (and_then (k e w) h)" if "earns cfg sid fo (k e w)" for e w
    using that Act.prems(2) by (intro Act.IH [OF rangeI rangeI])
  then show ?case using Act.prems(1) by simp blast
qed simp

lemma earns_in_order: "(\<And>p. p \<in> set ps \<Longrightarrow> earns cfg sid fo p) \<Longrightarrow> earns cfg sid fo (in_order ps)"
  by (induction ps) (simp_all add: earns_and_then)

lemma earns_change:
  assumes "\<And>w. s_state (sessions (g w) sid) = Authenticated \<Longrightarrow> s_state (sessions w sid) = Authenticated"
  shows "earns cfg sid fo (change g)"
  using assms by (simp add: change_def)

lemma earns_look: "earns cfg sid fo (look l)"
  by (simp add: look_def)

lemmas earns_composed = earns_in_order earns_and_then earns_look

lemma accept_earns: "earns cfg sid fo (accept_prog c sid f info)"
proof -
  note calm = calm_earns [of sid, where fo = fo and cfg = cfg]
  have store: "earns cfg sid fo (change_at (\<lambda>e w. fst (store_auth_token e c p t w)))" for p t
    by (intro calm calm_steps(2) calm_act_store)
  have rest: "earns cfg sid fo (respond c sid b)" "earns cfg sid fo (change (spawn (PublishEvent ev p x)))" for b ev p x
    by (intro calm calm_responses calm_steps(1) calm_act_spawn; simp)+
  show ?thesis unfolding accept_prog_def
    by (auto intro!: earns_composed earns_change store rest)
qed

lemma registration_earns: "earns cfg sid fo (handle_registration_prog c st sid f)"
  unfolding handle_registration_prog_def
  by (auto intro!: earns_and_then accept_earns calm_earns [OF calm_check] calm_earns [OF calm_reject]
      calm_earns [OF calm_responses(2)] split: sum.split)

text \<open>The lookup is the only way to the branch that grants.\<close>

lemma authentication_earns:
  assumes "msg_id f = msg_authentication"
  shows "earns cfg sid (Some f) (handle_authentication_prog cfg sid f)"
proof -
  note calm = calm_earns [of sid, where fo = "Some f" and cfg = cfg]
  have refused: "earns cfg sid (Some f) (in_order [acked_only cfg sid f result_fail, change (count count_auth_violation),
      change (spawn (CloseAfter d sid))])" for d
    by (intro calm calm_in_order) (auto intro!: calm_intros simp: count_auth_violation_def)
  have phone: "earns cfg sid (Some f) (change (\<lambda>w. if s_phone (sessions w sid) = []
       then upd_session sid (\<lambda>s. s\<lparr>s_phone := phone f\<rparr>) w else w))"
    by (rule earns_change) (simp split: if_splits)
  have lookup: "earns cfg sid (Some f) (and_then (ask (\<lambda>e. validate_auth_token e cfg (phone f) (string_of_bytes (body f))))
      (\<lambda>res. if \<not> (case res of None \<Rightarrow> True | Some v \<Rightarrow> v) then p else q))" if "earns cfg sid (Some f) p" for p q
    using that assms
    by (auto simp: ask_def validate_auth_token_def token_granted_def token_accepted_def split: redis_reply.split)
  show ?thesis unfolding handle_authentication_prog_def
    by (intro earns_and_then phone lookup refused)
qed

lemma earns_if:
  "(b \<Longrightarrow> earns cfg sid fo p) \<Longrightarrow> (\<not> b \<Longrightarrow> earns cfg sid fo q) \<Longrightarrow> earns cfg sid fo (if b then p else q)"
  by simp

lemma earns_Ret: "earns cfg sid fo (Ret u)"
  by simp

lemma dispatch_earns: "earns cfg sid (Some f) (dispatch_prog cfg st sid f)"
proof -
  note calm = calm_earns [of sid, where fo = "Some f" and cfg = cfg]
  have count: "earns cfg sid (Some f) (change (count g))" for g by (rule earns_change) simp
  have unknown: "earns cfg sid (Some f) (in_order [change (count g), acked_only cfg sid f r])" for g r
    by (rule earns_in_order) (auto intro: count calm [OF calm_responses(2)])
  show ?thesis unfolding dispatch_prog_def
    by (intro earns_and_then earns_look earns_if earns_Ret count unknown registration_earns authentication_earns
        calm [OF calm_heartbeat] calm [OF calm_location] calm [OF calm_batch] calm [OF calm_responses(2)])
qed

lemma end_earns: "earns cfg sid fo (end_prog sid)"
  unfolding end_prog_def unregister_prog_def
  by (auto intro!: earns_composed earns_change)


section \<open>Every run\<close>

text \<open>A frame that the connection has read and is still handling.\<close>

definition in_hand :: "config \<Rightarrow> device_store \<Rightarrow> nat \<Rightarrow> frame \<Rightarrow> nat \<Rightarrow> fine list \<Rightarrow> bool" where
  "in_hand cfg st k f i ss \<longleftrightarrow> Suc i < length ss \<and> takes cfg st k f (ss ! i) (ss ! Suc i) \<and>
     (\<forall>l. i < l \<and> l < length ss \<longrightarrow> f_conns (ss ! l) k \<noteq> None)"

definition granted :: "config \<Rightarrow> device_store \<Rightarrow> nat \<Rightarrow> fine list \<Rightarrow> bool" where
  "granted cfg st k ss \<longleftrightarrow> (\<exists>i j f e. i < j \<and> Suc j < length ss \<and> in_hand cfg st k f i (take (Suc j) ss) \<and>
     acts k e (ss ! j) (ss ! Suc j) \<and> token_granted cfg f e (f_world (ss ! j)) (f_world (ss ! Suc j)))"

lemma in_hand_snoc: "in_hand cfg st k f i ss \<Longrightarrow> f_conns t k \<noteq> None \<Longrightarrow> in_hand cfg st k f i (ss @ [t])"
  by (auto simp: in_hand_def nth_append less_Suc_eq)

lemma granted_snoc: "granted cfg st k ss \<Longrightarrow> granted cfg st k (ss @ [t])"
proof -
  assume "granted cfg st k ss"
  then obtain i j f e where g: "i < j" "Suc j < length ss" "in_hand cfg st k f i (take (Suc j) ss)"
    "acts k e (ss ! j) (ss ! Suc j)" "token_granted cfg f e (f_world (ss ! j)) (f_world (ss ! Suc j))"
    unfolding granted_def by blast
  then show ?thesis unfolding granted_def
    by (intro exI [of _ i] exI [of _ j] exI [of _ f] exI [of _ e]) (simp add: nth_append)
qed

lemma granted_now:
  assumes "in_hand cfg st k f i ss" and "ss \<noteq> []" and "acts k e (last ss) t"
    and "token_granted cfg f e (f_world (last ss)) (f_world t)"
  shows "granted cfg st k (ss @ [t])"
proof -
  obtain j where j: "length ss = Suc j" using assms(2) by (cases ss) auto
  have "i < j" "(ss @ [t]) ! j = last ss" "(ss @ [t]) ! Suc j = t"
    using assms(1,2) j by (simp_all add: in_hand_def nth_append last_conv_nth)
  with assms j show ?thesis unfolding granted_def
    by (intro exI [of _ i] exI [of _ j] exI [of _ f] exI [of _ e]) simp
qed

text \<open>What a step does to the connection \<open>k\<close>.\<close>

lemma step_of_connection:
  assumes inv: "fine_inv s" and "fine_step cfg st s t"
  obtains (kept) "s_state (sessions (f_world t) k) = Authenticated \<Longrightarrow> s_state (sessions (f_world s) k) = Authenticated"
      "f_conns t k = f_conns s k"
    | (reads) f where "takes cfg st k f s t" "sessions (f_world t) = sessions (f_world s)"
    | (leaves) "f_conns t k = Some (end_prog k)" "sessions (f_world t) = sessions (f_world s)"
    | (action) g p e where "f_conns s k = Some (Act g p)" "k \<in> set (running (f_world s))"
      "t = in_program k (Some (p e (f_world s))) (at_world (g e (f_world s)) s)"
    | (finishes) "f_conns t k = None" "f_world t = f_world s"
  using assms(2)
proof (cases rule: fine_step.cases)
  case (read sid io res rest)
  show ?thesis
  proof (cases "sid = k")
    case True
    then show ?thesis
      using that(2,3) read by (cases res) (auto simp: fine_defs loop_prog_def takes_def)
  next
    case False
    with read show ?thesis by (intro that(1)) (simp_all add: fine_defs)
  qed
next
  case (action sid g p e)
  have ins: "inside sid (f_world s) (g e (f_world s))"
    using fine_invD(5) [OF inv action(2)] outside_refl by simp
  show ?thesis
  proof (cases "sid = k")
    case True
    with action ins show ?thesis by (intro that(4)) (simp_all add: inside_def)
  next
    case False
    with ins have "outside k (f_world s) (g e (f_world s))" by (simp add: inside_def)
    with False action(1) show ?thesis by (intro that(1)) (auto simp: fine_defs outside_def calm_def)
  qed
next
  case (finish sid u)
  then show ?thesis by (cases "sid = k") (auto simp: fine_defs intro: that(1,5))
next
  case (task u e)
  show ?thesis
  proof (cases "is_run u")
    case True
    then obtain a where "u = RunConn a" by (cases u) auto
    then show ?thesis using task(1) by (intro that(1)) (auto simp: at_world_def split: if_splits)
  next
    case False
    then have "\<And>a. u \<noteq> RunConn a" by auto
    note eff = exec_task_effect [OF this, where e = e and cfg = cfg]
    show ?thesis by (intro that(1)) (auto simp: task(1) at_world_def eff split: if_splits)
  qed
next
  case (timer_looks sid)
  then show ?thesis by (intro that(1)) simp_all
next
  case (timer_closes sid)
  then show ?thesis by (intro that(1)) (auto split: if_splits)
next
  case (arrive sid bs)
  then show ?thesis by (intro that(1)) (simp_all add: at_world_def deliver_def)
next
  case (prune e)
  then show ?thesis by (intro that(1)) (auto simp: at_world_def prune_stale_def split: if_splits)
next
  case (accept addr)
  then show ?thesis by (intro that(1)) (simp_all add: at_world_def)
qed

definition earned :: "config \<Rightarrow> device_store \<Rightarrow> nat \<Rightarrow> fine list \<Rightarrow> bool" where
  "earned cfg st k ss \<longleftrightarrow> granted cfg st k ss \<or>
     s_state (sessions (f_world (last ss)) k) \<noteq> Authenticated \<and>
     (\<forall>p. f_conns (last ss) k = Some p \<longrightarrow>
        (\<exists>fo. earns cfg k fo p \<and> (\<forall>f. fo = Some f \<longrightarrow> (\<exists>i. in_hand cfg st k f i ss))))"

lemma earned_run: "fine_run cfg st ss \<Longrightarrow> earned cfg st k ss"
proof (induction ss rule: rev_induct)
  case Nil
  then show ?case by (simp add: fine_run_def)
next
  case (snoc t ss)
  show ?case
  proof (cases "ss = []")
    case True
    with snoc.prems show ?thesis by (simp add: fine_run_def earned_def in_idle)
  next
    case False
    with snoc.prems have run: "fine_run cfg st ss" and step: "fine_step cfg st (last ss) t"
      by (simp_all add: fine_run_snoc)
    note IH = snoc.IH [OF run] and inv = fine_run_inv [OF run]
    show ?thesis
    proof (cases "granted cfg st k ss")
      case True
      then show ?thesis by (simp add: earned_def granted_snoc)
    next
      case False
      with IH have out: "s_state (sessions (f_world (last ss)) k) \<noteq> Authenticated"
        and prog: "\<And>p. f_conns (last ss) k = Some p \<Longrightarrow>
          \<exists>fo. earns cfg k fo p \<and> (\<forall>f. fo = Some f \<longrightarrow> (\<exists>i. in_hand cfg st k f i ss))"
        by (simp_all add: earned_def)
      from inv step show ?thesis
      proof (cases rule: step_of_connection [where k = k])
        case kept
        then show ?thesis using out prog in_hand_snoc by (fastforce simp: earned_def)
      next
        case (reads f)
        have "in_hand cfg st k f (length ss - 1) (ss @ [t])"
          using reads(1) \<open>ss \<noteq> []\<close> by (auto simp: in_hand_def nth_append last_conv_nth takes_def in_program_def)
        moreover have "f_conns t k = Some (dispatch_prog cfg st k f)" using reads(1) by (auto simp: takes_def in_program_def)
        ultimately show ?thesis using reads(2) out dispatch_earns by (auto simp: earned_def intro!: exI [of _ "Some f"])
      next
        case leaves
        then show ?thesis using out end_earns [of cfg k None] by (auto simp: earned_def intro!: exI [of _ None])
      next
        case (action g p e)
        obtain fo where fo: "earns cfg k fo (Act g p)" "\<And>f. fo = Some f \<Longrightarrow> \<exists>i. in_hand cfg st k f i ss"
          using prog [OF action(1)] by blast
        have t: "f_world t = g e (f_world (last ss))" "f_conns t k = Some (p e (f_world (last ss)))"
          by (simp_all add: action(3) fine_defs)
        consider (go) "earns cfg k fo (p e (f_world (last ss)))"
          | (grant) f where "fo = Some f" "token_granted cfg f e (f_world (last ss)) (f_world t)"
          using fo(1) action(2) t(1) by auto
        then show ?thesis
        proof cases
          case go
          have "s_state (sessions (f_world t) k) \<noteq> Authenticated" using fo(1) action(2) t(1) out by auto
          then show ?thesis using go fo(2) t(2) in_hand_snoc by (fastforce simp: earned_def)
        next
          case grant
          have "acts k e (last ss) t" using action by (auto simp: acts_def)
          then show ?thesis using fo(2) [OF grant(1)] granted_now \<open>ss \<noteq> []\<close> grant(2) by (auto simp: earned_def)
        qed
      next
        case finishes
        then show ?thesis using out by (simp add: earned_def)
      qed
    qed
  qed
qed

section \<open>Property\<close>

text \<open>
  C2 (authentication is sound, under every interleaving). Wherever a run of the server's goroutines,
  action by action, has an authenticated session, its connection has read an authentication frame
  and later, without having gone on to another frame, done an action that looked up the frame's
  phone in Redis, which held the presented token or could not answer (the lookup fails open).
\<close>

theorem authentication_sound_interleaved:
  assumes "fine_run cfg st ss" and "s_state (sessions (f_world (last ss)) k) = Authenticated"
  shows "\<exists>i j f e. i < j \<and> Suc j < length ss \<and>
    takes cfg st k f (ss ! i) (ss ! Suc i) \<and> msg_id f = msg_authentication \<and>
    (\<forall>l. i < l \<and> l \<le> j \<longrightarrow> f_conns (ss ! l) k \<noteq> None) \<and>
    acts k e (ss ! j) (ss ! Suc j) \<and>
    events (f_world (ss ! Suc j)) = events (f_world (ss ! j)) @ [Redis [GetKey (auth_key cfg (phone f))]] \<and>
    (redis_get e (auth_key cfg (phone f)) = RedisVal (string_of_bytes (body f)) \<or>
     redis_get e (auth_key cfg (phone f)) = RedisErr)"
proof -
  have "granted cfg st k ss" using earned_run [OF assms(1), of k] assms(2) by (simp add: earned_def)
  then obtain i j f e where g: "i < j" "Suc j < length ss" "in_hand cfg st k f i (take (Suc j) ss)"
    "acts k e (ss ! j) (ss ! Suc j)" "token_granted cfg f e (f_world (ss ! j)) (f_world (ss ! Suc j))"
    unfolding granted_def by blast
  have "takes cfg st k f (ss ! i) (ss ! Suc i)" "\<forall>l. i < l \<and> l \<le> j \<longrightarrow> f_conns (ss ! l) k \<noteq> None"
    using g(1-3) by (simp_all add: in_hand_def)
  with g(1,2,4,5) show ?thesis unfolding token_granted_def token_accepted_def by blast
qed

theorem authentication_sound_interleaved_witness:
  "\<exists>ss i j f e. fine_run sample_config None ss \<and> takes sample_config None 0 f (ss ! i) (ss ! Suc i) \<and>
     i < j \<and> acts 0 e (ss ! j) (ss ! Suc j) \<and> msg_id f = msg_authentication \<and>
     (redis_get e (auth_key sample_config (phone f)) = RedisVal (string_of_bytes (body f)) \<or>
      redis_get e (auth_key sample_config (phone f)) = RedisErr)"
proof -
  obtain w where w: "reachable sample_config None w" "s_state (sessions w 0) = Authenticated"
    using reachable_authenticated by blast
  obtain ss where ss: "fine_run sample_config None ss" "last ss = idle w"
    using reachable_fine_run [OF reachable_fine [OF w(1)]] by blast
  have "s_state (sessions (f_world (last ss)) 0) = Authenticated" by (simp add: ss(2) in_idle w(2))
  from authentication_sound_interleaved [OF ss(1) this] obtain i j f e where "i < j"
    "takes sample_config None 0 f (ss ! i) (ss ! Suc i)" "acts 0 e (ss ! j) (ss ! Suc j)" "msg_id f = msg_authentication"
    "redis_get e (auth_key sample_config (phone f)) = RedisVal (string_of_bytes (body f)) \<or>
      redis_get e (auth_key sample_config (phone f)) = RedisErr" by blast
  with ss(1) show ?thesis by blast
qed

end
