(* ===== verification/Spec2Isabelle.thy ===== *)
theory Spec2Isabelle
  imports Dialogue Device_Main Http Instruments Lifecycle Interleaving_Auth
begin

text \<open>
  A verification development for the JT808 device server: a TCP server that speaks the JT/T 808
  binary protocol with GPS trackers, authenticates them, answers every message, and forwards
  positions and events to a Redis stream, with an optional MySQL table of approved devices; and
  for the P901 device simulator that talks to it.

  The program and its theories. A connection's bytes are framed, unescaped and checked by
  \<open>pkg/protocol/frame.go\<close> (theory \<open>Frame\<close>); bodies are decoded by \<open>pkg/protocol/decoder.go\<close>
  (\<open>Decoder\<close>, over the constants and records of \<open>types.go\<close> in \<open>Types\<close>). Each connection has a
  session, \<open>server/internal/session/session.go\<close> (\<open>Session\<close>); the registry of phones and its
  Redis commands, \<open>session/registry.go\<close>, is \<open>Registry\<close>; the device table, \<open>store/device.go\<close>, is
  \<open>Store\<close>; the stream publisher, \<open>forwarder/stream.go\<close>, is \<open>Forwarder\<close>; the message handlers,
  \<open>handler/handler.go\<close>, are \<open>Handler\<close>; the listener, the connection loop and the timers,
  \<open>server/tcp.go\<close>, are \<open>Server\<close>; the configuration, \<open>config/config.go\<close>, is \<open>Config\<close> and
  \<open>Config_Load\<close>; the counters of \<open>metrics/metrics.go\<close> are in \<open>World\<close> and the instruments it
  registers in \<open>Instruments\<close>; the HTTP endpoints of \<open>tcp.go\<close> are \<open>Http\<close>; the process itself, from
  \<open>main\<close> in \<open>server/cmd/main.go\<close> through \<open>Run\<close> to its exit, is \<open>Lifecycle\<close>. The simulator,
  \<open>device/p901/main.go\<close>, is \<open>Device\<close> (its messages, its journey and its session with the server),
  \<open>Device_File\<close> (the state file) and \<open>Device_Main\<close> (its configuration and its outer loop). \<open>Prelude\<close>
  holds the byte and text conversions and the interface of fixed-width codecs. The parts of Go's
  library that decide what the code does are modelled too: binary64 arithmetic in \<open>Float64\<close>,
  \<open>Float_Ops\<close> and \<open>Float_Exact\<close>, reading and printing of floating-point numbers (\<open>strconv\<close>) in
  \<open>Float_Text\<close>, the scanner of \<open>encoding/json\<close> in \<open>Json_Scan\<close>, RFC 3339 times in \<open>Time_Text\<close>.

  State and effects. The state of the process is the record \<open>world\<close>: sessions by number (the
  identity of the pointer in the code), the registry's map, the counters, what each connection has
  received, the goroutines and timers started and not yet run, and the log of writes, closes,
  Redis pipelines and SQL statements. Every operation is a function on it. What the outside
  answers (the clock, failing writes, Redis replies, rows) is the record \<open>env\<close>, a parameter of the
  operation. A goroutine runs as a later step of \<open>server_step\<close>, in any order with the rounds of the
  connections; in it the dispatch of one frame is one step. \<open>Programs\<close> takes the handlers apart into
  programs of atomic actions (a critical section, an atomic access, a call of a client), and
  \<open>Interleaving\<close> lets those of all connections, the timers and the goroutines alternate freely; there
  the increments and the \<open>go\<close> statement of the accept loop are one action, and so is
  \<open>Session.Close\<close>. A write on a closed connection may fail or succeed, where in Go it fails. A read
  takes the bytes received and the error that follows them. Integers keep their width (\<open>u8\<close>, \<open>u16\<close>, \<open>u32\<close>);
  Go's \<open>int\<close> is unbounded where its values are lengths or counts; strings are lists of bytes.

  The process around that world is the record \<open>process\<close> with the steps \<open>proc_step\<close>: what it waits
  for, its signal handler, its context, its pools and its listener. A serving process makes the
  steps of \<open>server_step\<close>; under a cancelled context the Redis and database clients answer with errors.
  The process also records what it hands to the Redis client and whether the context handed over with
  it is done; that the client then sends nothing is a hypothesis where it is used. The simulator's
  disk is a map from paths to contents; a save is complete, does not happen, or is cut after some
  bytes. Sine and cosine, the random draws, the clock and the outcome of every write are parameters.

  Interfaces. Fixed-width fields (locale \<open>fixed_codec\<close>), byte stuffing (\<open>byte_stuffing\<close>), the phone
  table (\<open>phone_table\<close>), the approval check (\<open>approval\<close>) and invariants of a transition system
  (\<open>invariant\<close>) are locales, each interpreted on the definitions of the code; the proofs about
  their clients use the interpreted facts.

  What is shown. \<open>Frame_Laws\<close>: what is written is read back, on any stream, and corruption,
  truncation and fragmentation behave as stated. \<open>Decoder_Laws\<close>: the layouts that decode and those
  that are misread. \<open>Handler_Frame\<close>: what handling a frame can change at all. \<open>Handler_Laws\<close>,
  \<open>Registration_Laws\<close>, \<open>Location_Laws\<close>, \<open>Response_Laws\<close>: every handler on every branch, the
  authentication gate and its soundness, the login, and the cases where the code does what it
  should not. \<open>Server_Laws\<close> and \<open>Connection_Laws\<close>: invariants of all reachable states (gauge,
  timers, one live session per phone, sequence numbers) and the life of one connection.
  \<open>Interleaving_Laws\<close>: the programs are the handlers when nothing interrupts them, every step of
  \<open>server_step\<close> is a run of actions, and gauge, sequence numbers and one live session per phone hold
  under every interleaving, by rely and guarantee; and a race of the authentication timer.
  \<open>Interleaving_Auth\<close>: on every run of actions, a session is authenticated only after its own
  connection has had the token of an authentication frame looked up and granted.
  \<open>Config_Load\<close>: the environment readers. \<open>Lifecycle\<close>: a process only ever holds worlds the server
  can reach, its exit status, and what a shutdown does not do. \<open>Http\<close>: what each path is answered.
  \<open>Instruments\<close>: their registration cannot panic in a process that makes it once. \<open>Device_Laws\<close>,
  \<open>Dialogue\<close> and this theory: the simulator and the server in one dialogue. \<open>Float_Text\<close>: a printed
  number is read back exactly; on it \<open>Device_File\<close> shows that a saved state is loaded unchanged and
  what becomes of torn, foreign and unprintable ones, and \<open>Device_Main\<close> that a restart goes on from
  a point of the same journey. \<open>Samples\<close> holds concrete inputs.

  Loops. All loops are total functions: they end because the bytes left get fewer (\<open>conn_loop\<close>,
  \<open>json_chars\<close>, \<open>parse_tlv\<close>, \<open>duration_loop\<close>) or a count does (\<open>batch_loop\<close>); no fuel is used. The
  endless loops of the simulator are taken over any finite sequence of ticks and of attempts to
  connect, those of the server and its waits are steps of a transition system.

  Not modelled: logging, the keep-alive and pool settings, deadlines other than as the timeout they
  end in, the HTTP server's own protocol (CONNECT and OPTIONS * requests, queries and percent escapes of
  paths) and the page of the Prometheus handler, the data race
  between the simulator's shutdown save and its running session. The order in which Go walks over
  the extras of a report is unspecified; here it is the stored order. The conversion of a
  floating-point number outside the integer type's range (or of a NaN, as of a NaN battery) is left
  open by Go, fixed to 0 in the model and not relied on.
\<close>

section \<open>Properties that span components\<close>

text \<open>
  C1 (a whole session). The simulator and the server understand each other end to end: on the
  bytes the simulator writes, the server's connection loop answers byte for byte what lets the
  simulator log in and run any sequence of location and heartbeat ticks without an error; before
  the connection ends, the server has the session authenticated and registered. Redis is only
  assumed to return the token it was given, and both intervals of the simulator to be positive,
  because its tickers panic otherwise.
\<close>

theorem simulator_session:
  assumes "decode_registration (build_reg_body dc) = Inr info"
    and "device_allowed (es n) st (frame_of (reg_message dc)) info"
    and "redis_get (es (Suc n)) (auth_key cfg (phone (frame_of (reg_message dc)))) =
      redis_holds (auth_key cfg (phone (frame_of (reg_message dc))))
        (events (dispatch (es n) cfg st sid (frame_of (reg_message dc)) w))"
    and "read_frame io tail = (Inl err, r)" and "\<not> tickers_panic dc"
  shows "\<exists>outs sent u.
    run_device dc (\<lambda>_. True) io' cosf sinf x s ticks (concat outs @ rest) =
      (sent, loop_saved dc cosf sinf s (LocTick x # ticks), loop_state dc cosf sinf s (LocTick x # ticks), Inr rest) \<and>
    conn_loop es n cfg st io sid (concat sent @ tail) w = end_conn sid u \<and>
    wire sid u = wire sid w @ outs \<and> length sent = length ticks + 3 \<and>
    s_state (sessions u sid) = Authenticated \<and>
    reg_get (phone (frame_of (reg_message dc))) u = Some sid"
proof -
  define w1 where "w1 = dispatch (es n) cfg st sid (frame_of (reg_message dc)) w"
  define am where "am = auth_message dc (bytes_of_string (s_token (sessions w1 sid)))"
  define w2 where "w2 = dispatch (es (Suc n)) cfg st sid (frame_of am) w1"
  define ms where "ms = loop_messages dc cosf sinf 3 s (LocTick x # ticks)"
  define u where "u = run_frames es (Suc (Suc n)) cfg st sid (map frame_of ms) w2"
  note login = login_dialogue [OF assms(1,2) w1_def w2_def [unfolded am_def] assms(3) [folded w1_def], folded am_def]
  have auth: "\<not> s_state (sessions w2 sid) < Authenticated" by (simp add: login(2))
  obtain outs where outs: "wire sid u = wire sid w2 @ outs"
    "device_loop dc (\<lambda>_. True) io' cosf sinf 3 s (LocTick x # ticks) (concat outs @ rest) =
      (map on_wire ms, loop_saved dc cosf sinf s (LocTick x # ticks), loop_state dc cosf sinf s (LocTick x # ticks), Inr rest)"
    using loop_dialogue [OF auth, of es "Suc (Suc n)" cfg st dc cosf sinf 3 s "LocTick x # ticks" io' rest]
    unfolding u_def ms_def by blast
  obtain o1 o2 where os: "wire sid w2 = wire sid w @ [o1, o2]"
    "device_login dc (\<lambda>_. True) io' (o1 @ o2 @ concat outs @ rest) =
      ([on_wire (reg_message dc), on_wire am], Inr (concat outs @ rest))"
    using login(1) [of io' "concat outs @ rest"] by auto
  have "run_device dc (\<lambda>_. True) io' cosf sinf x s ticks (concat (o1 # o2 # outs) @ rest) =
      (map on_wire (reg_message dc # am # ms), loop_saved dc cosf sinf s (LocTick x # ticks), loop_state dc cosf sinf s (LocTick x # ticks), Inr rest)"
    using outs(2) os(2) assms(5) by (simp add: run_device_def)
  moreover have "conn_loop es n cfg st io sid (concat (map on_wire (reg_message dc # am # ms)) @ tail) w =
      end_conn sid u"
    by (simp only: conn_loop_messages [OF assms(4)]) (simp add: u_def w2_def w1_def)
  moreover have "length ms = length ticks + 1"
  proof -
    have "length (loop_messages dc cosf sinf q x ts) = length ts" for q x ts
      by (induction dc cosf sinf q x ts rule: loop_messages.induct) simp_all
    then show ?thesis by (simp add: ms_def)
  qed
  moreover have "s_state (sessions u sid) = Authenticated" "registry u = registry w2"
    unfolding u_def ms_def by (simp_all only: loop_keeps [OF auth] login(2))
  moreover have "reg_get (phone (frame_of (reg_message dc))) u = Some sid"
    using calculation(5) login(3) by (simp add: reg_get_def)
  ultimately show ?thesis using outs(1) os(1)
    by (intro exI [of _ "o1 # o2 # outs"] exI [of _ "map on_wire (reg_message dc # am # ms)"] exI [of _ u]) simp
qed

theorem simulator_session_witness:
  "\<exists>es outs sent u. run_device sample_device (\<lambda>_. True) EOF (\<lambda>x. x) (\<lambda>x. x) sample_draws
        (default_state sample_device sample_stamp) [LocTick sample_draws, HbTick] (concat outs) =
      (sent, loop_saved sample_device (\<lambda>x. x) (\<lambda>x. x) (default_state sample_device sample_stamp)
         [LocTick sample_draws, LocTick sample_draws, HbTick],
       loop_state sample_device (\<lambda>x. x) (\<lambda>x. x) (default_state sample_device sample_stamp)
         [LocTick sample_draws, LocTick sample_draws, HbTick], Inr []) \<and>
    conn_loop es 0 sample_config None EOF 0 (concat sent) empty_world = end_conn 0 u \<and>
    wire 0 u = outs \<and> s_state (sessions u 0) = Authenticated"
proof -
  let ?f = "frame_of (reg_message sample_device)"
  let ?w1 = "dispatch (sample_env RedisNil) sample_config None 0 ?f empty_world"
  define es where "es n = (if n = 0 then sample_env RedisNil
    else sample_env (redis_holds (auth_key sample_config (phone ?f)) (events ?w1)))" for n :: nat
  have dec: "\<exists>info. decode_registration (build_reg_body sample_device) = Inr info"
    using decode_reg_body [of sample_device] by (simp add: sample_device_def trimmed_def byte_of_char_def)
  then obtain info where info: "decode_registration (build_reg_body sample_device) = Inr info" ..
  have allowed: "device_allowed (es 0) None ?f info" by (simp add: device_allowed_def check_or_create_def)
  have redis: "redis_get (es (Suc 0)) (auth_key sample_config (phone ?f)) =
      redis_holds (auth_key sample_config (phone ?f)) (events (dispatch (es 0) sample_config None 0 ?f empty_world))"
    by (simp add: es_def)
  have tail: "read_frame EOF [] = (Inl (SkipError EOF), [])" by (simp add: read_frame_def)
  have live: "\<not> tickers_panic sample_device" by (simp add: tickers_panic_def sample_device_def)
  have "wire 0 empty_world = []" by (simp add: wire_def writes_def)
  with simulator_session [OF info allowed redis tail live, of EOF "\<lambda>x. x" "\<lambda>x. x" sample_draws
      "default_state sample_device sample_stamp" "[LocTick sample_draws, HbTick]" "[]"]
  show ?thesis by (intro exI [of _ es]) (auto simp del: loop_state_simps loop_saved.simps)
qed

end
